(* ===== verification/Prelude.thy ===== *)
theory Prelude
  imports Main "HOL-Library.Word" "HOL-Library.AList" "HOL-Library.Code_Target_Nat"
begin

text \<open>
  Shared vocabulary of the development: Go's errors and results as values, the parts of the
  packages \<open>strings\<close> and \<open>strconv\<close> that colex calls, Go maps as association lists with an
  interface locale, and the lemma collections the component theories draw on.
  A Go string is an Isabelle \<open>string\<close>: both are sequences of bytes.
\<close>

named_theorems go_defs \<open>definitions of the Go library routines, for evaluation at concrete inputs\<close>
named_theorems result_simps \<open>rewriting of results and of their sequential composition\<close>

type_synonym byte = "8 word"

section \<open>Errors and results\<close>

text \<open>
  An \<open>error\<close> value of Go. \<open>ErrNew\<close> is \<open>errors.New\<close> or \<open>fmt.Errorf\<close> with the text it
  carries, \<open>ErrWrap\<close> a \<open>fmt.Errorf("prefix: %v", err)\<close>, \<open>ErrSentinel\<close> an error value the
  code compares by identity, and the others are what the operating system reports, as far as
  the code distinguishes it (\<open>os.IsNotExist\<close>, \<open>os.IsExist\<close>, \<open>syscall.EPERM\<close>).
\<close>

datatype gerr =
    ErrNew string
  | ErrWrap string gerr
  | ErrSentinel string
  | ENOENT
  | EEXIST
  | EPERM
  | EOther string

type_synonym 'a result = "gerr + 'a"

definition IsNotExist :: "gerr \<Rightarrow> bool" where
  "IsNotExist e \<longleftrightarrow> e = ENOENT"

definition IsExist :: "gerr \<Rightarrow> bool" where
  "IsExist e \<longleftrightarrow> e = EEXIST"

lemmas os_err_defs [go_defs, simp] = IsNotExist_def IsExist_def

text \<open>
  How a call ends that may also panic: an index out of range, a nil dereference, a write to a nil
  map. A panic is not an error value: no \<open>if err != nil\<close> sees it.
\<close>

datatype 'a res = Ok 'a | Err gerr | Crash string

text \<open>\<open>if err != nil { return err }\<close> as a combinator.\<close>

fun bindR :: "'a result \<Rightarrow> ('a \<Rightarrow> 'b result) \<Rightarrow> 'b result" where
  "bindR (Inl e) f = Inl e"
| "bindR (Inr x) f = f x"

lemma bindR_Inr_iff [result_simps]: "bindR m f = Inr y \<longleftrightarrow> (\<exists>x. m = Inr x \<and> f x = Inr y)"
  by (cases m) auto

lemma bindR_Inl_iff [result_simps]:
  "bindR m f = Inl e \<longleftrightarrow> m = Inl e \<or> (\<exists>x. m = Inr x \<and> f x = Inl e)"
  by (cases m) auto

section \<open>Strings\<close>

definition HasPrefix :: "string \<Rightarrow> string \<Rightarrow> bool" where
  "HasPrefix s p \<longleftrightarrow> take (length p) s = p"

definition HasSuffix :: "string \<Rightarrow> string \<Rightarrow> bool" where
  "HasSuffix s p \<longleftrightarrow> length p \<le> length s \<and> drop (length s - length p) s = p"

definition TrimSuffix :: "string \<Rightarrow> string \<Rightarrow> string" where
  "TrimSuffix s p = (if HasSuffix s p then take (length s - length p) s else s)"

text \<open>\<open>strings.Split\<close> with a one-byte separator: never empty, \<open>""\<close> splits into \<open>[""]\<close>.\<close>

fun Split :: "string \<Rightarrow> char \<Rightarrow> string list" where
  "Split [] c = [[]]"
| "Split (x # xs) c =
     (if x = c then [] # Split xs c
      else (case Split xs c of [] \<Rightarrow> [[x]] | y # ys \<Rightarrow> (x # y) # ys))"

fun Join :: "string list \<Rightarrow> string \<Rightarrow> string" where
  "Join [] sep = []"
| "Join [x] sep = x"
| "Join (x # y # ys) sep = x @ sep @ Join (y # ys) sep"

text \<open>\<open>strings.NewReplacer\<close> over one-byte patterns: every byte is looked up once.\<close>

definition ReplaceBytes :: "(char \<times> string) list \<Rightarrow> string \<Rightarrow> string" where
  "ReplaceBytes tbl s = concat (map (\<lambda>c. case map_of tbl c of None \<Rightarrow> [c] | Some r \<Rightarrow> r) s)"

text \<open>\<open>strings.Index\<close> of a byte, \<open>None\<close> for \<open>-1\<close>.\<close>

fun IndexByte :: "string \<Rightarrow> char \<Rightarrow> nat option" where
  "IndexByte [] c = None"
| "IndexByte (x # xs) c = (if x = c then Some 0 else map_option Suc (IndexByte xs c))"

lemmas string_fun_defs [go_defs] = HasPrefix_def HasSuffix_def TrimSuffix_def ReplaceBytes_def

lemma Split_not_Nil [simp]: "Split s c \<noteq> []"
  by (induction s) (auto split: list.splits)

lemma Split_no_sep: "c \<notin> set s \<Longrightarrow> Split s c = [s]"
  by (induction s) auto

lemma Split_append_sep: "c \<notin> set a \<Longrightarrow> Split (a @ c # b) c = a # Split b c"
  by (induction a) auto

lemma Split_parts_no_sep: "p \<in> set (Split s c) \<Longrightarrow> c \<notin> set p"
  by (induction s arbitrary: p) (auto split: if_splits list.splits)

lemma Join_Split: "Join (Split s c) [c] = s"
proof (induction s)
  case Nil
  then show ?case by simp
next
  case (Cons x xs)
  obtain y ys where "Split xs c = y # ys"
    by (cases "Split xs c") auto
  with Cons show ?case by (cases ys) auto
qed

lemma Split_Join:
  "ps \<noteq> [] \<Longrightarrow> list_all (\<lambda>p. c \<notin> set p) ps \<Longrightarrow> Split (Join ps [c]) c = ps"
  by (induction ps "[c]" rule: Join.induct) (auto simp: Split_no_sep Split_append_sep)

lemma ReplaceBytes_no_pattern:
  "(c, []) \<in> set tbl \<Longrightarrow> distinct (map fst tbl) \<Longrightarrow>
   list_all (\<lambda>(_, r). c \<notin> set r) tbl \<Longrightarrow> c \<notin> set (ReplaceBytes tbl s)"
  by (auto simp: ReplaceBytes_def list_all_iff split: option.splits dest: map_of_SomeD)

lemma ReplaceBytes_append: "ReplaceBytes tbl (s @ t) = ReplaceBytes tbl s @ ReplaceBytes tbl t"
  by (simp add: ReplaceBytes_def)

lemma ReplaceBytes_id:
  "list_all (\<lambda>c. c \<notin> fst ` set tbl) s \<Longrightarrow> ReplaceBytes tbl s = s"
  by (induction s) (auto simp: ReplaceBytes_def split: option.splits dest!: map_of_SomeD, force)

lemma HasSuffix_append [simp]: "HasSuffix (s @ p) p"
  by (simp add: HasSuffix_def)

lemma TrimSuffix_append [simp]: "TrimSuffix (s @ p) p = s"
  by (simp add: TrimSuffix_def)

lemma HasSuffix_iff: "HasSuffix s p \<longleftrightarrow> (\<exists>r. s = r @ p)"
  by (metis HasSuffix_append HasSuffix_def append_take_drop_id)

lemma HasPrefix_iff: "HasPrefix s p \<longleftrightarrow> (\<exists>r. s = p @ r)"
  by (metis HasPrefix_def append_eq_conv_conj)

lemma IndexByte_None_iff: "IndexByte s c = None \<longleftrightarrow> c \<notin> set s"
  by (induction s) auto

lemma IndexByte_SomeD: "IndexByte s c = Some i \<Longrightarrow> i < length s \<and> s ! i = c \<and> c \<notin> set (take i s)"
  by (induction s arbitrary: i) (auto split: if_splits)

lemma IndexByte_append: "c \<notin> set a \<Longrightarrow> IndexByte (a @ c # b) c = Some (length a)"
  by (induction a) auto

section \<open>Decimal numbers (strconv)\<close>

definition digit_char :: "nat \<Rightarrow> char" where
  "digit_char d = char_of (48 + d)"

definition is_digit :: "char \<Rightarrow> bool" where
  "is_digit c \<longleftrightarrow> 48 \<le> (of_char c :: nat) \<and> (of_char c :: nat) \<le> 57"

definition digit_val :: "char \<Rightarrow> nat" where
  "digit_val c = of_char c - 48"

fun dec_digits :: "nat \<Rightarrow> string" where
  "dec_digits n = (if n < 10 then [digit_char n] else dec_digits (n div 10) @ [digit_char (n mod 10)])"

declare dec_digits.simps [simp del]

definition dec_value :: "string \<Rightarrow> nat" where
  "dec_value s = foldl (\<lambda>a c. a * 10 + digit_val c) 0 s"

text \<open>\<open>strconv.Itoa\<close>, \<open>strconv.FormatInt(\<dots>, 10)\<close> and the verb \<open>%d\<close>.\<close>

definition FormatInt :: "int \<Rightarrow> string" where
  "FormatInt i = (if i < 0 then CHR ''-'' # dec_digits (nat (- i)) else dec_digits (nat i))"

text \<open>
  \<open>strconv.Atoi\<close> where \<open>int\<close> has 64 bits: an optional sign, at least one digit, and nothing
  else; a syntax error or a range error otherwise.
\<close>

definition Atoi :: "string \<Rightarrow> int result" where
  "Atoi s =
     (let (neg, ds) = (case s of [] \<Rightarrow> (False, [])
                       | c # cs \<Rightarrow> if c = CHR ''-'' then (True, cs)
                                   else if c = CHR ''+'' then (False, cs) else (False, s))
      in if ds = [] \<or> \<not> list_all is_digit ds then Inl (ErrNew ''invalid syntax'')
         else let v = int (dec_value ds)
              in if neg then (if v \<le> 2 ^ 63 then Inr (- v) else Inl (ErrNew ''value out of range''))
                 else (if v < 2 ^ 63 then Inr v else Inl (ErrNew ''value out of range'')))"

lemmas strconv_defs [go_defs] = digit_char_def is_digit_def digit_val_def dec_value_def FormatInt_def Atoi_def

lemma of_char_digit [simp]: "d < 10 \<Longrightarrow> (of_char (digit_char d) :: nat) = 48 + d"
  by (simp add: digit_char_def)

lemma is_digit_digit_char [simp]: "d < 10 \<Longrightarrow> is_digit (digit_char d)"
  by (simp add: is_digit_def)

lemma digit_val_digit_char [simp]: "d < 10 \<Longrightarrow> digit_val (digit_char d) = d"
  by (simp add: digit_val_def)

lemma dec_digits_not_Nil [simp]: "dec_digits n \<noteq> []"
  by (subst dec_digits.simps) simp

lemma dec_digits_are_digits: "list_all is_digit (dec_digits n)"
proof (induction n rule: dec_digits.induct)
  case (1 n)
  then show ?case by (cases "n < 10") (simp_all add: dec_digits.simps [of n])
qed

lemma dec_value_snoc [simp]: "dec_value (s @ [c]) = dec_value s * 10 + digit_val c"
  by (simp add: dec_value_def)

lemma dec_value_dec_digits [simp]: "dec_value (dec_digits n) = n"
proof (induction n rule: dec_digits.induct)
  case (1 n)
  show ?case
  proof (cases "n < 10")
    case True
    then show ?thesis by (simp add: dec_digits.simps [of n] dec_value_def)
  next
    case False
    with 1 show ?thesis by (simp add: dec_digits.simps [of n])
  qed
qed

lemma dec_digits_inj: "dec_digits m = dec_digits n \<Longrightarrow> m = n"
  by (metis dec_value_dec_digits)

lemma digit_not_special: "is_digit c \<Longrightarrow> c \<notin> {CHR ''-'', CHR ''+'', CHR '' '', CHR ''.'', CHR '':'', CHR ''/''}"
  by (auto simp: is_digit_def)

lemma dec_digits_head: "\<exists>c cs. dec_digits n = c # cs \<and> is_digit c"
  using dec_digits_are_digits [of n] by (cases "dec_digits n") auto

lemma Atoi_dec_digits: "int n < 2 ^ 63 \<Longrightarrow> Atoi (dec_digits n) = Inr (int n)"
proof -
  assume n: "int n < 2 ^ 63"
  obtain c cs where c: "dec_digits n = c # cs" "is_digit c"
    using dec_digits_head by blast
  then have "c \<noteq> CHR ''-''" "c \<noteq> CHR ''+''"
    using digit_not_special by auto
  with n c show ?thesis
    using dec_digits_are_digits [of n] dec_value_dec_digits [of n] by (simp add: Atoi_def)
qed

lemma Atoi_FormatInt:
  assumes "- (2 ^ 63) \<le> i" "i < 2 ^ 63"
  shows "Atoi (FormatInt i) = Inr i"
proof (cases "i < 0")
  case True
  then have "dec_value (dec_digits (nat (- i))) = nat (- i)" by simp
  with True assms show ?thesis
    using dec_digits_are_digits [of "nat (- i)"] by (simp add: Atoi_def FormatInt_def)
next
  case False
  with assms show ?thesis
    using Atoi_dec_digits [of "nat i"] by (simp add: FormatInt_def)
qed

lemma FormatInt_chars: "c \<in> set (FormatInt i) \<Longrightarrow> is_digit c \<or> c = CHR ''-''"
  using dec_digits_are_digits by (auto simp: FormatInt_def list_all_iff split: if_splits)

lemma FormatInt_not_Nil [simp]: "FormatInt i \<noteq> []"
  by (simp add: FormatInt_def)

section \<open>Go maps\<close>

text \<open>
  A Go map is an association list with distinct keys; the list's order stands for the order in
  which a \<open>range\<close> loop happens to visit the entries, which Go leaves open. The contract of
  such a map (what a read sees after a write or a delete, and that keys stay distinct) is a
  locale, so that the clients do not depend on the list.
\<close>

locale go_map =
  fixes lookup :: "'m \<Rightarrow> 'k \<Rightarrow> 'v option"
    and insert_entry :: "'k \<Rightarrow> 'v \<Rightarrow> 'm \<Rightarrow> 'm"
    and delete_entry :: "'k \<Rightarrow> 'm \<Rightarrow> 'm"
    and entries :: "'m \<Rightarrow> ('k \<times> 'v) set"
    and wf :: "'m \<Rightarrow> bool"
  assumes lookup_insert: "lookup (insert_entry k v m) = (lookup m)(k \<mapsto> v)"
    and lookup_delete: "lookup (delete_entry k m) = (lookup m)(k := None)"
    and wf_insert: "wf m \<Longrightarrow> wf (insert_entry k v m)"
    and wf_delete: "wf m \<Longrightarrow> wf (delete_entry k m)"
    and entries_lookup: "wf m \<Longrightarrow> (k, v) \<in> entries m \<longleftrightarrow> lookup m k = Some v"
begin

lemma lookup_insert_same: "lookup (insert_entry k v m) k = Some v"
  by (simp add: lookup_insert)

lemma lookup_insert_other: "k' \<noteq> k \<Longrightarrow> lookup (insert_entry k v m) k' = lookup m k'"
  by (simp add: lookup_insert)

lemma lookup_delete_same: "lookup (delete_entry k m) k = None"
  by (simp add: lookup_delete)

lemma entries_insert:
  assumes "wf m"
  shows "entries (insert_entry k v m) = insert (k, v) {e \<in> entries m. fst e \<noteq> k}"
  using entries_lookup [OF wf_insert [OF assms]] entries_lookup [OF assms]
  by (auto simp: lookup_insert split: if_splits)

lemma entries_delete:
  assumes "wf m"
  shows "entries (delete_entry k m) = {e \<in> entries m. fst e \<noteq> k}"
  using entries_lookup [OF wf_delete [OF assms]] entries_lookup [OF assms]
  by (auto simp: lookup_delete split: if_splits)

end

type_synonym ('k, 'v) gomap = "('k \<times> 'v) list"

abbreviation go_lookup :: "('k, 'v) gomap \<Rightarrow> 'k \<Rightarrow> 'v option" where
  "go_lookup \<equiv> map_of"

abbreviation go_insert :: "'k \<Rightarrow> 'v \<Rightarrow> ('k, 'v) gomap \<Rightarrow> ('k, 'v) gomap" where
  "go_insert \<equiv> AList.update"

abbreviation go_delete :: "'k \<Rightarrow> ('k, 'v) gomap \<Rightarrow> ('k, 'v) gomap" where
  "go_delete \<equiv> AList.delete"

definition wf_map :: "('k, 'v) gomap \<Rightarrow> bool" where
  "wf_map m \<longleftrightarrow> distinct (map fst m)"

interpretation gm: go_map go_lookup go_insert go_delete set wf_map
proof unfold_locales
  fix m :: "('k, 'v) gomap" and k v
  show "go_lookup (go_insert k v m) = (go_lookup m)(k \<mapsto> v)"
    by (rule update_conv')
  show "go_lookup (go_delete k m) = (go_lookup m)(k := None)"
    by (rule delete_conv')
  show "wf_map m \<Longrightarrow> wf_map (go_insert k v m)"
    by (simp add: wf_map_def distinct_update)
  show "wf_map m \<Longrightarrow> wf_map (go_delete k m)"
    by (simp add: wf_map_def distinct_delete)
  show "wf_map m \<Longrightarrow> (k, v) \<in> set m \<longleftrightarrow> go_lookup m k = Some v"
    by (simp add: wf_map_def)
qed

lemma wf_map_Nil [simp]: "wf_map []"
  by (simp add: wf_map_def)

section \<open>Lists\<close>

lemma concat_map_filter_distinct:
  "distinct (concat (map f xs)) \<Longrightarrow> distinct (concat (map f (filter P xs)))"
  by (induction xs) auto

end
