(* ===== verification/GoNet.thy ===== *)
theory GoNet
  imports Prelude
begin

text \<open>
  The parts of Go's package \<open>net\<close> that colex calls, transcribed from the package: addresses and
  masks as byte slices, \<open>ParseIP\<close>, \<open>ParseCIDR\<close>, \<open>IP.To4\<close>, \<open>IP.Mask\<close>, \<open>IP.String\<close> and
  \<open>IPNet.Contains\<close>. An address is read as a number by \<open>be_val\<close> (big endian); the lemmas say
  what the byte-wise routines compute on those numbers.
\<close>

unbundle bit_operations_syntax

section \<open>Addresses, masks and networks\<close>

type_synonym ip = "byte list"
type_synonym ipmask = "byte list"

record IPNet =
  net_IP :: ip
  net_Mask :: ipmask

definition v4InV6Prefix :: "byte list" where
  "v4InV6Prefix = [0, 0, 0, 0, 0, 0, 0, 0, 0, 0, 255, 255]"

text \<open>\<open>net.IPv4\<close>: four bytes in the 16-byte form.\<close>

definition IPv4 :: "byte \<Rightarrow> byte \<Rightarrow> byte \<Rightarrow> byte \<Rightarrow> ip" where
  "IPv4 a b c d = v4InV6Prefix @ [a, b, c, d]"

text \<open>\<open>IP.To4\<close>; the nil address is \<open>[]\<close>.\<close>

definition To4 :: "ip \<Rightarrow> ip" where
  "To4 ip = (if length ip = 4 then ip
             else if length ip = 16 \<and> take 12 ip = v4InV6Prefix then drop 12 ip
             else [])"

definition IP_Mask :: "ip \<Rightarrow> ipmask \<Rightarrow> ip" where
  "IP_Mask ip m =
     (let m' = (if length m = 16 \<and> length ip = 4 \<and> take 12 m = replicate 12 255 then drop 12 m else m);
          ip' = (if length m' = 4 \<and> length ip = 16 \<and> take 12 ip = v4InV6Prefix then drop 12 ip else ip)
      in if length ip' \<noteq> length m' then [] else map2 (AND) ip' m')"

fun cidr_mask_loop :: "nat \<Rightarrow> nat \<Rightarrow> ipmask" where
  "cidr_mask_loop 0 n = []"
| "cidr_mask_loop (Suc l) n =
     (if 8 \<le> n then 255 # cidr_mask_loop l (n - 8)
      else NOT (drop_bit n 255) # cidr_mask_loop l 0)"

definition CIDRMask :: "nat \<Rightarrow> nat \<Rightarrow> ipmask" where
  "CIDRMask ones bits =
     (if bits \<noteq> 32 \<and> bits \<noteq> 128 then [] else if bits < ones then []
      else cidr_mask_loop (bits div 8) ones)"

definition networkNumberAndMask :: "IPNet \<Rightarrow> ip \<times> ipmask" where
  "networkNumberAndMask n =
     (let ip4 = To4 (net_IP n);
          ip = (if ip4 = [] then net_IP n else ip4);
          m = net_Mask n
      in if ip4 = [] \<and> length ip \<noteq> 16 then ([], [])
         else if length m = 4 then (if length ip \<noteq> 4 then ([], []) else (ip, m))
         else if length m = 16 then (if length ip = 4 then (ip, drop 12 m) else (ip, m))
         else ([], []))"

definition Contains :: "IPNet \<Rightarrow> ip \<Rightarrow> bool" where
  "Contains n ip =
     (let (nn, m) = networkNumberAndMask n;
          ip' = (if To4 ip \<noteq> [] then To4 ip else ip)
      in length ip' = length nn \<and> map2 (AND) nn m = map2 (AND) ip' m)"

section \<open>Parsing\<close>

definition big :: nat where
  "big = 16777215"

fun dtoi_loop :: "string \<Rightarrow> nat \<Rightarrow> nat \<Rightarrow> nat \<times> nat \<times> bool" where
  "dtoi_loop [] n i = (n, i, i \<noteq> 0)"
| "dtoi_loop (c # cs) n i =
     (if is_digit c
      then let n' = n * 10 + digit_val c
           in if big \<le> n' then (big, i, False) else dtoi_loop cs n' (Suc i)
      else (if i = 0 then 0 else n, i, i \<noteq> 0))"

definition dtoi :: "string \<Rightarrow> nat \<times> nat \<times> bool" where
  "dtoi s = dtoi_loop s 0 0"

definition hex_val :: "char \<Rightarrow> nat option" where
  "hex_val c =
     (if is_digit c then Some (digit_val c)
      else if 97 \<le> (of_char c :: nat) \<and> (of_char c :: nat) \<le> 102 then Some (of_char c - 87)
      else if 65 \<le> (of_char c :: nat) \<and> (of_char c :: nat) \<le> 70 then Some (of_char c - 55)
      else None)"

fun xtoi_loop :: "string \<Rightarrow> nat \<Rightarrow> nat \<Rightarrow> nat \<times> nat \<times> bool" where
  "xtoi_loop [] n i = (n, i, i \<noteq> 0)"
| "xtoi_loop (c # cs) n i =
     (case hex_val c of
        None \<Rightarrow> (if i = 0 then 0 else n, i, i \<noteq> 0)
      | Some d \<Rightarrow> let n' = n * 16 + d
                 in if big \<le> n' then (0, i, False) else xtoi_loop cs n' (Suc i))"

definition xtoi :: "string \<Rightarrow> nat \<times> nat \<times> bool" where
  "xtoi s = xtoi_loop s 0 0"

text \<open>The loop of \<open>parseIPv4\<close>: \<open>k\<close> bytes still to come, \<open>p\<close> those read so far.\<close>

fun parseIPv4_loop :: "nat \<Rightarrow> byte list \<Rightarrow> string \<Rightarrow> ip option" where
  "parseIPv4_loop 0 p s = (if s = [] then Some (v4InV6Prefix @ p) else None)"
| "parseIPv4_loop (Suc k) p s =
     (if s = [] then None
      else if p \<noteq> [] \<and> hd s \<noteq> CHR ''.'' then None
      else let s' = (if p \<noteq> [] then tl s else s);
               (n, c, ok) = dtoi s'
           in if \<not> ok \<or> 255 < n then None
              else parseIPv4_loop k (p @ [word_of_nat n]) (drop c s'))"

definition parseIPv4 :: "string \<Rightarrow> ip option" where
  "parseIPv4 s = parseIPv4_loop 4 [] s"

text \<open>
  The loop of \<open>parseIPv6\<close>: \<open>k\<close> bounds the number of 16-bit groups still to read (8 at the
  start), \<open>acc\<close> is \<open>ip[:i]\<close> and \<open>ell\<close> the position of the ellipsis. It returns the string
  left over, \<open>ip[:i]\<close> and the ellipsis, or \<open>None\<close> where the code returns nil.
\<close>

fun parseIPv6_loop ::
  "nat \<Rightarrow> byte list \<Rightarrow> nat option \<Rightarrow> string \<Rightarrow> (string \<times> byte list \<times> nat option) option" where
  "parseIPv6_loop 0 acc ell s = Some (s, acc, ell)"
| "parseIPv6_loop (Suc k) acc ell s =
     (let (n, c, ok) = xtoi s; i = length acc
      in if \<not> ok \<or> 65535 < n then None
         else if c < length s \<and> s ! c = CHR ''.''
         then (if ell = None \<and> i \<noteq> 12 then None
               else if 16 < i + 4 then None
               else (case parseIPv4 s of
                       None \<Rightarrow> None
                     | Some ip4 \<Rightarrow> Some ([], acc @ drop 12 ip4, ell)))
         else let acc' = acc @ [word_of_nat (n div 256), word_of_nat (n mod 256)];
                  s1 = drop c s
              in if s1 = [] then Some ([], acc', ell)
                 else if hd s1 \<noteq> CHR '':'' \<or> length s1 = 1 then None
                 else let s2 = tl s1
                      in if hd s2 = CHR '':''
                         then (if ell \<noteq> None then None
                               else if tl s2 = [] then Some ([], acc', Some (i + 2))
                               else parseIPv6_loop k acc' (Some (i + 2)) (tl s2))
                         else parseIPv6_loop k acc' ell s2)"

definition parseIPv6 :: "string \<Rightarrow> ip option" where
  "parseIPv6 s =
     (let lead = 2 \<le> length s \<and> s ! 0 = CHR '':'' \<and> s ! 1 = CHR '':'';
          s0 = (if lead then drop 2 s else s);
          ell0 = (if lead then Some 0 else None)
      in if lead \<and> s0 = [] then Some (replicate 16 0)
         else (case parseIPv6_loop 8 [] ell0 s0 of
                 None \<Rightarrow> None
               | Some (rest, acc, ell) \<Rightarrow>
                   if rest \<noteq> [] then None
                   else if length acc < 16
                   then (case ell of None \<Rightarrow> None
                         | Some e \<Rightarrow> Some (take e acc @ replicate (16 - length acc) 0 @ drop e acc))
                   else if ell \<noteq> None then None else Some acc))"

fun ParseIP_from :: "string \<Rightarrow> string \<Rightarrow> ip" where
  "ParseIP_from s [] = []"
| "ParseIP_from s (c # cs) =
     (if c = CHR ''.'' then (case parseIPv4 s of None \<Rightarrow> [] | Some ip \<Rightarrow> ip)
      else if c = CHR '':'' then (case parseIPv6 s of None \<Rightarrow> [] | Some ip \<Rightarrow> ip)
      else ParseIP_from s cs)"

definition ParseIP :: "string \<Rightarrow> ip" where
  "ParseIP s = ParseIP_from s s"

definition ParseCIDR :: "string \<Rightarrow> (ip \<times> IPNet) result" where
  "ParseCIDR s =
     (let bad = Inl (ErrWrap ''invalid CIDR address'' (ErrNew s))
      in case IndexByte s CHR ''/'' of
           None \<Rightarrow> bad
         | Some i \<Rightarrow>
             let addr = take i s; m = drop (Suc i) s;
                 (iplen, ipo) = (case parseIPv4 addr of Some ip \<Rightarrow> (4, Some ip)
                                 | None \<Rightarrow> (16, parseIPv6 addr));
                 (n, c, ok) = dtoi m
             in case ipo of
                  None \<Rightarrow> bad
                | Some ip \<Rightarrow>
                    if \<not> ok \<or> c \<noteq> length m \<or> 8 * iplen < n then bad
                    else let k = CIDRMask n (8 * iplen)
                         in Inr (ip, \<lparr>net_IP = IP_Mask ip k, net_Mask = k\<rparr>))"

section \<open>Printing\<close>

definition hex_char :: "nat \<Rightarrow> char" where
  "hex_char d = char_of (if d < 10 then 48 + d else 87 + d)"

text \<open>\<open>hex.EncodeToString\<close> and \<open>hexString\<close> of package net.\<close>

definition hexString :: "byte list \<Rightarrow> string" where
  "hexString bs = concat (map (\<lambda>b. [hex_char (unat b div 16), hex_char (unat b mod 16)]) bs)"

fun hex_digits :: "nat \<Rightarrow> string" where
  "hex_digits n = (if n < 16 then [hex_char n] else hex_digits (n div 16) @ [hex_char (n mod 16)])"

declare hex_digits.simps [simp del]

fun groups16 :: "byte list \<Rightarrow> nat list" where
  "groups16 (a # b # r) = (unat a * 256 + unat b) # groups16 r"
| "groups16 _ = []"

text \<open>
  The longest run of zero groups, the first one on a tie, as positions of groups: \<open>i\<close> runs over
  the groups, \<open>e\<close> is the best run found so far. The fuel is the number of groups.
\<close>

fun zero_run :: "nat list \<Rightarrow> nat" where
  "zero_run [] = 0"
| "zero_run (g # gs) = (if g = 0 then Suc (zero_run gs) else 0)"

fun longest_run :: "nat \<Rightarrow> nat \<Rightarrow> nat list \<Rightarrow> nat \<times> nat \<Rightarrow> nat \<times> nat" where
  "longest_run 0 i gs e = e"
| "longest_run (Suc k) i gs e =
     (let r = zero_run (drop i gs)
      in if 0 < r \<and> snd e - fst e < r then longest_run k (i + r + 1) gs (i, i + r)
         else longest_run k (i + 1) gs e)"

fun print_groups :: "nat \<Rightarrow> nat \<Rightarrow> nat list \<Rightarrow> (nat \<times> nat) option \<Rightarrow> string" where
  "print_groups 0 i gs e = []"
| "print_groups (Suc k) i gs e =
     (if length gs \<le> i then []
      else case e of
        Some (e0, e1) \<Rightarrow>
          if i = e0 then ''::'' @ (if length gs \<le> e1 then [] else hex_digits (gs ! e1) @ print_groups k (e1 + 1) gs e)
          else (if 0 < i then '':'' else []) @ hex_digits (gs ! i) @ print_groups k (i + 1) gs e
      | None \<Rightarrow> (if 0 < i then '':'' else []) @ hex_digits (gs ! i) @ print_groups k (i + 1) gs e)"

definition IP_String :: "ip \<Rightarrow> string" where
  "IP_String ip =
     (if ip = [] then ''<nil>''
      else let p4 = To4 ip
           in if length p4 = 4
              then Join (map (\<lambda>b. dec_digits (unat b)) p4) ''.''
              else if length ip \<noteq> 16 then ''?'' @ hexString ip
              else let gs = groups16 ip; (e0, e1) = longest_run 8 0 gs (0, 0)
                   in print_groups 8 0 gs (if e1 - e0 \<le> 1 then None else Some (e0, e1)))"

lemmas net_defs [go_defs] =
  v4InV6Prefix_def IPv4_def To4_def IP_Mask_def CIDRMask_def networkNumberAndMask_def Contains_def
  big_def dtoi_def xtoi_def hex_val_def parseIPv4_def parseIPv6_def ParseIP_def ParseCIDR_def
  hex_char_def hexString_def IP_String_def

section \<open>Addresses as numbers\<close>

fun be_val :: "byte list \<Rightarrow> nat" where
  "be_val [] = 0"
| "be_val (b # bs) = unat b * 256 ^ length bs + be_val bs"

lemma byte_unat_lt [simp]: "unat (b :: byte) < 256"
proof -
  have "unat b < 2 ^ LENGTH(8)" by (rule unsigned_less)
  then show ?thesis by simp
qed

lemma nat_mult_add_unique:
  fixes a b r s m :: nat
  assumes "r < m" "s < m"
  shows "a * m + r = b * m + s \<longleftrightarrow> a = b \<and> r = s"
proof
  assume eq: "a * m + r = b * m + s"
  have "(a * m + r) div m = a" "(b * m + s) div m = b" using assms by simp_all
  with eq show "a = b \<and> r = s" by simp
qed simp

lemma be_val_bound: "be_val bs < 256 ^ length bs"
proof (induction bs)
  case Nil
  then show ?case by simp
next
  case (Cons b bs)
  have "unat b \<le> 255" using byte_unat_lt [of b] by linarith
  then have "unat b * 256 ^ length bs \<le> 255 * 256 ^ length bs" by (rule mult_le_mono1)
  with Cons have "unat b * 256 ^ length bs + be_val bs < 255 * 256 ^ length bs + 256 ^ length bs"
    by linarith
  then show ?case by simp
qed

lemma be_val_append: "be_val (xs @ ys) = be_val xs * 256 ^ length ys + be_val ys"
  by (induction xs) (simp_all add: power_add algebra_simps)

lemma be_val_snoc [simp]: "be_val (xs @ [b]) = be_val xs * 256 + unat b"
  by (simp add: be_val_append)


lemma be_val_inject: "length xs = length ys \<Longrightarrow> be_val xs = be_val ys \<longleftrightarrow> xs = ys"
proof (induction xs ys rule: list_induct2)
  case Nil
  then show ?case by simp
next
  case (Cons x xs y ys)
  let ?n = "256 ^ length ys :: nat"
  have len: "length xs = length ys" using Cons by simp
  have x: "be_val xs < ?n" "be_val ys < ?n"
    using be_val_bound [of xs] be_val_bound [of ys] len by auto
  show ?case
  proof
    assume eq: "be_val (x # xs) = be_val (y # ys)"
    then have "(unat x * ?n + be_val xs) div ?n = (unat y * ?n + be_val ys) div ?n"
      using len by simp
    then have "unat x = unat y" using x by simp
    moreover from this eq have "be_val xs = be_val ys" using len by simp
    ultimately show "x # xs = y # ys" using Cons by (simp add: word_unat_eq_iff)
  qed simp
qed

text \<open>A byte under the mask with \<open>n\<close> leading ones.\<close>

lemma byte_and_mask_eq_iff:
  fixes a b :: byte
  assumes "n < 8"
  shows "a AND NOT (drop_bit n 255) = b AND NOT (drop_bit n 255) \<longleftrightarrow>
         unat a div 2 ^ (8 - n) = unat b div 2 ^ (8 - n)"
proof -
  have m: "(255 :: byte) = mask 8" by (simp add: mask_eq_exp_minus_1)
  have d: "drop_bit n (255 :: byte) = mask (8 - n)"
    using assms by (auto simp: m bit_eq_iff bit_simps)
  have pd: "push_bit k (drop_bit k x) = x AND NOT (mask k)" for k and x :: byte
    by (rule bit_eqI) (auto simp: bit_simps)
  have "a AND NOT (mask (8 - n)) = b AND NOT (mask (8 - n)) \<longleftrightarrow> drop_bit (8 - n) a = drop_bit (8 - n) b"
  proof
    assume "a AND NOT (mask (8 - n)) = b AND NOT (mask (8 - n))"
    then have "drop_bit (8 - n) (a AND NOT (mask (8 - n))) = drop_bit (8 - n) (b AND NOT (mask (8 - n)))"
      by simp
    then show "drop_bit (8 - n) a = drop_bit (8 - n) b"
      by (simp add: bit_eq_iff bit_simps) (use bit_imp_le_length [where 'a = 8] in force)
  next
    assume "drop_bit (8 - n) a = drop_bit (8 - n) b"
    then have "push_bit (8 - n) (drop_bit (8 - n) a) = push_bit (8 - n) (drop_bit (8 - n) b)"
      by simp
    then show "a AND NOT (mask (8 - n)) = b AND NOT (mask (8 - n))"
      by (simp add: pd)
  qed
  also have "\<dots> \<longleftrightarrow> unat (drop_bit (8 - n) a) = unat (drop_bit (8 - n) b)"
    by (simp add: word_unat_eq_iff)
  also have "\<dots> \<longleftrightarrow> unat a div 2 ^ (8 - n) = unat b div 2 ^ (8 - n)"
    by (simp only: unat_drop_bit_eq) (simp add: drop_bit_eq_div)
  finally show ?thesis by (simp only: d)
qed

lemma length_cidr_mask_loop [simp]: "length (cidr_mask_loop l n) = l"
  by (induction l n rule: cidr_mask_loop.induct) auto

lemma byte_minus_256 [simp]: "(- 256 :: byte) = 0"
  by code_simp

lemma byte_and_255 [simp]: "(x :: byte) AND 255 = x"
proof -
  have "(255 :: byte) = - 1" by code_simp
  then show ?thesis by (simp only: and.right_neutral)
qed

lemma and_cidr_mask_zero: "length xs = l \<Longrightarrow> map2 (AND) xs (cidr_mask_loop l 0) = replicate l 0"
proof (induction xs arbitrary: l)
  case Nil
  then show ?case by simp
next
  case (Cons x xs)
  then show ?case by (cases l) auto
qed

text \<open>Equality under a CIDR mask is equality of the leading \<open>n\<close> bits.\<close>

lemma map2_mask_eq_iff:
  "length xs = l \<Longrightarrow> length ys = l \<Longrightarrow> n \<le> 8 * l \<Longrightarrow>
   map2 (AND) xs (cidr_mask_loop l n) = map2 (AND) ys (cidr_mask_loop l n) \<longleftrightarrow>
   be_val xs div 2 ^ (8 * l - n) = be_val ys div 2 ^ (8 * l - n)"
proof (induction l n arbitrary: xs ys rule: cidr_mask_loop.induct)
  case (1 n)
  then show ?case by simp
next
  case (2 l n)
  then obtain x xs' y ys' where xs: "xs = x # xs'" "length xs' = l" and ys: "ys = y # ys'" "length ys' = l"
    by (metis Suc_length_conv)
  let ?N = "256 ^ l :: nat"
  have bnd: "be_val xs' < ?N" "be_val ys' < ?N"
    using be_val_bound [of xs'] be_val_bound [of ys'] xs ys by auto
  show ?case
  proof (cases "8 \<le> n")
    case True
    let ?k = "8 * l - (n - 8)"
    have k: "8 * Suc l - n = ?k" and kle: "?k \<le> 8 * l" using True 2 by auto
    have split: "?N = 2 ^ (8 * l - ?k) * 2 ^ ?k"
      using kle by (simp add: power_add [symmetric] power_mult)
    have dv: "be_val (z # zs) div 2 ^ ?k = unat z * 2 ^ (8 * l - ?k) + be_val zs div 2 ^ ?k" if "length zs = l" for z zs
      using that split by (simp add: mult.assoc [symmetric])
    have lt: "be_val zs div 2 ^ ?k < 2 ^ (8 * l - ?k)" if "length zs = l" for zs
      using be_val_bound [of zs] that split by (simp add: less_mult_imp_div_less mult.commute)
    have "(unat x * 2 ^ (8 * l - ?k) + be_val xs' div 2 ^ ?k = unat y * 2 ^ (8 * l - ?k) + be_val ys' div 2 ^ ?k)
      \<longleftrightarrow> x = y \<and> be_val xs' div 2 ^ ?k = be_val ys' div 2 ^ ?k"
      by (simp add: nat_mult_add_unique [OF lt [OF xs(2)] lt [OF ys(2)]] word_unat_eq_iff)
    moreover have "map2 (AND) xs (cidr_mask_loop (Suc l) n) = map2 (AND) ys (cidr_mask_loop (Suc l) n) \<longleftrightarrow>
        x = y \<and> be_val xs' div 2 ^ ?k = be_val ys' div 2 ^ ?k"
      using True 2 xs ys by simp
    ultimately show ?thesis
      unfolding k xs(1) ys(1) dv [OF xs(2)] dv [OF ys(2)] by blast
  next
    case False
    have e: "8 * Suc l - n = (8 - n) + 8 * l" using False by simp
    have dv: "be_val (z # zs) div 2 ^ (8 * Suc l - n) = unat z div 2 ^ (8 - n)" if "length zs = l" for z zs
    proof -
      have "be_val zs < 256 ^ l" using be_val_bound [of zs] that by simp
      then have "be_val (z # zs) div 256 ^ l = unat z" using that by simp
      moreover have "(2 :: nat) ^ (8 * Suc l - n) = 256 ^ l * 2 ^ (8 - n)"
        unfolding e by (simp add: power_add power_mult)
      ultimately show ?thesis by (simp only: div_mult2_eq)
    qed
    show ?thesis
      using False 2 xs ys dv byte_and_mask_eq_iff [of n x y]
      by (simp add: and_cidr_mask_zero del: be_val.simps)
  qed
qed

section \<open>IPv4 addresses\<close>

text \<open>The 16-byte form of an IPv4 address, which is what \<open>ParseIP\<close> and \<open>ParseCIDR\<close> return.\<close>

definition is_v4 :: "ip \<Rightarrow> bool" where
  "is_v4 ip \<longleftrightarrow> length ip = 16 \<and> take 12 ip = v4InV6Prefix"

lemma length_v4InV6Prefix [simp]: "length v4InV6Prefix = 12"
  by (simp add: v4InV6Prefix_def)

lemma is_v4_prefix [simp]: "is_v4 (v4InV6Prefix @ q) \<longleftrightarrow> length q = 4"
  by (simp add: is_v4_def)

lemma is_v4E:
  assumes "is_v4 ip"
  obtains q where "ip = v4InV6Prefix @ q" "length q = 4"
proof
  show "ip = v4InV6Prefix @ drop 12 ip" "length (drop 12 ip) = 4"
    using assms append_take_drop_id [of 12 ip] by (auto simp: is_v4_def)
qed

lemma To4_v4 [simp]: "length q = 4 \<Longrightarrow> To4 (v4InV6Prefix @ q) = q"
  by (simp add: To4_def)

lemma To4_16: "length ip = 16 \<Longrightarrow> To4 ip \<noteq> [] \<longleftrightarrow> is_v4 ip"
  by (auto simp: To4_def is_v4_def)

lemma be_val_prefix: "be_val v4InV6Prefix = 65535"
  by (simp add: v4InV6Prefix_def)

lemma be_val_v4: "length q = 4 \<Longrightarrow> be_val (v4InV6Prefix @ q) = 65535 * 2 ^ 32 + be_val q"
  by (simp add: be_val_append be_val_prefix)

lemma is_v4_iff_be_val:
  assumes "length ip = 16"
  shows "is_v4 ip \<longleftrightarrow> be_val ip div 2 ^ 32 = 65535"
proof -
  have ip: "ip = take 12 ip @ drop 12 ip" by simp
  have l: "length (take 12 ip) = length v4InV6Prefix" "length (drop 12 ip) = 4"
    using assms by auto
  have "be_val ip = be_val (take 12 ip) * 2 ^ 32 + be_val (drop 12 ip)"
    using be_val_append [of "take 12 ip" "drop 12 ip"] l by simp
  moreover have "be_val (drop 12 ip) < 2 ^ 32"
    using be_val_bound [of "drop 12 ip"] l by simp
  ultimately have "be_val ip div 2 ^ 32 = be_val (take 12 ip)" by simp
  then have "be_val ip div 2 ^ 32 = 65535 \<longleftrightarrow> be_val (take 12 ip) = be_val v4InV6Prefix"
    by (simp add: be_val_prefix)
  also have "\<dots> \<longleftrightarrow> take 12 ip = v4InV6Prefix"
    by (rule be_val_inject [OF l(1)])
  finally show ?thesis using assms by (simp add: is_v4_def)
qed

subsection \<open>Networks written in CIDR notation\<close>

text \<open>The network that \<open>ParseCIDR\<close> builds from an IPv4 address and a prefix length.\<close>

definition v4_net :: "byte list \<Rightarrow> nat \<Rightarrow> IPNet" where
  "v4_net q n = \<lparr>net_IP = IP_Mask (v4InV6Prefix @ q) (CIDRMask n 32), net_Mask = CIDRMask n 32\<rparr>"

lemma length_CIDRMask32 [simp]: "n \<le> 32 \<Longrightarrow> length (CIDRMask n 32) = 4"
  by (simp add: CIDRMask_def)

lemma IP_Mask_v4:
  "length q = 4 \<Longrightarrow> n \<le> 32 \<Longrightarrow> IP_Mask (v4InV6Prefix @ q) (CIDRMask n 32) = map2 (AND) q (CIDRMask n 32)"
  by (simp add: IP_Mask_def)

lemma map2_and_idem: "length xs = length m \<Longrightarrow> map2 (AND) (map2 (AND) xs m) m = map2 (AND) xs (m :: byte list)"
  by (induction xs m rule: list_induct2) (simp_all add: and.assoc)

lemma Contains_v4_net:
  assumes "length q = 4" "n \<le> 32" "length x = 16"
  shows "Contains (v4_net q n) x \<longleftrightarrow>
         is_v4 x \<and> be_val (drop 12 x) div 2 ^ (32 - n) = be_val q div 2 ^ (32 - n)"
proof -
  let ?m = "CIDRMask n 32"
  have nn: "networkNumberAndMask (v4_net q n) = (map2 (AND) q ?m, ?m)"
    using assms by (auto simp: networkNumberAndMask_def v4_net_def IP_Mask_v4 To4_def Let_def)
  show ?thesis
  proof (cases "is_v4 x")
    case True
    then obtain r where x: "x = v4InV6Prefix @ r" "length r = 4" by (rule is_v4E)
    have "Contains (v4_net q n) x \<longleftrightarrow> map2 (AND) q ?m = map2 (AND) r ?m"
      using assms x by (auto simp: Contains_def nn map2_and_idem)
    also have "\<dots> \<longleftrightarrow> be_val q div 2 ^ (32 - n) = be_val r div 2 ^ (32 - n)"
      using assms x map2_mask_eq_iff [of q 4 r n] by (simp add: CIDRMask_def)
    finally show ?thesis using True x by auto
  next
    case False
    then have "To4 x = []" using To4_16 [OF assms(3)] by simp
    then have "\<not> Contains (v4_net q n) x"
      using assms by (simp add: Contains_def nn)
    with False show ?thesis by simp
  qed
qed

lemma parseIPv4_loop_shape:
  "parseIPv4_loop k p s = Some ip \<Longrightarrow> \<exists>q. ip = v4InV6Prefix @ q \<and> length q = length p + k"
proof (induction k p s rule: parseIPv4_loop.induct)
  case (1 p s)
  then show ?case by (auto split: if_splits)
next
  case (2 k p s)
  from "2.prems" obtain n c where
    "parseIPv4_loop k (p @ [word_of_nat n]) (drop c (if p \<noteq> [] then tl s else s)) = Some ip"
    "dtoi (if p \<noteq> [] then tl s else s) = (n, c, True)" "\<not> (s = [])" "\<not> (p \<noteq> [] \<and> hd s \<noteq> CHR ''.'')"
    "n \<le> 255"
    by (auto simp: Let_def split: if_splits prod.splits)
  with "2.IH" [OF _ _ refl] show ?case by fastforce
qed

lemma parseIPv4_shape: "parseIPv4 s = Some ip \<Longrightarrow> \<exists>q. ip = v4InV6Prefix @ q \<and> length q = 4"
  using parseIPv4_loop_shape [of 4 "[]" s ip] by (simp add: parseIPv4_def)

text \<open>What a successful \<open>ParseCIDR\<close> returns when the address is written in dotted form.\<close>

lemma ParseCIDR_v4:
  assumes "ParseCIDR s = Inr (ip, net)" "IndexByte s CHR ''/'' = Some i" "parseIPv4 (take i s) = Some ip'"
  shows "\<exists>q n. length q = 4 \<and> n \<le> 32 \<and> ip = v4InV6Prefix @ q \<and> net = v4_net q n"
proof -
  obtain q where q: "ip' = v4InV6Prefix @ q" "length q = 4"
    using parseIPv4_shape [OF assms(3)] by blast
  from assms q show ?thesis
    by (simp add: ParseCIDR_def Let_def v4_net_def split: if_splits prod.splits)
       (metis linorder_not_le)
qed

subsection \<open>Printing and parsing back\<close>

lemma digit_fold_ge: "n \<le> foldl (\<lambda>a c. a * 10 + digit_val c) n ds"
proof (induction ds arbitrary: n)
  case Nil
  then show ?case by simp
next
  case (Cons d ds)
  have "n \<le> n * 10 + digit_val d" by simp
  also have "\<dots> \<le> foldl (\<lambda>a c. a * 10 + digit_val c) (n * 10 + digit_val d) ds"
    by (rule Cons)
  finally show ?case by simp
qed

lemma dtoi_loop_digits:
  "list_all is_digit ds \<Longrightarrow> foldl (\<lambda>a c. a * 10 + digit_val c) n ds < big \<Longrightarrow>
   dtoi_loop (ds @ r) n i = dtoi_loop r (foldl (\<lambda>a c. a * 10 + digit_val c) n ds) (i + length ds)"
proof (induction ds arbitrary: n i)
  case Nil
  then show ?case by simp
next
  case (Cons d ds)
  have "n * 10 + digit_val d < big"
    using Cons.prems digit_fold_ge [of "n * 10 + digit_val d" ds] by simp
  with Cons show ?case by (simp add: Let_def)
qed

lemma dtoi_dec_digits:
  assumes "n < big" "r = [] \<or> \<not> is_digit (hd r)"
  shows "dtoi (dec_digits n @ r) = (n, length (dec_digits n), True)"
proof -
  have "foldl (\<lambda>a c. a * 10 + digit_val c) 0 (dec_digits n) = n"
    using dec_value_dec_digits [of n] by (simp add: dec_value_def)
  then have "dtoi (dec_digits n @ r) = dtoi_loop r n (length (dec_digits n))"
    using dtoi_loop_digits [OF dec_digits_are_digits [of n], of 0 r 0] assms by (simp add: dtoi_def)
  then show ?thesis using assms by (cases r) auto
qed

lemma dtoi_dec_digits_end: "n < big \<Longrightarrow> dtoi (dec_digits n) = (n, length (dec_digits n), True)"
  using dtoi_dec_digits [of n "[]"] by simp

lemma not_is_digit_dot [simp]: "\<not> is_digit CHR ''.''"
  by (simp add: is_digit_def)

lemma IP_String_v4:
  "length q = 4 \<Longrightarrow> IP_String (v4InV6Prefix @ q) = Join (map (\<lambda>b. dec_digits (unat b)) q) ''.''"
  by (simp add: IP_String_def Let_def v4InV6Prefix_def To4_def)

lemma byte_small: "unat (b :: byte) < big" "unat b \<le> 255"
  using byte_unat_lt [of b] unfolding big_def by linarith+

lemma parseIPv4_loop_step:
  assumes "p \<noteq> []"  "r = [] \<or> hd r = CHR ''.''"
  shows "parseIPv4_loop (Suc k) p (CHR ''.'' # dec_digits (unat (b :: byte)) @ r) = parseIPv4_loop k (p @ [b]) r"
proof -
  show ?thesis
    using assms byte_small [of b] by (auto simp: dtoi_dec_digits dtoi_dec_digits_end)
qed

lemma parseIPv4_IP_String:
  assumes "length q = 4"
  shows "parseIPv4 (IP_String (v4InV6Prefix @ q)) = Some (v4InV6Prefix @ q)"
proof -
  obtain a b c d where q: "q = [a, b, c, d]"
    using assms by (auto simp: numeral_eq_Suc length_Suc_conv)
  let ?s = "dec_digits (unat b) @ CHR ''.'' # dec_digits (unat c) @ CHR ''.'' # dec_digits (unat d)"
  have a: "unat a < big" "unat a \<le> 255" by (rule byte_small)+
  have four: "(4 :: nat) = Suc (Suc (Suc (Suc 0)))" by simp
  have "parseIPv4 (IP_String (v4InV6Prefix @ q)) = parseIPv4_loop (Suc (Suc (Suc 0))) [a] (CHR ''.'' # ?s)"
    unfolding parseIPv4_def four using a q by (simp add: IP_String_v4 dtoi_dec_digits)
  also have "\<dots> = Some (v4InV6Prefix @ q)"
    using parseIPv4_loop_step [of "[a, b, c]" "[]" 0 d] q by (simp add: parseIPv4_loop_step del: parseIPv4_loop.simps(2))
  finally show ?thesis .
qed

lemma IP_String_v4_inj:
  "is_v4 x \<Longrightarrow> is_v4 y \<Longrightarrow> IP_String x = IP_String y \<Longrightarrow> x = y"
  by (metis is_v4E parseIPv4_IP_String option.inject)

end
