(* ===== verification/IPPool.thy ===== *)
theory IPPool
  imports GoNet
begin

text \<open>
  \<open>controller/ipPool.go\<close>: the pool of addresses that bridges and silos are given, and the record
  of an \<open>IPInterface\<close> (\<open>controller/interfaces.go\<close>) that the pool builds. Every method of the pool
  runs under the pool's mutex, so it is one state transformer. The theory shows that the pool is
  a counter with a free list on the numbers the addresses denote, that it never hands out an
  address twice while it is in use, and how it ends.
\<close>

unbundle bit_operations_syntax

section \<open>The program\<close>

record IPPool =
  Subnet :: IPNet
  lastFromPool :: ip
  pool_free :: "ip list"

text \<open>
  The interface record. \<open>Freeer\<close> is the pool the slice goes back to, or nil: the only
  implementation of \<open>addressFreeer\<close> is the pool, and a server has one, so it is a flag.
  \<open>ipt\<close> says whether the \<open>iptables\<close> handle has been made.
\<close>

record IPInterface =
  isSetup :: bool
  BridgeIP :: ip
  BridgeMask :: ipmask
  SiloIP :: ip
  SiloMask :: ipmask
  bridgeName :: string
  hostVeth :: string
  siloVeth :: string
  InternetAccess :: bool
  Slice :: "ip list"
  Freeer :: bool
  ipt :: bool

definition NewIPPool :: "string \<Rightarrow> IPPool result" where
  "NewIPPool address =
     bindR (ParseCIDR address)
       (\<lambda>(ip, net). Inr \<lparr>Subnet = net, lastFromPool = ip, pool_free = []\<rparr>)"

definition FreeAssignment :: "ip list \<Rightarrow> IPPool \<Rightarrow> IPPool" where
  "FreeAssignment ip p = p\<lparr>pool_free := pool_free p @ ip\<rparr>"

text \<open>The loop \<open>for i := len(next) - 1; i >= 0; i--\<close>, with \<open>i + 1\<close> as the counter.\<close>

fun next_loop :: "nat \<Rightarrow> ip \<Rightarrow> ip" where
  "next_loop 0 next = next"
| "next_loop (Suc i) next =
     (let next' = next[i := next ! i + 1]
      in if next' ! i \<noteq> 0 then next' else next_loop i next')"

definition getNextFromPool :: "IPPool \<Rightarrow> ip result \<times> IPPool" where
  "getNextFromPool p =
     (let ip = lastFromPool p;
          next = next_loop (length (lastFromPool p)) (lastFromPool p);
          p' = p\<lparr>lastFromPool := next\<rparr>
      in if \<not> Contains (Subnet p') next then (Inl (ErrNew ''pool exhausted''), p')
         else (Inr ip, p'))"

definition Assignment :: "IPPool \<Rightarrow> ip result \<times> IPPool" where
  "Assignment p =
     (case pool_free p of
        f # fs \<Rightarrow> (Inr f, p\<lparr>pool_free := fs\<rparr>)
      | [] \<Rightarrow> getNextFromPool p)"

definition mask30 :: ipmask where
  "mask30 = [255, 255, 255, 252]"

text \<open>
  \<open>IPPool.IPInterface\<close>: four assignments. Only a failure of the second one gives back what was
  taken; after a failure of the third or fourth the addresses taken so far are dropped.
\<close>

definition pool_IPInterface :: "IPPool \<Rightarrow> IPInterface result \<times> IPPool" where
  "pool_IPInterface p =
     (case Assignment p of
        (Inl e, p1) \<Rightarrow> (Inl e, p1)
      | (Inr bridgeIP, p1) \<Rightarrow>
        (case Assignment p1 of
           (Inl e, p2) \<Rightarrow> (Inl e, FreeAssignment [bridgeIP] p2)
         | (Inr siloIP, p2) \<Rightarrow>
           (case Assignment p2 of
              (Inl e, p3) \<Rightarrow> (Inl e, p3)
            | (Inr unused1, p3) \<Rightarrow>
              (case Assignment p3 of
                 (Inl e, p4) \<Rightarrow> (Inl e, p4)
               | (Inr unused2, p4) \<Rightarrow>
                 (Inr \<lparr>isSetup = False, BridgeIP = bridgeIP, BridgeMask = mask30,
                       SiloIP = siloIP, SiloMask = mask30,
                       bridgeName = [], hostVeth = [], siloVeth = [],
                       InternetAccess = False,
                       Slice = [bridgeIP, siloIP, unused1, unused2],
                       Freeer = True, ipt = False\<rparr>, p4)))))"

definition unicastMask :: "ip \<Rightarrow> ipmask" where
  "unicastMask ip = (if To4 ip \<noteq> [] then replicate 4 255 else replicate 16 255)"

lemmas pool_defs = NewIPPool_def FreeAssignment_def getNextFromPool_def Assignment_def pool_IPInterface_def

section \<open>The increment loop\<close>

lemma length_next_loop [simp]: "length (next_loop i xs) = length xs"
  by (induction i xs rule: next_loop.induct) (simp add: Let_def)+

lemma next_loop_append: "i \<le> length xs \<Longrightarrow> next_loop i (xs @ ys) = next_loop i xs @ ys"
  by (induction i xs rule: next_loop.induct) (auto simp: Let_def nth_append list_update_append)

lemma next_loop_snoc:
  "next_loop (length (xs @ [b])) (xs @ [b]) =
     (if b + 1 = 0 then next_loop (length xs) xs @ [0] else xs @ [b + 1])"
  using next_loop_append [of "length xs" xs "[0]"] by (simp add: Let_def)

text \<open>On the numbers the bytes denote the loop adds one, modulo the width.\<close>

lemma be_val_next_loop: "be_val (next_loop (length xs) xs) = (be_val xs + 1) mod 256 ^ length xs"
proof (induction xs rule: rev_induct)
  case Nil
  then show ?case by simp
next
  case (snoc b xs)
  let ?N = "256 ^ length xs :: nat"
  show ?case
  proof (cases "b + 1 = 0")
    case True
    then have "b = - 1" by (simp add: eq_neg_iff_add_eq_0)
    moreover have "unat (- 1 :: byte) = 255" by code_simp
    ultimately have "unat b = 255" by simp
    have "be_val (next_loop (length (xs @ [b])) (xs @ [b])) = ((be_val xs + 1) mod ?N) * 256"
      using True snoc by (simp only: next_loop_snoc if_True be_val_snoc) simp
    also have "\<dots> = ((be_val xs + 1) * 256) mod (?N * 256)"
      by (simp only: mod_mult_mult2)
    finally show ?thesis using \<open>unat b = 255\<close> by (simp add: algebra_simps)
  next
    case False
    then have b: "unat (b + 1) = unat b + 1" using unatSuc [of b] by (simp add: add.commute)
    then have "be_val (xs @ [b]) + 1 < 256 ^ length (xs @ [b])"
      using be_val_bound [of "xs @ [b + 1]"] by simp
    then show ?thesis
      using False b next_loop_snoc [of xs b] by simp
  qed
qed

section \<open>The pool as a counter\<close>

text \<open>
  What the pool promises, on numbers: a counter and a free list. \<open>blk\<close> is the size of the
  subnet as a power of two and \<open>base\<close> any address of it; the counter lives modulo \<open>2 ^ 128\<close>.
\<close>

record counter_pool =
  cp_next :: nat
  cp_free :: "nat list"

definition cp_assign :: "nat \<Rightarrow> nat \<Rightarrow> counter_pool \<Rightarrow> nat option \<times> counter_pool" where
  "cp_assign blk base c =
     (case cp_free c of
        f # fs \<Rightarrow> (Some f, c\<lparr>cp_free := fs\<rparr>)
      | [] \<Rightarrow> let n = (cp_next c + 1) mod 2 ^ 128
              in (if n div blk = base div blk then Some (cp_next c) else None, c\<lparr>cp_next := n\<rparr>))"

definition cp_release :: "nat list \<Rightarrow> counter_pool \<Rightarrow> counter_pool" where
  "cp_release xs c = c\<lparr>cp_free := cp_free c @ xs\<rparr>"

definition abs_pool :: "IPPool \<Rightarrow> counter_pool" where
  "abs_pool p = \<lparr>cp_next = be_val (lastFromPool p), cp_free = map be_val (pool_free p)\<rparr>"

definition abs_assigned :: "ip result \<Rightarrow> nat option" where
  "abs_assigned r = (case r of Inl _ \<Rightarrow> None | Inr ip \<Rightarrow> Some (be_val ip))"

text \<open>An IPv4 pool: what \<open>NewIPPool\<close> makes of an address \<open>q\<close> and a prefix length \<open>n\<close>.\<close>

definition v4_pool :: "byte list \<Rightarrow> nat \<Rightarrow> IPPool \<Rightarrow> bool" where
  "v4_pool q n p \<longleftrightarrow> length q = 4 \<and> n \<le> 32 \<and> Subnet p = v4_net q n \<and>
     length (lastFromPool p) = 16 \<and> list_all (\<lambda>x. length x = 16) (pool_free p)"

abbreviation v4_addr :: "byte list \<Rightarrow> nat" where
  "v4_addr q \<equiv> 65535 * 2 ^ 32 + be_val q"

lemma Contains_v4_div:
  assumes "length q = 4" "n \<le> 32" "length x = 16"
  shows "Contains (v4_net q n) x \<longleftrightarrow> be_val x div 2 ^ (32 - n) = v4_addr q div 2 ^ (32 - n)"
proof -
  let ?B = "2 ^ (32 - n) :: nat"
  have B: "(2 :: nat) ^ 32 = 2 ^ n * ?B" using assms(2) by (simp add: power_add [symmetric])
  have x: "be_val x = be_val (take 12 x) * 2 ^ 32 + be_val (drop 12 x)"
    using be_val_append [of "take 12 x" "drop 12 x"] assms by simp
  have dx: "be_val x div ?B = be_val (take 12 x) * 2 ^ n + be_val (drop 12 x) div ?B"
    unfolding x B by (simp add: mult.assoc [symmetric])
  have dq: "v4_addr q div ?B = 65535 * 2 ^ n + be_val q div ?B"
    unfolding B by (simp add: mult.assoc [symmetric])
  have lt: "be_val y div ?B < 2 ^ n" if "length y = 4" for y
    using be_val_bound [of y] that B by (simp add: less_mult_imp_div_less)
  have "be_val x div ?B = v4_addr q div ?B \<longleftrightarrow>
        be_val (take 12 x) = 65535 \<and> be_val (drop 12 x) div ?B = be_val q div ?B"
    unfolding dx dq using lt [of "drop 12 x"] lt [of q] assms by (simp add: nat_mult_add_unique)
  moreover have "be_val (take 12 x) = 65535 \<longleftrightarrow> is_v4 x"
    using assms be_val_inject [of "take 12 x" v4InV6Prefix] by (simp add: is_v4_def be_val_prefix)
  ultimately show ?thesis using Contains_v4_net [OF assms] by simp
qed

lemma be_val_16_bound: "length x = 16 \<Longrightarrow> be_val x < 2 ^ 128"
  using be_val_bound [of x] by simp

lemma be_val_next_16:
  "length x = 16 \<Longrightarrow> be_val (next_loop (length x) x) = (be_val x + 1) mod 2 ^ 128"
  using be_val_next_loop [of x] by simp

lemma v4_pool_Assignment: "v4_pool q n p \<Longrightarrow> v4_pool q n (snd (Assignment p))"
  by (auto simp: v4_pool_def Assignment_def getNextFromPool_def Let_def split: list.splits)

lemma v4_pool_FreeAssignment:
  "v4_pool q n p \<Longrightarrow> list_all (\<lambda>x. length x = 16) xs \<Longrightarrow> v4_pool q n (FreeAssignment xs p)"
  by (auto simp: v4_pool_def FreeAssignment_def)

lemma Assignment_refines:
  assumes "v4_pool q n p"
  shows "(abs_assigned (fst (Assignment p)), abs_pool (snd (Assignment p))) =
         cp_assign (2 ^ (32 - n)) (v4_addr q) (abs_pool p)"
proof (cases "pool_free p")
  case Nil
  let ?x = "next_loop (length (lastFromPool p)) (lastFromPool p)"
  have len: "length (lastFromPool p) = 16" and v: "length q = 4" "n \<le> 32" and net: "Subnet p = v4_net q n"
    using assms by (auto simp: v4_pool_def)
  have "Contains (v4_net q n) ?x \<longleftrightarrow>
        ((be_val (lastFromPool p) + 1) mod 2 ^ 128) div 2 ^ (32 - n) = v4_addr q div 2 ^ (32 - n)"
    using Contains_v4_div [OF v, of ?x] be_val_next_16 [OF len] len by simp
  with Nil show ?thesis
    by (simp add: Assignment_def getNextFromPool_def cp_assign_def abs_pool_def abs_assigned_def
        Let_def net be_val_next_16 [OF len])
next
  case (Cons f fs)
  then show ?thesis
    by (simp add: Assignment_def cp_assign_def abs_pool_def abs_assigned_def)
qed

lemma FreeAssignment_refines: "abs_pool (FreeAssignment xs p) = cp_release (map be_val xs) (abs_pool p)"
  by (simp add: abs_pool_def FreeAssignment_def cp_release_def)

section \<open>The contract with the clients: no address is in use twice\<close>

text \<open>
  What the callers of a pool rely on. \<open>inv b p out\<close> reads: the pool \<open>p\<close> can serve \<open>b\<close> more
  requests before its counter could wrap around, and the addresses of \<open>out\<close> are the ones in
  use. A request gives a good address that is not in use, a failed one changes nothing for the
  users, and addresses in use may be given back, once each.
\<close>

locale address_allocator =
  fixes assign :: "'p \<Rightarrow> 'a result \<times> 'p"
    and release :: "'a list \<Rightarrow> 'p \<Rightarrow> 'p"
    and inv :: "nat \<Rightarrow> 'p \<Rightarrow> 'a set \<Rightarrow> bool"
    and good :: "'a \<Rightarrow> bool"
  assumes assign_Inr: "inv (Suc b) p out \<Longrightarrow> assign p = (Inr a, p') \<Longrightarrow>
      a \<notin> out \<and> good a \<and> inv b p' (insert a out)"
    and assign_Inl: "inv (Suc b) p out \<Longrightarrow> assign p = (Inl e, p') \<Longrightarrow> inv b p' out"
    and release_inv: "inv b p out \<Longrightarrow> set xs \<subseteq> out \<Longrightarrow> distinct xs \<Longrightarrow>
      inv b (release xs p) (out - set xs)"
    and inv_antimono: "inv (Suc b) p out \<Longrightarrow> inv b p out"
begin

lemma inv_le: "inv b p out \<Longrightarrow> b' \<le> b \<Longrightarrow> inv b' p out"
  by (induction b) (auto simp: le_Suc_eq intro: inv_antimono)

text \<open>Two requests in a row, where the second one fails and the first address is given back.\<close>

lemma assign_assign_release:
  assumes "inv (Suc (Suc b)) p out" "assign p = (Inr a, p1)" "assign p1 = (Inl e, p2)"
  shows "inv b (release [a] p2) out"
proof -
  have a: "a \<notin> out" "inv (Suc b) p1 (insert a out)"
    using assign_Inr [OF assms(1,2)] by auto
  have "inv b p2 (insert a out)" using assign_Inl [OF a(2) assms(3)] .
  then have "inv b (release [a] p2) (insert a out - set [a])"
    by (rule release_inv) auto
  with a show ?thesis by simp
qed

text \<open>Four requests in a row, as \<open>IPPool.IPInterface\<close> makes them.\<close>

lemma assign_four:
  assumes "inv (Suc (Suc (Suc (Suc b)))) p out"
    and "assign p = (Inr a1, p1)" "assign p1 = (Inr a2, p2)"
    and "assign p2 = (Inr a3, p3)" "assign p3 = (Inr a4, p4)"
  shows "distinct [a1, a2, a3, a4] \<and> set [a1, a2, a3, a4] \<inter> out = {} \<and>
    list_all good [a1, a2, a3, a4] \<and> inv b p4 (set [a1, a2, a3, a4] \<union> out)"
proof -
  note s1 = assign_Inr [OF assms(1,2)]
  note s2 = assign_Inr [OF s1 [THEN conjunct2, THEN conjunct2] assms(3)]
  note s3 = assign_Inr [OF s2 [THEN conjunct2, THEN conjunct2] assms(4)]
  note s4 = assign_Inr [OF s3 [THEN conjunct2, THEN conjunct2] assms(5)]
  have "inv b p4 (insert a4 (insert a3 (insert a2 (insert a1 out))))" using s4 by blast
  moreover have "insert a4 (insert a3 (insert a2 (insert a1 out))) = set [a1, a2, a3, a4] \<union> out" by auto
  ultimately have "inv b p4 (set [a1, a2, a3, a4] \<union> out)" by simp
  with s1 s2 s3 s4 show ?thesis by auto
qed

text \<open>A failure at the third or fourth request keeps the addresses taken so far in use.\<close>

lemma assign_three_fail:
  assumes "inv (Suc (Suc (Suc b))) p out"
    and "assign p = (Inr a1, p1)" "assign p1 = (Inr a2, p2)" "assign p2 = (Inl e, p3)"
  shows "a1 \<noteq> a2 \<and> {a1, a2} \<inter> out = {} \<and> inv b p3 ({a1, a2} \<union> out)"
proof -
  note s1 = assign_Inr [OF assms(1,2)]
  note s2 = assign_Inr [OF s1 [THEN conjunct2, THEN conjunct2] assms(3)]
  note s3 = assign_Inl [OF s2 [THEN conjunct2, THEN conjunct2] assms(4)]
  have "insert a2 (insert a1 out) = {a1, a2} \<union> out" by auto
  with s1 s2 s3 show ?thesis by auto
qed

lemma assign_four_fail:
  assumes "inv (Suc (Suc (Suc (Suc b)))) p out"
    and "assign p = (Inr a1, p1)" "assign p1 = (Inr a2, p2)" "assign p2 = (Inr a3, p3)"
    and "assign p3 = (Inl e, p4)"
  shows "distinct [a1, a2, a3] \<and> {a1, a2, a3} \<inter> out = {} \<and> inv b p4 ({a1, a2, a3} \<union> out)"
proof -
  note s1 = assign_Inr [OF assms(1,2)]
  note s2 = assign_Inr [OF s1 [THEN conjunct2, THEN conjunct2] assms(3)]
  note s3 = assign_Inr [OF s2 [THEN conjunct2, THEN conjunct2] assms(4)]
  note s4 = assign_Inl [OF s3 [THEN conjunct2, THEN conjunct2] assms(5)]
  have "insert a3 (insert a2 (insert a1 out)) = {a1, a2, a3} \<union> out" by auto
  with s1 s2 s3 s4 show ?thesis by auto
qed

end

text \<open>
  The invariant of an IPv4 pool started at \<open>q\<close> with prefix length \<open>n\<close>: addresses in use and
  addresses on the free list are disjoint, lie between the first address and the counter, and
  belong to the subnet.
\<close>

definition pool_addr_ok :: "byte list \<Rightarrow> nat \<Rightarrow> IPPool \<Rightarrow> ip \<Rightarrow> bool" where
  "pool_addr_ok q n p x \<longleftrightarrow> length x = 16 \<and> v4_addr q \<le> be_val x \<and>
     be_val x < be_val (lastFromPool p) \<and> Contains (v4_net q n) x"

definition pool_inv :: "byte list \<Rightarrow> nat \<Rightarrow> nat \<Rightarrow> IPPool \<Rightarrow> ip set \<Rightarrow> bool" where
  "pool_inv q n b p out \<longleftrightarrow> v4_pool q n p \<and>
     v4_addr q \<le> be_val (lastFromPool p) \<and> be_val (lastFromPool p) + b < 2 ^ 128 \<and>
     distinct (pool_free p) \<and> set (pool_free p) \<inter> out = {} \<and>
     (\<forall>x \<in> out \<union> set (pool_free p). pool_addr_ok q n p x)"

lemma pool_next:
  assumes "pool_inv q n (Suc b) p out"
  shows "be_val (next_loop (length (lastFromPool p)) (lastFromPool p)) = be_val (lastFromPool p) + 1"
proof -
  have len: "length (lastFromPool p) = 16" and b: "be_val (lastFromPool p) + 1 < 2 ^ 128"
    using assms by (auto simp: pool_inv_def v4_pool_def)
  show ?thesis by (simp only: be_val_next_16 [OF len] mod_less [OF b])
qed

text \<open>The subnet is an interval, so an address between two of its addresses belongs to it.\<close>

lemma Contains_between:
  assumes "length q = 4" "n \<le> 32" "length x = 16" "length y = 16"
    and "v4_addr q \<le> be_val x" "be_val x \<le> be_val y" "Contains (v4_net q n) y"
  shows "Contains (v4_net q n) x"
proof -
  have "v4_addr q div 2 ^ (32 - n) \<le> be_val x div 2 ^ (32 - n)"
    "be_val x div 2 ^ (32 - n) \<le> be_val y div 2 ^ (32 - n)"
    using assms(5,6) by (auto intro: div_le_mono)
  with assms show ?thesis by (simp add: Contains_v4_div)
qed

lemma pool_assign_Inr:
  assumes inv: "pool_inv q n (Suc b) p out" and a: "Assignment p = (Inr a, p')"
  shows "a \<notin> out \<and> is_v4 a \<and> pool_inv q n b p' (insert a out)"
proof (cases "pool_free p")
  case (Cons f fs)
  then have eq: "a = f" "p' = p\<lparr>pool_free := fs\<rparr>" using a by (auto simp: Assignment_def)
  have ok: "pool_addr_ok q n p f" using inv Cons by (simp add: pool_inv_def)
  then have "is_v4 f"
    using inv Contains_v4_net [of q n f] by (simp add: pool_addr_ok_def pool_inv_def v4_pool_def)
  with inv Cons show ?thesis
    unfolding eq by (auto simp: pool_inv_def pool_addr_ok_def v4_pool_def)
next
  case Nil
  let ?x = "next_loop (length (lastFromPool p)) (lastFromPool p)"
  have v: "length q = 4" "n \<le> 32" "Subnet p = v4_net q n" "length (lastFromPool p) = 16"
    using inv by (auto simp: pool_inv_def v4_pool_def)
  have eq: "a = lastFromPool p" "p' = p\<lparr>lastFromPool := ?x\<rparr>" and c: "Contains (v4_net q n) ?x"
    using a Nil v by (auto simp: Assignment_def getNextFromPool_def Let_def split: if_splits)
  have nx: "be_val ?x = be_val (lastFromPool p) + 1" by (rule pool_next [OF inv])
  have le: "v4_addr q \<le> be_val (lastFromPool p)" using inv by (simp add: pool_inv_def)
  have ca: "Contains (v4_net q n) (lastFromPool p)"
    by (rule Contains_between [OF v(1,2) v(4) _ le _ c]) (use v nx in simp_all)
  have "is_v4 (lastFromPool p)" using ca Contains_v4_net [OF v(1,2,4)] by simp
  with inv ca v nx le show ?thesis
    unfolding eq by (auto simp: pool_inv_def v4_pool_def pool_addr_ok_def Nil)
qed

lemma pool_assign_Inl:
  assumes inv: "pool_inv q n (Suc b) p out" and a: "Assignment p = (Inl e, p')"
  shows "pool_inv q n b p' out"
proof -
  let ?x = "next_loop (length (lastFromPool p)) (lastFromPool p)"
  have eq: "p' = p\<lparr>lastFromPool := ?x\<rparr>"
    using a by (auto simp: Assignment_def getNextFromPool_def Let_def split: list.splits if_splits)
  have "be_val ?x = be_val (lastFromPool p) + 1" by (rule pool_next [OF inv])
  with inv show ?thesis
    unfolding eq by (auto simp: pool_inv_def v4_pool_def pool_addr_ok_def intro: less_SucI)
qed

lemma pool_release_inv:
  assumes "pool_inv q n b p out" "set xs \<subseteq> out" "distinct xs"
  shows "pool_inv q n b (FreeAssignment xs p) (out - set xs)"
  using assms by (auto simp: pool_inv_def v4_pool_def FreeAssignment_def pool_addr_ok_def list_all_iff)

interpretation ipp: address_allocator Assignment FreeAssignment "pool_inv q n" is_v4
proof unfold_locales
  show "pool_inv q n (Suc b) p out \<Longrightarrow> pool_inv q n b p out" for b p out
    by (auto simp: pool_inv_def)
qed (fact pool_assign_Inr pool_assign_Inl pool_release_inv)+

text \<open>A fresh pool satisfies the invariant, with room for \<open>2 ^ 127\<close> requests.\<close>

lemma NewIPPool_inv:
  assumes "ParseCIDR s = Inr (v4InV6Prefix @ q, v4_net q n)" "length q = 4" "n \<le> 32"
    and "NewIPPool s = Inr p"
  shows "pool_inv q n (2 ^ 127) p {} \<and> v4_pool q n p \<and> lastFromPool p = v4InV6Prefix @ q \<and> pool_free p = []"
proof -
  have p: "p = \<lparr>Subnet = v4_net q n, lastFromPool = v4InV6Prefix @ q, pool_free = []\<rparr>"
    using assms by (simp add: NewIPPool_def)
  have "be_val q < 2 ^ 32" using be_val_bound [of q] assms by simp
  then have "65535 * 2 ^ 32 + be_val q + 2 ^ 127 < (2 :: nat) ^ 128" by simp
  then show ?thesis
    using assms by (simp add: p pool_inv_def v4_pool_def be_val_v4)
qed

section \<open>Interfaces built from the pool\<close>

text \<open>A successful \<open>IPPool.IPInterface\<close> is four assignments in a row.\<close>

lemma pool_IPInterface_Inr:
  "pool_IPInterface p = (Inr i, p') \<longleftrightarrow>
   (\<exists>a1 p1 a2 p2 a3 p3 a4. Assignment p = (Inr a1, p1) \<and> Assignment p1 = (Inr a2, p2) \<and>
      Assignment p2 = (Inr a3, p3) \<and> Assignment p3 = (Inr a4, p') \<and>
      i = \<lparr>isSetup = False, BridgeIP = a1, BridgeMask = mask30, SiloIP = a2, SiloMask = mask30,
           bridgeName = [], hostVeth = [], siloVeth = [], InternetAccess = False,
           Slice = [a1, a2, a3, a4], Freeer = True, ipt = False\<rparr>)"
  by (auto simp: pool_IPInterface_def split: prod.splits sum.splits)

lemma pool_IPInterface_fields:
  "pool_IPInterface p = (Inr i, p') \<Longrightarrow>
   \<not> isSetup i \<and> Freeer i \<and> \<not> ipt i \<and> bridgeName i = [] \<and> \<not> InternetAccess i \<and>
   BridgeMask i = mask30 \<and> SiloMask i = mask30 \<and>
   (\<exists>u1 u2. Slice i = [BridgeIP i, SiloIP i, u1, u2])"
  by (auto simp: pool_IPInterface_Inr)

lemma pool_IPInterface_ok:
  assumes "pool_inv q n (Suc (Suc (Suc (Suc b)))) p out" "pool_IPInterface p = (Inr i, p')"
  shows "distinct (Slice i) \<and> set (Slice i) \<inter> out = {} \<and> list_all is_v4 (Slice i) \<and>
    length (Slice i) = 4 \<and> pool_inv q n b p' (set (Slice i) \<union> out)"
proof -
  obtain a1 p1 a2 p2 a3 p3 a4 where
    a: "Assignment p = (Inr a1, p1)" "Assignment p1 = (Inr a2, p2)"
       "Assignment p2 = (Inr a3, p3)" "Assignment p3 = (Inr a4, p')" and s: "Slice i = [a1, a2, a3, a4]"
    using assms(2) by (auto simp: pool_IPInterface_Inr)
  show ?thesis using ipp.assign_four [OF assms(1) a] unfolding s by simp
qed

text \<open>
  A failed one leaves the users as they are, but for the addresses it took and dropped
  (at most three).
\<close>

lemma pool_IPInterface_fail:
  assumes inv: "pool_inv q n (Suc (Suc (Suc (Suc b)))) p out" and f: "pool_IPInterface p = (Inl e, p')"
  shows "\<exists>lost. finite lost \<and> card lost \<le> 3 \<and> lost \<inter> out = {} \<and> pool_inv q n b p' (lost \<union> out)"
proof -
  have w: "pool_inv q n (Suc b) p out" "pool_inv q n (Suc (Suc b)) p out" "pool_inv q n (Suc (Suc (Suc b))) p out"
    using inv by (auto intro: ipp.inv_le)
  consider (one) "Assignment p = (Inl e, p')"
    | (two) a1 p1 p2 where "Assignment p = (Inr a1, p1)" "Assignment p1 = (Inl e, p2)" "p' = FreeAssignment [a1] p2"
    | (three) a1 p1 a2 p2 where "Assignment p = (Inr a1, p1)" "Assignment p1 = (Inr a2, p2)" "Assignment p2 = (Inl e, p')"
    | (four) a1 p1 a2 p2 a3 p3 where "Assignment p = (Inr a1, p1)" "Assignment p1 = (Inr a2, p2)"
        "Assignment p2 = (Inr a3, p3)" "Assignment p3 = (Inl e, p')"
    using f by (auto simp: pool_IPInterface_def split: prod.splits sum.splits)
  then show ?thesis
  proof cases
    case one
    then show ?thesis
      using ipp.assign_Inl [OF w(1)] by (intro exI [of _ "{}"]) auto
  next
    case two
    then show ?thesis
      using ipp.assign_assign_release [OF w(2)] by (intro exI [of _ "{}"]) auto
  next
    case three
    then show ?thesis
      using ipp.assign_three_fail [OF w(3) three] by (intro exI [of _ "{a1, a2}"]) (simp add: card_insert_if)
  next
    case four
    have "card {a1, a2, a3} \<le> 3" by (simp add: card_insert_if)
    then show ?thesis
      using ipp.assign_four_fail [OF inv four] by (intro exI [of _ "{a1, a2, a3}"]) simp
  qed
qed

subsection \<open>Runs of a pool\<close>

text \<open>
  The histories of a pool: single assignments, whole interfaces, and addresses in use given
  back. \<open>out\<close> lists the addresses in use, \<open>k\<close> counts the assignments asked for.
\<close>

inductive pool_run :: "IPPool \<Rightarrow> nat \<Rightarrow> IPPool \<Rightarrow> ip list \<Rightarrow> bool" for p0 where
  start: "pool_run p0 0 p0 []"
| assign: "pool_run p0 k p out \<Longrightarrow> Assignment p = (Inr a, p') \<Longrightarrow> pool_run p0 (k + 1) p' (a # out)"
| assign_fail: "pool_run p0 k p out \<Longrightarrow> Assignment p = (Inl e, p') \<Longrightarrow> pool_run p0 (k + 1) p' out"
| iface: "pool_run p0 k p out \<Longrightarrow> pool_IPInterface p = (Inr i, p') \<Longrightarrow> pool_run p0 (k + 4) p' (Slice i @ out)"
| iface_fail: "pool_run p0 k p out \<Longrightarrow> pool_IPInterface p = (Inl e, p') \<Longrightarrow> pool_run p0 (k + 4) p' out"
| release: "pool_run p0 k p out \<Longrightarrow> set xs \<subseteq> set out \<Longrightarrow> distinct xs \<Longrightarrow>
     pool_run p0 k (FreeAssignment xs p) (filter (\<lambda>x. x \<notin> set xs) out)"

text \<open>
  Along every run the addresses in use are different from each other and from the free ones,
  belong to the subnet, and the invariant holds for them together with some lost addresses.
\<close>

lemma pool_run_inv:
  assumes "pool_run p0 k p out" "pool_inv q n m p0 {}" "k \<le> m"
  shows "distinct out \<and> (\<exists>lost. set out \<inter> lost = {} \<and> pool_inv q n (m - k) p (set out \<union> lost))"
  using assms
proof (induction rule: pool_run.induct)
  case start
  then show ?case by auto
next
  case (assign k p out a p')
  then obtain lost where l: "distinct out" "set out \<inter> lost = {}" "pool_inv q n (m - k) p (set out \<union> lost)"
    by auto
  have "m - k = Suc (m - (k + 1))" using assign.prems by simp
  then have "a \<notin> set out \<union> lost \<and> pool_inv q n (m - (k + 1)) p' (insert a (set out \<union> lost))"
    using ipp.assign_Inr [of q n "m - (k + 1)" p "set out \<union> lost" a p'] l assign.hyps by simp
  then show ?case using l by (intro conjI exI [of _ lost]) auto
next
  case (assign_fail k p out e p')
  then obtain lost where l: "distinct out" "set out \<inter> lost = {}" "pool_inv q n (m - k) p (set out \<union> lost)"
    by auto
  have "m - k = Suc (m - (k + 1))" using assign_fail.prems by simp
  then have "pool_inv q n (m - (k + 1)) p' (set out \<union> lost)"
    using ipp.assign_Inl [of q n "m - (k + 1)" p "set out \<union> lost" e p'] l assign_fail.hyps by simp
  then show ?case using l by auto
next
  case (iface k p out i p')
  then obtain lost where l: "distinct out" "set out \<inter> lost = {}" "pool_inv q n (m - k) p (set out \<union> lost)"
    by auto
  have "m - k = Suc (Suc (Suc (Suc (m - (k + 4)))))" using iface.prems by simp
  then show ?case
    using pool_IPInterface_ok [of q n "m - (k + 4)" p "set out \<union> lost" i p'] l iface.hyps
    by (intro conjI exI [of _ lost]) (auto simp: Un_assoc)
next
  case (iface_fail k p out e p')
  then obtain lost where l: "distinct out" "set out \<inter> lost = {}" "pool_inv q n (m - k) p (set out \<union> lost)"
    by auto
  have "m - k = Suc (Suc (Suc (Suc (m - (k + 4)))))" using iface_fail.prems by simp
  then obtain lost' where "lost' \<inter> (set out \<union> lost) = {}" "pool_inv q n (m - (k + 4)) p' (lost' \<union> (set out \<union> lost))"
    using pool_IPInterface_fail [of q n "m - (k + 4)" p "set out \<union> lost" e p'] l iface_fail.hyps by auto
  then show ?case using l by (intro conjI exI [of _ "lost \<union> lost'"]) (auto simp: ac_simps)
next
  case (release k p out xs)
  then obtain lost where l: "distinct out" "set out \<inter> lost = {}" "pool_inv q n (m - k) p (set out \<union> lost)"
    by auto
  have "pool_inv q n (m - k) (FreeAssignment xs p) (set out \<union> lost - set xs)"
    by (rule ipp.release_inv [OF l(3)]) (use release.hyps in auto)
  moreover have "set out \<union> lost - set xs = set (filter (\<lambda>x. x \<notin> set xs) out) \<union> lost"
    using l(2) release.hyps by auto
  ultimately show ?case using l by (intro conjI exI [of _ lost]) auto
qed

subsection \<open>Interfaces on the counter, and their /30 blocks\<close>

definition cp_interface :: "nat \<Rightarrow> nat \<Rightarrow> counter_pool \<Rightarrow> nat list option \<times> counter_pool" where
  "cp_interface blk base c =
     (case cp_assign blk base c of
        (None, c1) \<Rightarrow> (None, c1)
      | (Some a, c1) \<Rightarrow>
        (case cp_assign blk base c1 of
           (None, c2) \<Rightarrow> (None, cp_release [a] c2)
         | (Some b, c2) \<Rightarrow>
           (case cp_assign blk base c2 of
              (None, c3) \<Rightarrow> (None, c3)
            | (Some u, c3) \<Rightarrow>
              (case cp_assign blk base c3 of
                 (None, c4) \<Rightarrow> (None, c4)
               | (Some v, c4) \<Rightarrow> (Some [a, b, u, v], c4)))))"

definition abs_slice :: "IPInterface result \<Rightarrow> nat list option" where
  "abs_slice r = (case r of Inl _ \<Rightarrow> None | Inr i \<Rightarrow> Some (map be_val (Slice i)))"

lemma Assignment_cases:
  assumes "v4_pool q n p"
  obtains e p' where "Assignment p = (Inl e, p')" "v4_pool q n p'"
      "cp_assign (2 ^ (32 - n)) (v4_addr q) (abs_pool p) = (None, abs_pool p')"
  | a p' where "Assignment p = (Inr a, p')" "v4_pool q n p'" "length a = 16"
      "cp_assign (2 ^ (32 - n)) (v4_addr q) (abs_pool p) = (Some (be_val a), abs_pool p')"
proof (cases "Assignment p")
  case (Pair r p')
  have len: "length a = 16" if "r = Inr a" for a
    using assms Pair that by (auto simp: v4_pool_def Assignment_def getNextFromPool_def Let_def split: list.splits if_splits)
  show ?thesis
    using Assignment_refines [OF assms] v4_pool_Assignment [OF assms] Pair that len
    by (cases r) (auto simp: abs_assigned_def)
qed

lemma pool_IPInterface_refines:
  assumes "v4_pool q n p"
  shows "(abs_slice (fst (pool_IPInterface p)), abs_pool (snd (pool_IPInterface p))) =
           cp_interface (2 ^ (32 - n)) (v4_addr q) (abs_pool p) \<and> v4_pool q n (snd (pool_IPInterface p))"
  using assms
proof (cases rule: Assignment_cases)
  case (1 e p')
  then show ?thesis by (simp add: pool_IPInterface_def cp_interface_def abs_slice_def)
next
  case one: (2 a p1)
  from one(2) show ?thesis
  proof (cases rule: Assignment_cases)
    case (1 e p')
    with one show ?thesis
      by (simp add: pool_IPInterface_def cp_interface_def abs_slice_def FreeAssignment_refines v4_pool_FreeAssignment)
  next
    case two: (2 b p2)
    from two(2) show ?thesis
    proof (cases rule: Assignment_cases)
      case (1 e p')
      with one two show ?thesis
        by (simp add: pool_IPInterface_def cp_interface_def abs_slice_def)
    next
      case three: (2 u p3)
      from three(2) show ?thesis
      proof (cases rule: Assignment_cases)
        case (1 e p')
        with one two three show ?thesis
          by (simp add: pool_IPInterface_def cp_interface_def abs_slice_def)
      next
        case (2 v p4)
        with one two three show ?thesis
          by (simp add: pool_IPInterface_def cp_interface_def abs_slice_def)
      qed
    qed
  qed
qed

text \<open>The four consecutive numbers of an interface.\<close>

definition block :: "nat \<Rightarrow> nat list" where
  "block x = [x, x + 1, x + 2, x + 3]"

text \<open>The last address of the subnet of \<open>base\<close>, where the subnet has \<open>blk\<close> addresses.\<close>

definition net_top :: "nat \<Rightarrow> nat \<Rightarrow> nat" where
  "net_top blk base = base div blk * blk + (blk - 1)"

definition cp_aligned :: "nat \<Rightarrow> counter_pool \<Rightarrow> bool" where
  "cp_aligned hi c \<longleftrightarrow>
     (\<exists>xs. cp_free c = concat (map block xs) \<and> (\<forall>x \<in> set xs. x mod 4 = 1)) \<and>
     (cp_next c mod 4 = 1 \<or> hi < cp_next c)"

lemma in_net_iff:
  assumes "base \<le> x" "0 < blk"
  shows "x div blk = base div blk \<longleftrightarrow> x \<le> net_top blk base"
proof -
  have "x div blk = base div blk \<longleftrightarrow> x div blk < Suc (base div blk)"
    using div_le_mono [OF assms(1), of blk] by linarith
  also have "\<dots> \<longleftrightarrow> x < Suc (base div blk) * blk"
    using assms(2) by (rule div_less_iff_less_mult)
  also have "\<dots> \<longleftrightarrow> x \<le> net_top blk base"
    using assms(2) by (auto simp: net_top_def)
  finally show ?thesis .
qed

lemma net_top_mod4: "4 dvd blk \<Longrightarrow> 0 < blk \<Longrightarrow> net_top blk base mod 4 = 3"
proof -
  assume "4 dvd blk" "0 < blk"
  then obtain k where k: "blk = 4 * k" "0 < k" by (auto elim: dvdE)
  then have "net_top blk base = 4 * (base div blk * k + (k - 1)) + 3"
    by (simp add: net_top_def algebra_simps)
  then obtain m where "net_top blk base = 4 * m + 3" by blast
  then show ?thesis by simp
qed

lemma cp_assign_fresh:
  assumes "cp_free c = []" "base \<le> cp_next c" "cp_next c + 1 < 2 ^ 128" "0 < blk"
  shows "cp_assign blk base c =
    (if cp_next c < net_top blk base then Some (cp_next c) else None, c\<lparr>cp_next := cp_next c + 1\<rparr>)"
proof -
  have "(cp_next c + 1) mod 2 ^ 128 = cp_next c + 1" using assms(3) by (rule mod_less)
  then show ?thesis
    using in_net_iff [of base "cp_next c + 1" blk] assms by (simp add: cp_assign_def Let_def Suc_le_eq del: One_nat_def)
qed

lemma cp_interface_fresh:
  assumes "cp_free c = []" "base \<le> cp_next c" "cp_next c + 4 < 2 ^ 128" "0 < blk"
  shows "cp_interface blk base c =
    (let l = cp_next c; t = net_top blk base
     in if t \<le> l then (None, c\<lparr>cp_next := l + 1\<rparr>)
        else if t \<le> l + 1 then (None, c\<lparr>cp_next := l + 2, cp_free := [l]\<rparr>)
        else if t \<le> l + 2 then (None, c\<lparr>cp_next := l + 3\<rparr>)
        else if t \<le> l + 3 then (None, c\<lparr>cp_next := l + 4\<rparr>)
        else (Some (block l), c\<lparr>cp_next := l + 4\<rparr>))"
  using assms by (simp add: cp_interface_def cp_assign_fresh Let_def block_def cp_release_def not_le)

lemma cp_interface_free:
  "cp_free c = block x @ ys \<Longrightarrow> cp_interface blk base c = (Some (block x), c\<lparr>cp_free := ys\<rparr>)"
  by (simp add: cp_interface_def cp_assign_def block_def)

text \<open>
  A pool that starts at an address of the form \<open>4 k + 1\<close>, in a subnet of at least four addresses,
  keeps whole blocks on its free list, whatever happens; so every interface is a block.
\<close>

lemma mod4_gap:
  fixes l t :: nat
  assumes "t mod 4 = 3" "l mod 4 = 1" "l < t"
  shows "t = l + 2 \<or> l + 4 < t"
proof -
  have "t = 4 * (t div 4) + 3" "l = 4 * (l div 4) + 1"
    using assms mult_div_mod_eq [of 4 t] mult_div_mod_eq [of 4 l] by simp_all
  then show ?thesis using assms(3) by (cases "t div 4 = l div 4") linarith+
qed

lemma cp_interface_aligned:
  assumes al: "cp_aligned (net_top blk base) c" and b: "base \<le> cp_next c" "cp_next c + 4 < 2 ^ 128"
    and blk: "4 dvd blk" "0 < blk" and r: "cp_interface blk base c = (r, c')"
  shows "cp_aligned (net_top blk base) c' \<and> cp_next c \<le> cp_next c' \<and> cp_next c' \<le> cp_next c + 4 \<and>
    (r = None \<or> (\<exists>x. r = Some (block x) \<and> x mod 4 = 1))"
proof -
  obtain xs where xs: "cp_free c = concat (map block xs)" "\<forall>x \<in> set xs. x mod 4 = 1"
    and nx: "cp_next c mod 4 = 1 \<or> net_top blk base < cp_next c"
    using al by (auto simp: cp_aligned_def)
  show ?thesis
  proof (cases xs)
    case (Cons x ys)
    then have "cp_interface blk base c = (Some (block x), c\<lparr>cp_free := concat (map block ys)\<rparr>)"
      using xs by (intro cp_interface_free) simp
    then show ?thesis using r xs nx Cons by (auto simp: cp_aligned_def)
  next
    case Nil
    let ?l = "cp_next c" and ?t = "net_top blk base"
    have t: "?t mod 4 = 3" using blk by (rule net_top_mod4)
    have fr: "cp_free c = []" using xs Nil by simp
    have al': "cp_aligned ?t (c\<lparr>cp_next := m\<rparr>)" if "m mod 4 = 1 \<or> ?t < m" for m
      using that fr by (auto simp: cp_aligned_def intro!: exI [of _ "[]"])
    consider (out) "?t \<le> ?l" | (last) "?t = ?l + 2" "?l mod 4 = 1" | (ok) "?l + 4 < ?t" "?l mod 4 = 1"
    proof -
      have "?t \<le> ?l \<or> (?t = ?l + 2 \<and> ?l mod 4 = 1) \<or> (?l + 4 < ?t \<and> ?l mod 4 = 1)"
        using mod4_gap [OF t, of ?l] nx by (metis not_le order.asym)
      then show ?thesis using that by blast
    qed
    then show ?thesis
    proof cases
      case out
      then have "c' = c\<lparr>cp_next := ?l + 1\<rparr>" "r = None"
        using r cp_interface_fresh [OF fr b(1,2) blk(2)] by (auto simp: Let_def)
      moreover have "cp_aligned ?t (c\<lparr>cp_next := ?l + 1\<rparr>)" by (rule al') (use out in auto)
      ultimately show ?thesis by simp
    next
      case last
      then have "c' = c\<lparr>cp_next := ?l + 3\<rparr>" "r = None"
        using r cp_interface_fresh [OF fr b(1,2) blk(2)] by (auto simp: Let_def)
      moreover have "cp_aligned ?t (c\<lparr>cp_next := ?l + 3\<rparr>)" by (rule al') (use last in auto)
      ultimately show ?thesis by simp
    next
      case ok
      then have "c' = c\<lparr>cp_next := ?l + 4\<rparr>" "r = Some (block ?l)"
        using r cp_interface_fresh [OF fr b(1,2) blk(2)] by (auto simp: Let_def)
      moreover have "cp_aligned ?t (c\<lparr>cp_next := ?l + 4\<rparr>)" by (rule al') (use ok in auto)
      ultimately show ?thesis using ok by auto
    qed
  qed
qed

lemma cp_release_aligned:
  assumes "cp_aligned hi c" "x mod 4 = 1"
  shows "cp_aligned hi (cp_release (block x) c)"
proof -
  obtain xs where "cp_free c = concat (map block xs)" "\<forall>x \<in> set xs. x mod 4 = 1"
    "cp_next c mod 4 = 1 \<or> hi < cp_next c"
    using assms by (auto simp: cp_aligned_def)
  then show ?thesis
    using assms by (auto simp: cp_aligned_def cp_release_def intro!: exI [of _ "xs @ [x]"])
qed

subsection \<open>CIDR text\<close>

text \<open>The text \<open>a.b.c.d/n\<close>, as the configuration's \<open>address_pool\<close> is written.\<close>

definition cidr_string :: "byte list \<Rightarrow> nat \<Rightarrow> string" where
  "cidr_string q n = IP_String (v4InV6Prefix @ q) @ CHR ''/'' # dec_digits n"

lemma dec_digits_no: "\<not> is_digit c \<Longrightarrow> c \<notin> set (dec_digits n)"
  using dec_digits_are_digits [of n] by (auto simp: list_all_iff)

lemma Join_set: "set (Join ps sep) \<subseteq> \<Union> (set ` set ps) \<union> set sep"
  by (induction ps sep rule: Join.induct) auto

lemma IP_String_v4_chars: "length q = 4 \<Longrightarrow> c \<in> set (IP_String (v4InV6Prefix @ q)) \<Longrightarrow> is_digit c \<or> c = CHR ''.''"
  using Join_set [of "map (\<lambda>b. dec_digits (unat b)) q" "''.''"] dec_digits_are_digits
  by (auto simp: IP_String_v4 list_all_iff)

lemma IP_String_v4_no: "length q = 4 \<Longrightarrow> \<not> is_digit c \<Longrightarrow> c \<noteq> CHR ''.'' \<Longrightarrow> c \<notin> set (IP_String (v4InV6Prefix @ q))"
  using IP_String_v4_chars by blast

lemma ParseCIDR_cidr_string:
  assumes "length q = 4" "n \<le> 32"
  shows "ParseCIDR (cidr_string q n) = Inr (v4InV6Prefix @ q, v4_net q n)"
proof -
  let ?a = "IP_String (v4InV6Prefix @ q)"
  have "IndexByte (cidr_string q n) CHR ''/'' = Some (length ?a)"
    unfolding cidr_string_def
    by (rule IndexByte_append) (use assms IP_String_v4_no in \<open>auto simp: is_digit_def\<close>)
  moreover have "take (length ?a) (cidr_string q n) = ?a" "drop (Suc (length ?a)) (cidr_string q n) = dec_digits n"
    by (simp_all add: cidr_string_def)
  moreover have "dtoi (dec_digits n) = (n, length (dec_digits n), True)"
    by (rule dtoi_dec_digits_end) (use assms in \<open>simp add: big_def\<close>)
  ultimately show ?thesis
    using assms by (simp add: ParseCIDR_def Let_def parseIPv4_IP_String v4_net_def)
qed

lemma NewIPPool_cidr_string:
  "length q = 4 \<Longrightarrow> n \<le> 32 \<Longrightarrow> NewIPPool (cidr_string q n) =
     Inr \<lparr>Subnet = v4_net q n, lastFromPool = v4InV6Prefix @ q, pool_free = []\<rparr>"
  by (simp add: NewIPPool_def ParseCIDR_cidr_string)

section \<open>Interfaces in use\<close>

text \<open>
  The histories in which a pool only serves interfaces and gets whole slices back, which is how
  the server uses it. \<open>ifs\<close> are the interfaces in use, \<open>k\<close> counts assignments.
\<close>

inductive iface_run :: "IPPool \<Rightarrow> nat \<Rightarrow> IPPool \<Rightarrow> IPInterface list \<Rightarrow> bool" for p0 where
  start: "iface_run p0 0 p0 []"
| make: "iface_run p0 k p ifs \<Longrightarrow> pool_IPInterface p = (Inr i, p') \<Longrightarrow> iface_run p0 (k + 4) p' (i # ifs)"
| fail: "iface_run p0 k p ifs \<Longrightarrow> pool_IPInterface p = (Inl e, p') \<Longrightarrow> iface_run p0 (k + 4) p' ifs"
| free: "iface_run p0 k p (xs @ i # ys) \<Longrightarrow> iface_run p0 k (FreeAssignment (Slice i) p) (xs @ ys)"

lemma iface_run_pool_run:
  assumes "iface_run p0 k p ifs" "pool_inv q n m p0 {}" "k \<le> m"
  shows "\<exists>out. pool_run p0 k p out \<and> set out = \<Union> (set ` set (map Slice ifs)) \<and> distinct (concat (map Slice ifs))"
  using assms
proof (induction rule: iface_run.induct)
  case start
  show ?case by (auto intro!: exI [of _ "[]"] pool_run.start)
next
  case (make k p ifs i p')
  then obtain out where o: "pool_run p0 k p out" "set out = \<Union> (set ` set (map Slice ifs))" "distinct (concat (map Slice ifs))"
    by auto
  have r: "pool_run p0 (k + 4) p' (Slice i @ out)" using o(1) make.hyps(2) by (rule pool_run.iface)
  then have "distinct (Slice i @ out)" using pool_run_inv [OF r make.prems] by blast
  with o r show ?case by (intro exI [of _ "Slice i @ out"]) auto
next
  case (fail k p ifs e p')
  then show ?case by (auto intro: pool_run.iface_fail)
next
  case (free k p xs i ys)
  then obtain out where o: "pool_run p0 k p out" "set out = \<Union> (set ` set (map Slice (xs @ i # ys)))"
    "distinct (concat (map Slice (xs @ i # ys)))"
    by auto
  have "pool_run p0 k (FreeAssignment (Slice i) p) (filter (\<lambda>x. x \<notin> set (Slice i)) out)"
    by (rule pool_run.release [OF o(1)]) (use o in auto)
  moreover have "set (filter (\<lambda>x. x \<notin> set (Slice i)) out) = \<Union> (set ` set (map Slice (xs @ ys)))"
    using o(2,3) by auto
  moreover have "distinct (concat (map Slice (xs @ ys)))" using o(3) by auto
  ultimately show ?case by blast
qed

text \<open>The /30 invariant along such a run, for a pool that starts at an address \<open>4 k + 1\<close>.\<close>

definition is_block :: "IPInterface \<Rightarrow> bool" where
  "is_block i \<longleftrightarrow> (\<exists>x. map be_val (Slice i) = block x \<and> x mod 4 = 1) \<and>
     (\<exists>u v. Slice i = [BridgeIP i, SiloIP i, u, v]) \<and> list_all is_v4 (Slice i) \<and>
     BridgeMask i = mask30 \<and> SiloMask i = mask30"

lemma dvd_pow_blk: "n \<le> 30 \<Longrightarrow> (4 :: nat) dvd 2 ^ (32 - n)"
proof -
  assume "n \<le> 30"
  then have "(2 :: nat) ^ 2 dvd 2 ^ (32 - n)" by (intro le_imp_power_dvd) simp
  then show ?thesis by simp
qed

lemma iface_run_aligned:
  assumes "iface_run p0 k p ifs" "pool_inv q n m p0 {}" "k \<le> m" "n \<le> 30"
    and "cp_aligned (net_top (2 ^ (32 - n)) (v4_addr q)) (abs_pool p0)"
  shows "cp_aligned (net_top (2 ^ (32 - n)) (v4_addr q)) (abs_pool p) \<and> list_all is_block ifs"
  using assms
proof (induction rule: iface_run.induct)
  case start
  then show ?case by simp
next
  case (make k p ifs i p')
  let ?blk = "2 ^ (32 - n) :: nat"
  obtain out lost where inv: "pool_inv q n (m - k) p (out \<union> lost)"
    using iface_run_pool_run [OF make.hyps(1) make.prems(1)] pool_run_inv make.prems by (metis add_leD1)
  then have v4: "v4_pool q n p" and lo: "v4_addr q \<le> cp_next (abs_pool p)" and hi: "cp_next (abs_pool p) + 4 < 2 ^ 128"
    using make.prems by (auto simp: pool_inv_def abs_pool_def)
  have ref: "cp_interface ?blk (v4_addr q) (abs_pool p) = (Some (map be_val (Slice i)), abs_pool p')"
    using pool_IPInterface_refines [OF v4] make.hyps by (simp add: abs_slice_def)
  have al: "cp_aligned (net_top ?blk (v4_addr q)) (abs_pool p)" "list_all is_block ifs"
    using make.IH make.prems by auto
  obtain x where x: "map be_val (Slice i) = block x" "x mod 4 = 1" "cp_aligned (net_top ?blk (v4_addr q)) (abs_pool p')"
    using cp_interface_aligned [OF al(1) lo hi dvd_pow_blk [OF make.prems(3)] _ ref] by auto
  have sk: "m - k = Suc (Suc (Suc (Suc (m - (k + 4)))))" using make.prems by simp
  have "list_all is_v4 (Slice i)"
    using pool_IPInterface_ok [of q n "m - (k + 4)" p "out \<union> lost" i p'] inv sk make.hyps(2) by simp
  then have "is_block i"
    using x pool_IPInterface_fields [OF make.hyps(2)] unfolding is_block_def by blast
  with al x show ?case by simp
next
  case (fail k p ifs e p')
  let ?blk = "2 ^ (32 - n) :: nat"
  obtain out lost where inv: "pool_inv q n (m - k) p (out \<union> lost)"
    using iface_run_pool_run [OF fail.hyps(1) fail.prems(1)] pool_run_inv fail.prems by (metis add_leD1)
  then have v4: "v4_pool q n p" and lo: "v4_addr q \<le> cp_next (abs_pool p)" and hi: "cp_next (abs_pool p) + 4 < 2 ^ 128"
    using fail.prems by (auto simp: pool_inv_def abs_pool_def)
  have ref: "cp_interface ?blk (v4_addr q) (abs_pool p) = (None, abs_pool p')"
    using pool_IPInterface_refines [OF v4] fail.hyps by (simp add: abs_slice_def)
  show ?case
    using cp_interface_aligned [OF _ lo hi dvd_pow_blk [OF fail.prems(3)] _ ref] fail by auto
next
  case (free k p xs i ys)
  then obtain x where "map be_val (Slice i) = block x" "x mod 4 = 1" by (auto simp: is_block_def)
  with free show ?case by (auto simp: FreeAssignment_refines intro: cp_release_aligned)
qed

lemma mask30_CIDR: "mask30 = CIDRMask 30 32"
  by code_simp

text \<open>Two addresses agree under the /30 mask when their numbers agree but for the last two bits.\<close>

lemma IP_Mask_mask30_eq_iff:
  assumes "is_v4 x" "is_v4 y"
  shows "IP_Mask x mask30 = IP_Mask y mask30 \<longleftrightarrow> be_val x div 4 = be_val y div 4"
proof -
  obtain a b where a: "x = v4InV6Prefix @ a" "length a = 4" and b: "y = v4InV6Prefix @ b" "length b = 4"
    using assms by (auto elim!: is_v4E)
  have "IP_Mask x mask30 = IP_Mask y mask30 \<longleftrightarrow> be_val a div 4 = be_val b div 4"
    using a b map2_mask_eq_iff [of a 4 b 30] IP_Mask_v4 [of _ 30]
    by (simp add: mask30_CIDR) (simp add: CIDRMask_def)
  moreover have "be_val x div 4 = 65535 * 2 ^ 30 + be_val a div 4" "be_val y div 4 = 65535 * 2 ^ 30 + be_val b div 4"
    using a b by (simp_all add: be_val_v4)
  ultimately show ?thesis by simp
qed

lemma NewIPPool_cidr_inv:
  assumes "length q = 4" "n \<le> 32" "NewIPPool (cidr_string q n) = Inr p0"
  shows "pool_inv q n (2 ^ 127) p0 {} \<and> v4_pool q n p0 \<and> lastFromPool p0 = v4InV6Prefix @ q \<and> pool_free p0 = []"
  using NewIPPool_inv [OF ParseCIDR_cidr_string [OF assms(1,2)] assms] .

lemma block_same_30: "x mod 4 = 1 \<Longrightarrow> x div 4 = (x + 1) div 4" for x :: nat
  by presburger

lemma is_block_bridge:
  assumes "is_block i"
  shows "is_v4 (BridgeIP i)" "is_v4 (SiloIP i)" "be_val (BridgeIP i) mod 4 = 1" "be_val (SiloIP i) = be_val (BridgeIP i) + 1"
  using assms by (auto simp: is_block_def block_def)

lemma distinct_bridges:
  assumes "list_all is_block ifs" "distinct (concat (map Slice ifs))"
  shows "distinct (map (\<lambda>i. IP_Mask (BridgeIP i) (BridgeMask i)) ifs)"
  using assms
proof (induction ifs)
  case Nil
  then show ?case by simp
next
  case (Cons i ifs)
  have "IP_Mask (BridgeIP i) (BridgeMask i) \<noteq> IP_Mask (BridgeIP j) (BridgeMask j)" if j: "j \<in> set ifs" for j
  proof
    assume eq: "IP_Mask (BridgeIP i) (BridgeMask i) = IP_Mask (BridgeIP j) (BridgeMask j)"
    have b: "is_block i" "is_block j" using Cons.prems j by (auto simp: list_all_iff)
    then have "be_val (BridgeIP i) div 4 = be_val (BridgeIP j) div 4"
      using eq IP_Mask_mask30_eq_iff is_block_bridge by (auto simp: is_block_def)
    then have "be_val (BridgeIP i) = be_val (BridgeIP j)"
      using is_block_bridge(3) [OF b(1)] is_block_bridge(3) [OF b(2)] by (metis div_mult_mod_eq)
    then have "BridgeIP i = BridgeIP j"
      using be_val_inject is_block_bridge b by (auto simp: is_v4_def)
    moreover have "BridgeIP i \<in> set (Slice i)" "BridgeIP j \<in> set (Slice j)"
      using b by (auto simp: is_block_def)
    ultimately show False using Cons.prems j by auto
  qed
  with Cons show ?case by auto
qed

subsection \<open>How a pool ends\<close>

fun assign_n :: "nat \<Rightarrow> IPPool \<Rightarrow> ip result list \<times> IPPool" where
  "assign_n 0 p = ([], p)"
| "assign_n (Suc k) p =
     (let (r, p') = Assignment p; (rs, p'') = assign_n k p' in (r # rs, p''))"

lemma assign_n_results:
  assumes "v4_pool q n p" "pool_free p = []" "v4_addr q \<le> be_val (lastFromPool p)"
    and "be_val (lastFromPool p) + k < 2 ^ 128"
  shows "map abs_assigned (fst (assign_n k p)) =
    map (\<lambda>i. if be_val (lastFromPool p) + i < net_top (2 ^ (32 - n)) (v4_addr q)
             then Some (be_val (lastFromPool p) + i) else None) [0..<k]"
  using assms
proof (induction k arbitrary: p)
  case 0
  then show ?case by simp
next
  case (Suc k)
  let ?l = "be_val (lastFromPool p)"
  obtain r p1 where a: "Assignment p = (r, p1)" by (cases "Assignment p")
  have "cp_assign (2 ^ (32 - n)) (v4_addr q) (abs_pool p) =
      (if ?l < net_top (2 ^ (32 - n)) (v4_addr q) then Some ?l else None, (abs_pool p)\<lparr>cp_next := ?l + 1\<rparr>)"
    using cp_assign_fresh [of "abs_pool p" "v4_addr q" "2 ^ (32 - n)"] Suc.prems by (simp add: abs_pool_def)
  then have r: "abs_assigned r = (if ?l < net_top (2 ^ (32 - n)) (v4_addr q) then Some ?l else None)"
    and p1: "abs_pool p1 = (abs_pool p)\<lparr>cp_next := ?l + 1\<rparr>"
    using Assignment_refines [OF Suc.prems(1)] a by auto
  have l1: "be_val (lastFromPool p1) = ?l + 1" "pool_free p1 = []" "v4_pool q n p1"
    using p1 Suc.prems v4_pool_Assignment [OF Suc.prems(1)] a by (auto simp: abs_pool_def)
  have "map abs_assigned (fst (assign_n k p1)) =
    map (\<lambda>i. if ?l + 1 + i < net_top (2 ^ (32 - n)) (v4_addr q) then Some (?l + 1 + i) else None) [0..<k]"
    using Suc.IH [OF l1(3,2)] l1(1) Suc.prems by simp
  then show ?case
    by (simp add: a r split_beta upt_conv_Cons map_Suc_upt [symmetric] comp_def del: upt_Suc map_Suc_upt)
qed

section \<open>Properties\<close>

text \<open>
  C32. The loop that computes the next address of a pool, which increments bytes from the last one
  and stops at the first that does not wrap to zero, adds one to the address read as a big-endian
  number, modulo its width: for an address of any length.
\<close>

theorem next_address_adds_one: "be_val (next_loop (length x) x) = (be_val x + 1) mod 256 ^ length x"
  by (rule be_val_next_loop)

text \<open>
  C23. An IPv4 pool refines a counter with a free list. Read through the numbers the addresses
  denote, \<open>Assignment\<close>, \<open>IPInterface\<close> and \<open>FreeAssignment\<close> return and leave behind what the
  abstract counter pool does, errors included.
\<close>

theorem pool_refines_counter:
  assumes "v4_pool q n p"
  shows "(abs_assigned (fst (Assignment p)), abs_pool (snd (Assignment p))) =
           cp_assign (2 ^ (32 - n)) (v4_addr q) (abs_pool p) \<and>
         (abs_slice (fst (pool_IPInterface p)), abs_pool (snd (pool_IPInterface p))) =
           cp_interface (2 ^ (32 - n)) (v4_addr q) (abs_pool p) \<and>
         abs_pool (FreeAssignment xs p) = cp_release (map be_val xs) (abs_pool p)"
  using Assignment_refines [OF assms] pool_IPInterface_refines [OF assms] FreeAssignment_refines by simp



text \<open>
  C33. What a fresh pool serves. The requests to a pool made from \<open>a.b.c.d/n\<close> return \<open>a.b.c.d\<close>,
  the next address, and so on, up to the last but one address of the subnet, and fail from then
  on; in particular the last address of the subnet is never handed out.
\<close>

theorem fresh_pool_serves:
  assumes "length q = 4" "n \<le> 32" "NewIPPool (cidr_string q n) = Inr p0" "k \<le> 2 ^ 127"
  shows "map abs_assigned (fst (assign_n k p0)) =
    map (\<lambda>i. if v4_addr q + i < net_top (2 ^ (32 - n)) (v4_addr q) then Some (v4_addr q + i) else None) [0..<k]"
proof -
  have p0: "v4_pool q n p0" "lastFromPool p0 = v4InV6Prefix @ q" "pool_free p0 = []"
    using NewIPPool_cidr_inv [OF assms(1-3)] by auto
  have "be_val q < 2 ^ 32" using be_val_bound [of q] assms(1) by simp
  then have "v4_addr q + k < 2 ^ 128" using assms(4) by simp
  then show ?thesis
    using assign_n_results [OF p0(1,3), of k] p0(2) assms(1) by (simp add: be_val_v4)
qed

text \<open>
  C40. A failed request for an interface loses addresses. When exactly two addresses are left,
  \<open>IPInterface\<close> fails at its third assignment and does not give the two back: the pool ends up
  with an empty free list and its counter past the subnet, although \<open>Assignment\<close> alone would still
  have served both.
\<close>

theorem failed_interface_loses_two:
  assumes "v4_pool q n p" "pool_free p = []" "v4_addr q \<le> be_val (lastFromPool p)"
    and "be_val (lastFromPool p) + 2 = net_top (2 ^ (32 - n)) (v4_addr q)"
    and "be_val (lastFromPool p) + 4 < 2 ^ 128"
  shows "abs_slice (fst (pool_IPInterface p)) = None \<and>
    abs_pool (snd (pool_IPInterface p)) = \<lparr>cp_next = be_val (lastFromPool p) + 3, cp_free = []\<rparr> \<and>
    abs_assigned (fst (Assignment p)) = Some (be_val (lastFromPool p))"
proof -
  let ?blk = "2 ^ (32 - n) :: nat" and ?c = "abs_pool p"
  have c: "cp_free ?c = []" "v4_addr q \<le> cp_next ?c" "cp_next ?c + 4 < 2 ^ 128" "cp_next ?c + 1 < 2 ^ 128"
    using assms by (auto simp: abs_pool_def)
  have "cp_interface ?blk (v4_addr q) ?c = (None, ?c\<lparr>cp_next := cp_next ?c + 3\<rparr>)"
    using cp_interface_fresh [OF c(1-3)] assms(4) by (simp add: Let_def abs_pool_def)
  moreover have "fst (cp_assign ?blk (v4_addr q) ?c) = Some (cp_next ?c)"
    using cp_assign_fresh [OF c(1,2,4)] assms(4) by (simp add: abs_pool_def)
  ultimately show ?thesis
    using pool_IPInterface_refines [OF assms(1)] Assignment_refines [OF assms(1)] assms(2)
    by (simp add: abs_pool_def prod_eq_iff)
qed

subsection \<open>Witnesses\<close>

text \<open>The pool \<open>10.0.0.1/29\<close> and what it is after its only whole interface has been taken.\<close>

definition ex_pool :: IPPool where
  "ex_pool = \<lparr>Subnet = v4_net [10, 0, 0, 1] 29, lastFromPool = v4InV6Prefix @ [10, 0, 0, 1], pool_free = []\<rparr>"

definition ex_pool5 :: IPPool where
  "ex_pool5 = ex_pool\<lparr>lastFromPool := v4InV6Prefix @ [10, 0, 0, 5]\<rparr>"

lemma ex_pool_new: "NewIPPool (cidr_string [10, 0, 0, 1] 29) = Inr ex_pool"
  by (simp add: NewIPPool_cidr_string ex_pool_def)

lemma ex_pool_v4: "v4_pool [10, 0, 0, 1] 29 ex_pool" "v4_pool [10, 0, 0, 1] 29 ex_pool5"
  by (simp_all add: v4_pool_def ex_pool_def ex_pool5_def)

lemma ex_iface: "snd (pool_IPInterface ex_pool) = ex_pool5"
  "fst (pool_IPInterface ex_pool) = Inr \<lparr>isSetup = False, BridgeIP = v4InV6Prefix @ [10, 0, 0, 1],
    BridgeMask = mask30, SiloIP = v4InV6Prefix @ [10, 0, 0, 2], SiloMask = mask30, bridgeName = [],
    hostVeth = [], siloVeth = [], InternetAccess = False,
    Slice = map (\<lambda>b. v4InV6Prefix @ [10, 0, 0, b]) [1, 2, 3, 4], Freeer = True, ipt = False\<rparr>"
  by code_simp+

theorem pool_refines_counter_witness:
  "v4_pool [10, 0, 0, 1] 29 ex_pool \<and>
   (abs_assigned (fst (Assignment ex_pool)), abs_pool (snd (Assignment ex_pool))) =
     cp_assign (2 ^ 3) (v4_addr [10, 0, 0, 1]) (abs_pool ex_pool)"
  using pool_refines_counter [OF ex_pool_v4(1), of "[]"] ex_pool_v4(1) by simp



theorem fresh_pool_serves_witness:
  "map abs_assigned (fst (assign_n 7 ex_pool)) =
     map (\<lambda>i. if i < 6 then Some (v4_addr [10, 0, 0, 1] + i) else None) [0..<7]"
  using fresh_pool_serves [OF _ _ ex_pool_new, of 7] by (simp add: net_top_def upt_rec)

theorem failed_interface_loses_two_witness:
  "abs_slice (fst (pool_IPInterface ex_pool5)) = None \<and>
   abs_pool (snd (pool_IPInterface ex_pool5)) = \<lparr>cp_next = v4_addr [10, 0, 0, 8], cp_free = []\<rparr> \<and>
   abs_assigned (fst (Assignment ex_pool5)) = Some (v4_addr [10, 0, 0, 5])"
  using failed_interface_loses_two [OF ex_pool_v4(2)]
  by (simp add: ex_pool5_def ex_pool_def be_val_v4 net_top_def)

text \<open>
  From a pool that is not aligned to /30 networks an interface can straddle two networks. From the pool
  \<open>10.0.0.2/29\<close>: one interface is taken, a second request fails at its second assignment and puts a
  single address back, the first interface is given back, and the next one has its bridge and its
  silo in different /30 networks.
\<close>

theorem interface_straddles_networks:
  "\<exists>p0 p i. NewIPPool (cidr_string [10, 0, 0, 2] 29) = Inr p0 \<and> iface_run p0 12 p [i] \<and>
     IP_Mask (SiloIP i) (SiloMask i) \<noteq> IP_Mask (BridgeIP i) (BridgeMask i)"
proof -
  let ?p0 = "\<lparr>Subnet = v4_net [10, 0, 0, 2] 29, lastFromPool = v4InV6Prefix @ [10, 0, 0, 2], pool_free = []\<rparr>"
  let ?p1 = "snd (pool_IPInterface ?p0)"
  let ?p2 = "snd (pool_IPInterface ?p1)"
  let ?i = "projr (fst (pool_IPInterface ?p0))"
  let ?p3 = "FreeAssignment (Slice ?i) ?p2"
  let ?j = "projr (fst (pool_IPInterface ?p3))"
  have "\<not> isl (fst (pool_IPInterface ?p0))" by code_simp
  then have 1: "pool_IPInterface ?p0 = (Inr ?i, ?p1)" by (simp add: prod_eq_iff)
  have "isl (fst (pool_IPInterface ?p1))" by code_simp
  then have 2: "pool_IPInterface ?p1 = (Inl (projl (fst (pool_IPInterface ?p1))), ?p2)" by (simp add: prod_eq_iff)
  have "\<not> isl (fst (pool_IPInterface ?p3))" by code_simp
  then have 3: "pool_IPInterface ?p3 = (Inr ?j, snd (pool_IPInterface ?p3))" by (simp add: prod_eq_iff)
  have "iface_run ?p0 (0 + 4 + 4) ?p3 ([] @ [])"
    by (rule iface_run.free [of _ _ _ "[]"])
       (simp only: append_Nil, rule iface_run.fail [OF iface_run.make [OF iface_run.start 1] 2])
  then have "iface_run ?p0 (0 + 4 + 4 + 4) (snd (pool_IPInterface ?p3)) (?j # ([] @ []))"
    using 3 by (rule iface_run.make)
  moreover have "IP_Mask (SiloIP ?j) (SiloMask ?j) \<noteq> IP_Mask (BridgeIP ?j) (BridgeMask ?j)" by code_simp
  ultimately show ?thesis
    by (intro exI [of _ ?p0] exI [of _ "snd (pool_IPInterface ?p3)"] exI [of _ ?j])
       (simp add: NewIPPool_cidr_string)
qed

end
