(* ===== verification/GoPath.thy ===== *)
theory GoPath
  imports Prelude
begin

text \<open>
  Go's \<open>path\<close> and \<open>path/filepath\<close> on a Unix system: \<open>Clean\<close>, \<open>Join\<close> and \<open>Dir\<close>. \<open>Clean\<close> is
  computed on the components of the path, as the package's lexical rules describe it: empty and
  \<open>.\<close> components go, a \<open>..\<close> removes the component before it, a rooted path cannot climb above
  \<open>/\<close>. The lemmas say when a joined path stays below the directory it is joined to.
\<close>

abbreviation slash :: char where
  "slash \<equiv> CHR ''/''"

definition dotdot :: string where
  "dotdot = ''..''"

text \<open>The stack of components kept so far, innermost first.\<close>

fun clean_comps :: "bool \<Rightarrow> string list \<Rightarrow> string list \<Rightarrow> string list" where
  "clean_comps rooted st [] = rev st"
| "clean_comps rooted st (c # cs) =
     (if c = [] \<or> c = ''.'' then clean_comps rooted st cs
      else if c = dotdot
      then (case st of
              [] \<Rightarrow> clean_comps rooted (if rooted then [] else [dotdot]) cs
            | d # ds \<Rightarrow> if d = dotdot then clean_comps rooted (dotdot # st) cs
                       else clean_comps rooted ds cs)
      else clean_comps rooted (c # st) cs)"

definition Clean :: "string \<Rightarrow> string" where
  "Clean p =
     (let rooted = (p \<noteq> [] \<and> hd p = slash);
          cs = clean_comps rooted [] (Split p slash)
      in if rooted then slash # Join cs [slash]
         else if cs = [] then ''.'' else Join cs [slash])"

text \<open>\<open>path.Join(elem...)\<close>: empty elements are dropped, the rest joined and cleaned.\<close>

definition path_Join :: "string list \<Rightarrow> string" where
  "path_Join es = (let ne = filter (\<lambda>e. e \<noteq> []) es in if ne = [] then [] else Clean (Join ne [slash]))"

text \<open>\<open>path.Dir\<close>: everything up to the last slash, cleaned.\<close>

definition path_Dir :: "string \<Rightarrow> string" where
  "path_Dir p = Clean (rev (dropWhile (\<lambda>c. c \<noteq> slash) (rev p)))"

lemmas path_defs [go_defs] = dotdot_def Clean_def path_Join_def path_Dir_def

section \<open>Components\<close>

text \<open>A clean absolute path, given by its components.\<close>

definition abs_path :: "string list \<Rightarrow> string" where
  "abs_path cs = slash # Join cs [slash]"

definition plain_comp :: "string \<Rightarrow> bool" where
  "plain_comp c \<longleftrightarrow> c \<noteq> [] \<and> c \<noteq> ''.'' \<and> c \<noteq> dotdot \<and> slash \<notin> set c"

lemma clean_comps_append_plain:
  "list_all plain_comp cs \<Longrightarrow> clean_comps r st (cs @ ds) = clean_comps r (rev cs @ st) ds"
  by (induction cs arbitrary: st) (auto simp: plain_comp_def)

lemma clean_comps_plain: "list_all plain_comp cs \<Longrightarrow> clean_comps r st cs = rev st @ cs"
  using clean_comps_append_plain [of cs r st "[]"] by simp

text \<open>Without a \<open>..\<close> component the stack only grows.\<close>

lemma clean_comps_no_dotdot:
  "dotdot \<notin> set cs \<Longrightarrow> clean_comps r st cs = rev st @ filter (\<lambda>c. c \<noteq> [] \<and> c \<noteq> ''.'') cs"
  by (induction cs arbitrary: st) auto

lemma Split_append_slash: "Split (a @ c # b) c = Split a c @ Split b c"
proof (induction a)
  case Nil
  then show ?case by simp
next
  case (Cons x a)
  then show ?case by (cases "Split a c") (auto split: list.splits)
qed

lemma Split_abs_path:
  assumes "list_all plain_comp cs"
  shows "filter (\<lambda>c. c \<noteq> []) (Split (abs_path cs) slash) = cs"
proof (cases "cs = []")
  case True
  then show ?thesis by (simp add: abs_path_def)
next
  case False
  have "list_all (\<lambda>p. slash \<notin> set p) cs" using assms by (auto simp: plain_comp_def list_all_iff)
  with False have "Split (abs_path cs) slash = [] # cs"
    using Split_Join [of cs slash] by (simp add: abs_path_def)
  moreover have "filter (\<lambda>c. c \<noteq> []) cs = cs"
    using assms by (auto simp: plain_comp_def list_all_iff)
  ultimately show ?thesis by simp
qed

lemma clean_comps_filter_empty: "clean_comps r st (filter (\<lambda>c. c \<noteq> []) cs) = clean_comps r st cs"
  by (induction r st cs rule: clean_comps.induct) (auto split: list.splits)

text \<open>What joining a relative or absolute name to a clean absolute directory gives.\<close>

lemma path_Join_abs:
  assumes "list_all plain_comp cs" "p \<noteq> []"
  shows "path_Join [abs_path cs, p] = abs_path (clean_comps True (rev cs) (Split p slash))"
proof -
  have "clean_comps True [] (Split (abs_path cs @ slash # p) slash) =
        clean_comps True [] (filter (\<lambda>c. c \<noteq> []) (Split (abs_path cs) slash) @ filter (\<lambda>c. c \<noteq> []) (Split p slash))"
    by (simp only: Split_append_slash filter_append [symmetric] clean_comps_filter_empty)
  also have "\<dots> = clean_comps True (rev cs) (Split p slash)"
    unfolding Split_abs_path [OF assms(1)] clean_comps_append_plain [OF assms(1)]
    by (simp add: clean_comps_filter_empty)
  finally show ?thesis
    using assms(2) by (simp add: path_Join_def Clean_def abs_path_def Let_def)
qed

lemma list_all_Split: "list_all (\<lambda>q. c \<notin> set q) (Split p c)"
  by (auto simp: list_all_iff dest: Split_parts_no_sep)

text \<open>
  A path lies below a directory when its components extend the directory's by plain ones. A name without a
  \<open>..\<close> component, joined to a clean directory, stays below it.
\<close>

definition below :: "string list \<Rightarrow> string \<Rightarrow> bool" where
  "below cs p \<longleftrightarrow> (\<exists>ds. list_all plain_comp ds \<and> p = abs_path (cs @ ds))"

lemma path_Join_below:
  assumes "list_all plain_comp cs" "dotdot \<notin> set (Split p slash)"
  shows "below cs (path_Join [abs_path cs, p])"
proof (cases "p = []")
  case True
  have "clean_comps True [] (Split (abs_path cs) slash) = cs"
    using clean_comps_filter_empty [of True "[]" "Split (abs_path cs) slash"]
      Split_abs_path [OF assms(1)] clean_comps_plain [OF assms(1), of True "[]"] by simp
  then have "path_Join [abs_path cs, p] = abs_path (cs @ [])"
    using True by (simp add: path_Join_def Clean_def abs_path_def)
  then show ?thesis unfolding below_def by (intro exI [of _ "[]"]) simp
next
  case False
  have "path_Join [abs_path cs, p] =
      abs_path (cs @ filter (\<lambda>c. c \<noteq> [] \<and> c \<noteq> ''.'') (Split p slash))"
    unfolding path_Join_abs [OF assms(1) False] clean_comps_no_dotdot [OF assms(2)] by simp
  moreover have "list_all plain_comp (filter (\<lambda>c. c \<noteq> [] \<and> c \<noteq> ''.'') (Split p slash))"
    using list_all_Split [of slash p] assms(2) by (auto simp: list_all_iff plain_comp_def)
  ultimately show ?thesis unfolding below_def by blast
qed

text \<open>One that goes up one directory lands beside it.\<close>

lemma path_Join_beside:
  assumes "list_all plain_comp cs" "cs \<noteq> []" "plain_comp c"
  shows "path_Join [abs_path cs, ''../'' @ c] = abs_path (butlast cs @ [c])"
proof -
  have "slash \<notin> set c" using assms(3) by (simp add: plain_comp_def)
  then have "Split (''../'' @ c) slash = [dotdot, c]"
    using Split_append_sep [of slash dotdot c] by (simp add: dotdot_def Split_no_sep)
  moreover obtain ds d where cs: "cs = ds @ [d]" using assms(2) by (cases cs rule: rev_cases) auto
  moreover have "d \<noteq> dotdot" using assms(1) by (simp add: cs plain_comp_def)
  ultimately show ?thesis
    using path_Join_abs [OF assms(1), of "''../'' @ c"] assms(3) by (simp add: plain_comp_def dotdot_def)
qed

lemma abs_path_inject:
  assumes "list_all plain_comp cs" "list_all plain_comp ds" "abs_path cs = abs_path ds"
  shows "cs = ds"
  by (metis Split_abs_path [OF assms(1)] Split_abs_path [OF assms(2)] assms(3))

lemma clean_comps_all_plain:
  "list_all plain_comp st \<Longrightarrow> list_all (\<lambda>c. slash \<notin> set c) cs \<Longrightarrow> list_all plain_comp (clean_comps True st cs)"
proof (induction cs arbitrary: st)
  case Nil
  then show ?case by (simp add: list_all_iff)
next
  case (Cons c cs)
  have tl: "list_all plain_comp (clean_comps True st' cs)" if "list_all plain_comp st'" for st'
    using Cons that by simp
  consider "c = [] \<or> c = ''.''" | "c = dotdot" | "plain_comp c"
    using Cons.prems by (auto simp: plain_comp_def)
  then show ?case
  proof cases
    case 1
    then show ?thesis using tl Cons.prems by auto
  next
    case 2
    then show ?thesis
      using tl Cons.prems by (cases st) (auto simp: plain_comp_def [of dotdot] dotdot_def)
  next
    case 3
    then have "clean_comps True st (c # cs) = clean_comps True (c # st) cs"
      by (simp add: plain_comp_def)
    then show ?thesis using tl [of "c # st"] Cons.prems 3 by simp
  qed
qed

end
