(* ===== verification/Wire.thy ===== *)
theory Wire
  imports Prelude
begin

text \<open>
  The data that travels: the description of silos in a silo file (\<open>siloconf/silo.go\<close>) and the packets
  of the daemon's calls (\<open>colexd/wire\<close>), with the statistics they carry. Go's maps are association
  lists in the order of the iteration; \<open>None\<close> is a nil map where the code tells it from an empty one.
\<close>

section \<open>Silo files\<close>

record conf_File =
  cf_Path :: string
  cf_SiloPath :: string

record Network =
  n_InternetAccess :: bool
  n_Nameservers :: "string list"
  n_Hosts :: "(string \<times> string) list option"

record Binary =
  b_Path :: string
  b_Env :: "string list"
  b_Args :: "string list"

record Bind =
  bd_ID :: string
  bd_Path :: string

record Resources =
  r_CPUPercent :: int
  r_MaxMemoryBytes :: int

record conf_Silo =
  cs_Name :: string
  cs_Class :: string
  cs_Tags :: "string list"
  cs_Base :: string
  cs_Network :: Network
  cs_Binary :: Binary
  cs_Resources :: Resources
  cs_Grant :: "(string \<times> bool) list"
  cs_Files :: "(string \<times> conf_File) list"
  cs_FileBalls :: "(string \<times> conf_File) list"
  cs_Binds :: "(string \<times> Bind) list"

record SiloFile =
  Silos :: "conf_Silo list"

section \<open>Statistics\<close>

text \<open>
  gosigar's \<open>ProcMem\<close>, and netlink's \<open>LinkStatistics64\<close>: the counters the code names, and the fifteen
  others, which it only copies.
\<close>

record ProcMem =
  mem_Size :: "64 word"
  mem_Resident :: "64 word"
  mem_Share :: "64 word"
  mem_MinorFaults :: "64 word"
  mem_MajorFaults :: "64 word"
  mem_PageFaults :: "64 word"

record LinkStatistics64 =
  RxPackets :: "64 word"
  TxPackets :: "64 word"
  RxBytes :: "64 word"
  TxBytes :: "64 word"
  RxErrors :: "64 word"
  TxErrors :: "64 word"
  RxDropped :: "64 word"
  TxDropped :: "64 word"
  OtherCounters :: "64 word list"

definition zero_stats :: LinkStatistics64 where
  "zero_stats =
     \<lparr>RxPackets = 0, TxPackets = 0, RxBytes = 0, TxBytes = 0, RxErrors = 0, TxErrors = 0, RxDropped = 0, TxDropped = 0,
      OtherCounters = replicate 15 0\<rparr>"

section \<open>Packets\<close>

record Interface =
  wi_Name :: string
  wi_Address :: string
  wi_Kind :: string
  wi_Stats :: LinkStatistics64

record wire_File =
  f_Type :: string
  f_LocalPath :: string
  f_SiloPath :: string
  f_Data :: string

text \<open>\<open>SiloConf\<close> is a pointer: a packet may leave it out.\<close>

record UpPacket =
  up_SiloConf :: "conf_Silo option"
  up_Files :: "wire_File list"

record UpPacketResponse =
  upr_IDHex :: string
  upr_Interfaces :: "Interface list"

record DownPacket =
  dn_SiloName :: string
  dn_SiloID :: string

record SetHostRequest =
  sh_Host :: string
  sh_IP :: string

text \<open>An instant is its number of nanoseconds since 1970.\<close>

record EnableEnrollResponse =
  ee_DisablesAt :: int
  ee_Code :: string

record SiloStat =
  st_Mem :: ProcMem

record wire_Silo =
  ws_Name :: string
  ws_Class :: string
  ws_IDHex :: string
  ws_Tags :: "string list"
  ws_Interfaces :: "Interface list"
  ws_Stats :: SiloStat

record ListPacket =
  lp_Name :: string
  lp_Matches :: "wire_Silo list"

text \<open>
  The fields of an \<open>x509.Certificate\<close> that the code fills in before it is signed. The usages are named.
\<close>

record certTemplate =
  ct_SerialNumber :: int
  ct_Country :: "string list"
  ct_Organization :: "string list"
  ct_OrganizationalUnit :: "string list"
  ct_NotBefore :: int
  ct_NotAfter :: int
  ct_SubjectKeyId :: "byte list"
  ct_IsCA :: bool
  ct_BasicConstraintsValid :: bool
  ct_ExtKeyUsage :: "string list"
  ct_KeyUsage :: "string list"

text \<open>
  What a client sends to the daemon: the body of a request by what was encoded into it; and what it gets
  back: the status, the text of the body, and what \<open>gob\<close> decodes it to as each of the packets.
\<close>

datatype rpc_body =
    NoBody
  | UpBody UpPacket
  | DownBody DownPacket
  | ListBody
  | SetHostBody SetHostRequest

record http_response =
  resp_StatusCode :: int
  resp_Status :: string
  resp_Text :: string
  resp_Up :: "UpPacketResponse result"
  resp_List :: "ListPacket result"
  resp_EnableEnroll :: "EnableEnrollResponse result"

end
