(* ===== verification/Host.thy ===== *)
theory Host
  imports GoNet GoPath Wire
begin

text \<open>
  The host: every call by which colex reaches the operating system (files, mounts, network
  devices, processes, randomness, time, and the user and the daemon as a client meets them), and the
  environment that answers it. The environment is a parameter of the model: an arbitrary function of
  the calls made so far, so it may fail any call and may change its answers over time. A program that
  talks to the host is a function of the trace of calls made so far, which it extends. The combinators
  are Go's control flow: sequence with early return, \<open>fmt.Errorf("\<dots>: %v", err)\<close>, an ignored error,
  and \<open>defer\<close>.
\<close>

section \<open>Calls\<close>

datatype fscall =
    ReadFile string
  | WriteFile string string nat
  | Mkdir string nat
  | MkdirAll string nat
  | RemoveAll string
  | Stat string
  | OpenTrunc string nat
  | OpenAppend string
  | OpenRead string
  | FRead string
  | FWrite string string
  | FClose string
  | TempDir string string
  | Getwd
  | Readlink string
  | ReadDir string
  | Mount string string string nat
  | PivotRoot string string
  | Chdir string
  | Unmount string nat
  | Sethostname string

datatype netcall =
    InterfaceByName string
  | InterfaceAddrs string
  | LinkAddBridge string
  | LinkAddVeth string string
  | AddrAdd string ip ipmask
  | LinkSetUp string
  | LinkSetDown string
  | LinkDel string
  | LinkByName string
  | LinkSetMaster string string
  | LinkSetNsPid string int
  | RouteAdd string
  | NsOpen int
  | NsGet
  | NsSet int
  | NsRestore
  | NsDrop
  | NsClose int
  | IptablesNew
  | IptAppendUnique string string "string list"
  | IptDelete string string "string list"
  | ListenTCP string
  | ListenUDP string
  | CloseListener string
  | ListenTLS string
  | CloseServer

datatype proccall =
    RunCmd string "string list" string
  | RunEnv string "string list" "string list"
  | StartChild string "string list" nat
  | Signal int nat
  | KillProcess int
  | WaitChild int
  | RandRead nat
  | ProcMemGet int
  | Getuid
  | Getgid
  | Now
  | Sleep nat

datatype clicall =
    CurrentUser
  | LoadX509KeyPair string string
  | Prompt string
  | Handshake string string
  | HttpGet string
  | HttpPost string rpc_body
  | CmdOutput string "string list"
  | Int63
  | AddDate int int int int
  | GenerateKey int
  | CreateCertificate certTemplate string

datatype call = Fs fscall | Net netcall | Proc proccall | Cli clicall

text \<open>A trace lists the calls made, first to last, each with the error it returned, if any.\<close>

type_synonym trace = "(call \<times> gerr option) list"

text \<open>
  The answers: whether a call fails after a given trace, and the value of one that succeeds, by
  the kind of value (\<open>h_flag\<close>: is the link a bridge, is the interface up, has it an address;
  \<open>h_mem\<close>: the memory statistics of a process, gosigar's \<open>ProcMem\<close>; \<open>h_stats\<close>: the statistics
  of a link, if it has any; \<open>h_resp\<close>: the response to a request); \<open>h_goarch\<close> is \<open>runtime.GOARCH\<close>.
\<close>

record host =
  h_err :: "trace \<Rightarrow> call \<Rightarrow> gerr option"
  h_str :: "trace \<Rightarrow> call \<Rightarrow> string"
  h_int :: "trace \<Rightarrow> call \<Rightarrow> int"
  h_bytes :: "trace \<Rightarrow> call \<Rightarrow> byte list"
  h_dir :: "trace \<Rightarrow> call \<Rightarrow> (string \<times> bool) list"
  h_flag :: "trace \<Rightarrow> call \<Rightarrow> bool"
  h_mem :: "trace \<Rightarrow> call \<Rightarrow> ProcMem"
  h_stats :: "trace \<Rightarrow> call \<Rightarrow> LinkStatistics64 option"
  h_resp :: "trace \<Rightarrow> call \<Rightarrow> http_response"
  h_goarch :: string

text \<open>\<open>time.Time.Unix\<close>: an instant, in nanoseconds, as whole seconds.\<close>

definition Unix :: "int \<Rightarrow> int" where
  "Unix t = t div 1000000000"

text \<open>A file mode written in octal digits, \<open>oct 755\<close> for Go's \<open>0755\<close>.\<close>

fun oct :: "nat \<Rightarrow> nat" where
  "oct n = (if n = 0 then 0 else n mod 10 + 8 * oct (n div 10))"

declare oct.simps [simp del]

section \<open>Programs\<close>

type_synonym 'a io = "trace \<Rightarrow> 'a res \<times> trace"

definition ret :: "'a \<Rightarrow> 'a io" where
  "ret x t = (Ok x, t)"

definition fail :: "gerr \<Rightarrow> 'a io" where
  "fail e t = (Err e, t)"

definition crash :: "string \<Rightarrow> 'a io" where
  "crash s t = (Crash s, t)"

definition perform :: "host \<Rightarrow> call \<Rightarrow> (trace \<Rightarrow> call \<Rightarrow> 'a) \<Rightarrow> 'a io" where
  "perform h c v t =
     (case h_err h t c of
        None \<Rightarrow> (Ok (v t c), t @ [(c, None)])
      | Some e \<Rightarrow> (Err e, t @ [(c, Some e)]))"

definition do_call :: "host \<Rightarrow> call \<Rightarrow> unit io" where
  "do_call h c = perform h c (\<lambda>_ _. ())"

definition bind_io :: "'a io \<Rightarrow> ('a \<Rightarrow> 'b io) \<Rightarrow> 'b io" where
  "bind_io m f t =
     (case m t of
        (Ok x, t') \<Rightarrow> f x t'
      | (Err e, t') \<Rightarrow> (Err e, t')
      | (Crash s, t') \<Rightarrow> (Crash s, t'))"

definition then_io :: "unit io \<Rightarrow> 'b io \<Rightarrow> 'b io" where
  "then_io m k = bind_io m (\<lambda>_. k)"

text \<open>\<open>if err != nil { \<dots> }\<close> with a body other than returning the error.\<close>

definition catch_io :: "'a io \<Rightarrow> (gerr \<Rightarrow> 'a io) \<Rightarrow> 'a io" where
  "catch_io m k t =
     (case m t of
        (Ok x, t') \<Rightarrow> (Ok x, t')
      | (Err e, t') \<Rightarrow> k e t'
      | (Crash s, t') \<Rightarrow> (Crash s, t'))"

definition wrap_io :: "string \<Rightarrow> 'a io \<Rightarrow> 'a io" where
  "wrap_io s m = catch_io m (\<lambda>e. fail (ErrWrap s e))"

text \<open>A call whose result the code drops.\<close>

definition ignore_io :: "unit io \<Rightarrow> unit io" where
  "ignore_io m = catch_io m (\<lambda>_. ret ())"

text \<open>A call whose error the code inspects as a value.\<close>

definition try_io :: "unit io \<Rightarrow> gerr option io" where
  "try_io m = catch_io (bind_io m (\<lambda>_. ret None)) (\<lambda>e. ret (Some e))"

text \<open>\<open>defer fin()\<close>: it runs however the body ends, and its own error is dropped.\<close>

definition defer_io :: "unit io \<Rightarrow> 'a io \<Rightarrow> 'a io" where
  "defer_io fin m t = (let (r, t') = m t in (r, snd (ignore_io fin t')))"

text \<open>Loops over a slice: \<open>for\<close> with an early return, and one that collects results.\<close>

fun each_io :: "('a \<Rightarrow> unit io) \<Rightarrow> 'a list \<Rightarrow> unit io" where
  "each_io f [] = ret ()"
| "each_io f (x # xs) = then_io (f x) (each_io f xs)"

fun map_io :: "('a \<Rightarrow> 'b io) \<Rightarrow> 'a list \<Rightarrow> 'b list io" where
  "map_io f [] = ret []"
| "map_io f (x # xs) = bind_io (f x) (\<lambda>y. bind_io (map_io f xs) (\<lambda>ys. ret (y # ys)))"

text \<open>
  Reading an open file to its end: what was delivered, and the error that ended the reading before
  the end of the file, if any.
\<close>

definition read_io :: "host \<Rightarrow> string \<Rightarrow> (string \<times> gerr option) io" where
  "read_io h p t =
     (let c = Fs (FRead p) in (Ok (h_str h t c, h_err h t c), t @ [(c, h_err h t c)]))"

text \<open>\<open>time.Now\<close>, in nanoseconds; it cannot fail.\<close>

definition now_io :: "host \<Rightarrow> int io" where
  "now_io h t = (Ok (h_int h t (Proc Now)), t @ [(Proc Now, None)])"

text \<open>
  \<open>bufio.Scanner\<close> over what was read: the lines delivered, without their end-of-line marks, and the error
  \<open>Err\<close> returns. A line that fills the buffer of 64 KiB before its newline ends the scan.
\<close>

definition drop_cr :: "string \<Rightarrow> string" where
  "drop_cr l = (if l \<noteq> [] \<and> last l = CHR 0x0D then butlast l else l)"

definition scan_limit :: nat where
  "scan_limit = 65536"

fun scan_split :: "string list \<Rightarrow> string list \<times> gerr option" where
  "scan_split [] = ([], None)"
| "scan_split [l] =
     (if scan_limit \<le> length l then ([], Some (ErrSentinel ''bufio.Scanner: token too long''))
      else if l = [] then ([], None) else ([drop_cr l], None))"
| "scan_split (l # l' # ls) =
     (if scan_limit \<le> length l then ([], Some (ErrSentinel ''bufio.Scanner: token too long''))
      else let (r, e) = scan_split (l' # ls) in (drop_cr l # r, e))"

definition Scan :: "string \<times> gerr option \<Rightarrow> string list \<times> gerr option" where
  "Scan d =
     (let (r, e) = scan_split (Split (fst d) (CHR 0x0A))
      in (r, case e of Some e' \<Rightarrow> Some e' | None \<Rightarrow> snd d))"

named_theorems io_defs \<open>unfolding of the program combinators\<close>

lemmas io_comb_defs [io_defs] =
  ret_def fail_def crash_def perform_def do_call_def bind_io_def then_io_def catch_io_def
  wrap_io_def ignore_io_def try_io_def defer_io_def now_io_def

section \<open>Facts about programs\<close>

text \<open>
  What a program does to the trace, however it ends: \<open>follows R m\<close> says that \<open>R\<close> relates the trace before
  \<open>m\<close> to the one after it. For a reflexive and transitive \<open>R\<close> this is closed under Go's control flow, which
  is proved once here; that the trace only grows, that the thread stays in its namespace, that a property
  is kept and that no request is made are instances.
\<close>

definition follows :: "(trace \<Rightarrow> trace \<Rightarrow> bool) \<Rightarrow> 'a io \<Rightarrow> bool" where
  "follows R m \<longleftrightarrow> (\<forall>t. R t (snd (m t)))"

lemma followsD: "follows R m \<Longrightarrow> m t = (r, t') \<Longrightarrow> R t t'"
  unfolding follows_def by (metis snd_conv)

locale trace_order =
  fixes R :: "trace \<Rightarrow> trace \<Rightarrow> bool"
  assumes R_refl: "R t t"
    and R_trans: "R t u \<Longrightarrow> R u v \<Longrightarrow> R t v"
begin

lemma follows_ret: "follows R (ret x)"
  and follows_fail: "follows R (fail e)"
  and follows_crash: "follows R (crash s)"
  by (simp_all add: follows_def io_defs R_refl)

lemma follows_perform: "(\<And>t e. R t (t @ [(c, e)])) \<Longrightarrow> follows R (perform h c v)"
  by (auto simp: follows_def perform_def split: option.splits)

lemma follows_do_call: "(\<And>t e. R t (t @ [(c, e)])) \<Longrightarrow> follows R (do_call h c)"
  by (simp add: do_call_def follows_perform)

lemma follows_bind:
  assumes "follows R m" "\<And>x. follows R (f x)"
  shows "follows R (bind_io m f)"
  unfolding follows_def
proof
  fix t
  obtain r t1 where m: "m t = (r, t1)" by fastforce
  from followsD [OF assms(1) m] assms(2) m show "R t (snd (bind_io m f t))"
    by (cases r) (auto simp: bind_io_def follows_def intro: R_trans)
qed

lemma follows_then: "follows R m \<Longrightarrow> follows R k \<Longrightarrow> follows R (then_io m k)"
  by (simp add: then_io_def follows_bind)

lemma follows_catch:
  assumes "follows R m" "\<And>e. follows R (k e)"
  shows "follows R (catch_io m k)"
  unfolding follows_def
proof
  fix t
  obtain r t1 where m: "m t = (r, t1)" by fastforce
  from followsD [OF assms(1) m] assms(2) m show "R t (snd (catch_io m k t))"
    by (cases r) (auto simp: catch_io_def follows_def intro: R_trans)
qed

lemma follows_wrap: "follows R m \<Longrightarrow> follows R (wrap_io s m)"
  by (simp add: wrap_io_def follows_catch follows_fail)

lemma follows_ignore: "follows R m \<Longrightarrow> follows R (ignore_io m)"
  by (simp add: ignore_io_def follows_catch follows_ret)

lemma follows_try: "follows R m \<Longrightarrow> follows R (try_io m)"
  by (simp add: try_io_def follows_catch follows_bind follows_ret)

lemma follows_each: "(\<And>x. follows R (f x)) \<Longrightarrow> follows R (each_io f xs)"
  by (induction xs) (auto intro: follows_ret follows_then)

lemma follows_map: "(\<And>x. follows R (f x)) \<Longrightarrow> follows R (map_io f xs)"
  by (induction xs) (auto intro!: follows_ret follows_bind)

lemma follows_if: "follows R m \<Longrightarrow> follows R m' \<Longrightarrow> follows R (if b then m else m')"
  by simp

end

text \<open>Programs only add calls to the trace.\<close>

definition grows :: "'a io \<Rightarrow> bool" where
  "grows m \<longleftrightarrow> (\<forall>t. \<exists>ev. snd (m t) = t @ ev)"

named_theorems grows_intros \<open>the trace only grows\<close>

interpretation gr: trace_order "\<lambda>t t'. \<exists>ev. t' = t @ ev"
  by unfold_locales auto

lemma grows_follows: "grows m \<longleftrightarrow> follows (\<lambda>t t'. \<exists>ev. t' = t @ ev) m"
  by (simp add: grows_def follows_def)

lemmas grows_ret [grows_intros] = gr.follows_ret [folded grows_follows]
lemmas grows_fail [grows_intros] = gr.follows_fail [folded grows_follows]
lemmas grows_crash [grows_intros] = gr.follows_crash [folded grows_follows]
lemmas grows_bind [grows_intros] = gr.follows_bind [folded grows_follows]
lemmas grows_then [grows_intros] = gr.follows_then [folded grows_follows]
lemmas grows_catch [grows_intros] = gr.follows_catch [folded grows_follows]
lemmas grows_wrap [grows_intros] = gr.follows_wrap [folded grows_follows]
lemmas grows_ignore [grows_intros] = gr.follows_ignore [folded grows_follows]
lemmas grows_try [grows_intros] = gr.follows_try [folded grows_follows]
lemmas grows_each [grows_intros] = gr.follows_each [folded grows_follows]
lemmas grows_map [grows_intros] = gr.follows_map [folded grows_follows]
lemmas grows_if [grows_intros] = gr.follows_if [folded grows_follows]

lemma grows_perform [grows_intros]: "grows (perform h c v)"
  by (simp add: grows_follows gr.follows_perform)

lemma grows_do_call [grows_intros]: "grows (do_call h c)"
  by (simp add: do_call_def grows_perform)

lemma grows_read [grows_intros]: "grows (read_io h p)"
  by (simp add: grows_def read_io_def Let_def)

lemma grows_now [grows_intros]: "grows (now_io h)"
  by (simp add: grows_def now_io_def)

lemma growsE:
  assumes "grows m" "m t = (r, t')"
  obtains ev where "t' = t @ ev"
  using assms unfolding grows_def by (metis snd_conv)

subsection \<open>Runs that do not panic\<close>

definition no_crash :: "'a io \<Rightarrow> bool" where
  "no_crash m \<longleftrightarrow> (\<forall>t x. fst (m t) \<noteq> Crash x)"

named_theorems no_crash_intros \<open>programs that end with a result or an error\<close>

lemma no_crashD: "no_crash m \<Longrightarrow> m t \<noteq> (Crash x, t')"
  unfolding no_crash_def by (metis fst_conv)

lemma no_crash_ops [no_crash_intros]:
  "no_crash (do_call h c)" "no_crash (perform h c v)" "no_crash (ret y)" "no_crash (fail e)"
  by (auto simp: no_crash_def io_defs split: option.splits)

lemma no_crash_now [no_crash_intros]: "no_crash (now_io h)"
  by (simp add: no_crash_def now_io_def)

lemma no_crash_bind [no_crash_intros]: "no_crash m \<Longrightarrow> (\<And>x. no_crash (f x)) \<Longrightarrow> no_crash (bind_io m f)"
  unfolding no_crash_def bind_io_def by (auto split: prod.splits res.splits) (metis fst_conv)+

lemma no_crash_then [no_crash_intros]: "no_crash m \<Longrightarrow> no_crash k \<Longrightarrow> no_crash (then_io m k)"
  by (simp add: then_io_def no_crash_bind)

lemma no_crash_catch [no_crash_intros]: "no_crash m \<Longrightarrow> (\<And>e. no_crash (k e)) \<Longrightarrow> no_crash (catch_io m k)"
  unfolding no_crash_def catch_io_def by (auto split: prod.splits res.splits) (metis fst_conv)+

lemma no_crash_wrap [no_crash_intros]: "no_crash m \<Longrightarrow> no_crash (wrap_io s m)"
  unfolding wrap_io_def by (intro no_crash_intros)

lemma no_crash_each [no_crash_intros]: "(\<And>x. no_crash (f x)) \<Longrightarrow> no_crash (each_io f xs)"
  by (induction xs) (auto intro: no_crash_ops no_crash_then)

lemma no_crash_map [no_crash_intros]: "(\<And>x. no_crash (f x)) \<Longrightarrow> no_crash (map_io f xs)"
  by (induction xs) (auto intro!: no_crash_intros)

subsection \<open>Runs that succeed\<close>

text \<open>How a program that returns a value got there: every step before it returned one.\<close>

named_theorems io_ok \<open>inversion of successful runs\<close>

lemma ret_ok [io_ok]: "ret x t = (Ok y, t') \<longleftrightarrow> y = x \<and> t' = t"
  and fail_ok [io_ok]: "fail e t = (Ok y, t') \<longleftrightarrow> False"
  and crash_ok [io_ok]: "crash s t = (Ok y, t') \<longleftrightarrow> False"
  by (auto simp: io_defs)

lemma perform_ok [io_ok]:
  "perform h c v t = (Ok y, t') \<longleftrightarrow> h_err h t c = None \<and> y = v t c \<and> t' = t @ [(c, None)]"
  by (auto simp: perform_def split: option.splits)

lemma do_call_ok [io_ok]: "do_call h c t = (Ok y, t') \<longleftrightarrow> h_err h t c = None \<and> t' = t @ [(c, None)]"
  by (simp add: do_call_def perform_ok)

lemma do_call_err [io_ok]: "do_call h c t = (Err e, t') \<longleftrightarrow> h_err h t c = Some e \<and> t' = t @ [(c, Some e)]"
  by (auto simp: do_call_def perform_def split: option.splits)

lemma do_call_no_crash [io_ok]: "do_call h c t = (Crash s, t') \<longleftrightarrow> False"
  by (auto simp: do_call_def perform_def split: option.splits)

lemma now_ok [io_ok]: "now_io h t = (Ok n, t') \<longleftrightarrow> n = h_int h t (Proc Now) \<and> t' = t @ [(Proc Now, None)]"
  by (auto simp: now_io_def)

lemma bind_ok [io_ok]:
  "bind_io m f t = (Ok y, t') \<longleftrightarrow> (\<exists>x t1. m t = (Ok x, t1) \<and> f x t1 = (Ok y, t'))"
  by (auto simp: bind_io_def split: prod.splits res.splits)

lemma then_ok [io_ok]:
  "then_io m k t = (Ok y, t') \<longleftrightarrow> (\<exists>t1. m t = (Ok (), t1) \<and> k t1 = (Ok y, t'))"
  by (auto simp: then_io_def bind_ok)

lemma wrap_ok [io_ok]: "wrap_io s m t = (Ok y, t') \<longleftrightarrow> m t = (Ok y, t')"
  by (auto simp: wrap_io_def catch_io_def fail_def split: prod.splits res.splits)

lemma try_ok [io_ok]:
  "try_io m t = (Ok r, t') \<longleftrightarrow>
     (case r of None \<Rightarrow> m t = (Ok (), t') | Some e \<Rightarrow> m t = (Err e, t'))"
  by (auto simp: io_defs split: prod.splits res.splits option.splits)

lemma defer_ok [io_ok]: "defer_io fin m t = (Ok x, t') \<longleftrightarrow> (\<exists>t1. m t = (Ok x, t1) \<and> t' = snd (ignore_io fin t1))"
  by (auto simp: defer_io_def split: prod.splits)

lemma ignore_do_call: "\<exists>e. snd (ignore_io (do_call h c) t) = t @ [(c, e)]"
  by (cases "h_err h t c") (simp_all add: io_defs)

lemma catch_cleanup_ok:
  "catch_io m (\<lambda>e. then_io k (fail e)) t = (Ok x, t') \<longleftrightarrow> m t = (Ok x, t')"
  by (auto simp: catch_io_def io_ok split: prod.splits res.splits)

lemma bind_try_call:
  "bind_io (try_io (do_call h c)) f t = f (h_err h t c) (t @ [(c, h_err h t c)])"
  by (simp add: io_defs split: option.splits)

lemma each_ok_Cons [io_ok]:
  "each_io f (x # xs) t = (Ok y, t') \<longleftrightarrow> (\<exists>t1. f x t = (Ok (), t1) \<and> each_io f xs t1 = (Ok (), t'))"
  by (simp add: io_ok)

subsection \<open>Sequences of calls\<close>

text \<open>
  Most of the code's setup routines are sequences of calls that stop at the first failure.
  \<open>run_calls\<close> is that shape: what the routine issues, in order.
\<close>

fun run_calls :: "host \<Rightarrow> call list \<Rightarrow> unit io" where
  "run_calls h [] = ret ()"
| "run_calls h (c # cs) = then_io (do_call h c) (run_calls h cs)"

text \<open>All calls of a sequence succeed from a trace.\<close>

fun all_ok :: "host \<Rightarrow> trace \<Rightarrow> call list \<Rightarrow> bool" where
  "all_ok h t [] = True"
| "all_ok h t (c # cs) = (h_err h t c = None \<and> all_ok h (t @ [(c, None)]) cs)"

definition ok_events :: "call list \<Rightarrow> trace" where
  "ok_events cs = map (\<lambda>c. (c, None)) cs"

lemma run_calls_ok_iff:
  "run_calls h cs t = (Ok (), t') \<longleftrightarrow> all_ok h t cs \<and> t' = t @ ok_events cs"
  by (induction cs arbitrary: t) (auto simp: io_defs ok_events_def split: option.splits)

lemma run_calls_err:
  "run_calls h cs t = (Err e, t') \<Longrightarrow>
   \<exists>pre c post. cs = pre @ c # post \<and> all_ok h t pre \<and>
     h_err h (t @ ok_events pre) c = Some e \<and> t' = t @ ok_events pre @ [(c, Some e)]"
proof (induction cs arbitrary: t)
  case Nil
  then show ?case by (simp add: io_defs)
next
  case (Cons c cs)
  show ?case
  proof (cases "h_err h t c")
    case None
    with Cons.prems have "run_calls h cs (t @ [(c, None)]) = (Err e, t')"
      by (simp add: io_defs)
    from Cons.IH [OF this] obtain pre d post where
      "cs = pre @ d # post" "all_ok h (t @ [(c, None)]) pre"
      "h_err h (t @ [(c, None)] @ ok_events pre) d = Some e"
      "t' = t @ [(c, None)] @ ok_events pre @ [(d, Some e)]" by auto
    with None show ?thesis
      by (intro exI [of _ "c # pre"] exI [of _ d] exI [of _ post]) (simp add: ok_events_def)
  next
    case (Some e')
    with Cons.prems have "c # cs = [] @ c # cs \<and> all_ok h t [] \<and>
        h_err h (t @ ok_events []) c = Some e \<and> t' = t @ ok_events [] @ [(c, Some e)]"
      by (auto simp: io_defs ok_events_def)
    then show ?thesis by blast
  qed
qed

lemma run_calls_no_crash: "fst (run_calls h cs t) \<noteq> Crash s"
  by (induction cs arbitrary: t) (auto simp: io_defs split: option.splits)

subsection \<open>Environments for evaluation\<close>

text \<open>
  An environment in which every call succeeds, and one in which the calls of a set fail: concrete
  instances at which the definitions are evaluated.
\<close>

definition calm :: host where
  "calm = \<lparr>h_err = (\<lambda>_ _. None), h_str = (\<lambda>_ _. []), h_int = (\<lambda>_ _. 1), h_bytes = (\<lambda>_ _. [1, 2, 3, 4]),
           h_dir = (\<lambda>_ _. []), h_flag = (\<lambda>_ _. True),
           h_mem = (\<lambda>_ _. \<lparr>mem_Size = 1, mem_Resident = 1, mem_Share = 1, mem_MinorFaults = 1,
                               mem_MajorFaults = 1, mem_PageFaults = 1\<rparr>),
           h_stats = (\<lambda>_ _. Some zero_stats),
           h_resp = (\<lambda>_ _. \<lparr>resp_StatusCode = 200, resp_Status = ''200 OK'', resp_Text = [],
             resp_Up = Inl (EOther ''EOF''), resp_List = Inl (EOther ''EOF''), resp_EnableEnroll = Inl (EOther ''EOF'')\<rparr>),
           h_goarch = ''amd64''\<rparr>"

definition failing :: "(call \<times> gerr) list \<Rightarrow> host" where
  "failing fs = calm\<lparr>h_err := (\<lambda>_ c. map_of fs c)\<rparr>"

end
