(* ===== verification/Namespaces.thy ===== *)
theory Namespaces
  imports Host
begin

text \<open>
  Package \<open>colex\<close>, namespaces: the clone flags, the identity mappings, the change of the root
  filesystem, the mount of \<open>/proc\<close>, the network devices of the host and the configuration of a
  device inside the network namespace of a process. The lemmas follow two abstract states through
  the calls: which network namespace the thread is in, and what the process sees as its root.
\<close>

section \<open>Clone flags and identity mappings\<close>

definition NamespaceFS :: "64 word" where "NamespaceFS = 0x20000"
definition NamespaceProcess :: "64 word" where "NamespaceProcess = 0x20000000"
definition NamespaceUser :: "64 word" where "NamespaceUser = 0x10000000"
definition NamespaceIPC :: "64 word" where "NamespaceIPC = 0x8000000"
definition NamespaceDomains :: "64 word" where "NamespaceDomains = 0x4000000"
definition NamespaceNet :: "64 word" where "NamespaceNet = 0x40000000"

record SysProcIDMap =
  ContainerID :: int
  HostID :: int
  map_Size :: int

definition MapUser :: "int \<Rightarrow> int \<Rightarrow> SysProcIDMap" where
  "MapUser hostID containedID = \<lparr>ContainerID = containedID, HostID = hostID, map_Size = 1\<rparr>"

definition MapGroup :: "int \<Rightarrow> int \<Rightarrow> SysProcIDMap" where
  "MapGroup hostID containedID = \<lparr>ContainerID = containedID, HostID = hostID, map_Size = 1\<rparr>"

section \<open>The root filesystem and /proc\<close>

definition MS_BIND :: nat where "MS_BIND = 4096"
definition MS_REC :: nat where "MS_REC = 16384"
definition MNT_DETACH :: nat where "MNT_DETACH = 2"

definition SetRootFS :: "host \<Rightarrow> string \<Rightarrow> unit io" where
  "SetRootFS h newroot =
     (let putold = path_Join [newroot, ''/.temp_old''] in
      then_io (wrap_io ''mount failed: '' (do_call h (Fs (Mount newroot newroot [] (MS_BIND + MS_REC)))))
     (then_io (wrap_io ''mkdir failed: '' (do_call h (Fs (MkdirAll putold (oct 700)))))
     (then_io (wrap_io ''pivot root failed: '' (do_call h (Fs (PivotRoot newroot putold))))
     (then_io (wrap_io ''chdir failed: '' (do_call h (Fs (Chdir ''/''))))
     (then_io (wrap_io ''unmount failed: '' (do_call h (Fs (Unmount ''/.temp_old'' MNT_DETACH))))
              (wrap_io ''removeall failed: '' (do_call h (Fs (RemoveAll putold)))))))))"

definition MountProc :: "host \<Rightarrow> string \<Rightarrow> unit io" where
  "MountProc h target =
     then_io (do_call h (Fs (MkdirAll target (oct 755))))
             (do_call h (Fs (Mount ''proc'' target ''proc'' 0)))"

section \<open>Network devices of the host\<close>

text \<open>A \<open>*net.Interface\<close> is its name; \<open>net.InterfaceByName\<close> returns one or an error.\<close>

definition ErrDeviceExists :: gerr where
  "ErrDeviceExists = ErrSentinel ''interface with that name already exists''"

definition net_InterfaceByName :: "host \<Rightarrow> string \<Rightarrow> string io" where
  "net_InterfaceByName h name = perform h (Net (InterfaceByName name)) (\<lambda>_ _. name)"

definition CreateNetBridge :: "host \<Rightarrow> string \<Rightarrow> ip \<Rightarrow> ipmask \<Rightarrow> string io" where
  "CreateNetBridge h devName ip msk =
     bind_io (try_io (do_call h (Net (InterfaceByName devName)))) (\<lambda>err.
       if err = None then fail ErrDeviceExists
       else then_io (do_call h (Net (LinkAddBridge devName)))
           (then_io (do_call h (Net (AddrAdd devName ip msk)))
           (then_io (do_call h (Net (LinkSetUp devName)))
                    (net_InterfaceByName h devName))))"

definition DeleteNetBridge :: "host \<Rightarrow> string \<Rightarrow> unit io" where
  "DeleteNetBridge h devName = do_call h (Net (LinkDel devName))"

text \<open>The type assertion \<open>bridgeLink.(*netlink.Bridge)\<close> panics on another kind of link.\<close>

definition AttachNetBridge :: "host \<Rightarrow> string \<Rightarrow> string \<Rightarrow> unit io" where
  "AttachNetBridge h bridge client =
     bind_io (perform h (Net (LinkByName bridge)) (h_flag h)) (\<lambda>is_bridge.
     then_io (do_call h (Net (LinkByName client)))
       (if is_bridge then do_call h (Net (LinkSetMaster client bridge))
        else crash ''interface conversion: netlink.Link is not *netlink.Bridge''))"

definition CreateVethPair :: "host \<Rightarrow> string \<Rightarrow> (string \<times> string) io" where
  "CreateVethPair h namePrefix =
     (let hostVethName = namePrefix @ ''h''; siloVethName = namePrefix @ ''s'' in
      bind_io (try_io (do_call h (Net (InterfaceByName hostVethName)))) (\<lambda>err.
        if err = None then fail ErrDeviceExists
        else then_io (do_call h (Net (LinkAddVeth hostVethName siloVethName)))
            (then_io (do_call h (Net (LinkSetUp hostVethName)))
            (bind_io (net_InterfaceByName h hostVethName) (\<lambda>hostVeth.
             bind_io (net_InterfaceByName h siloVethName) (\<lambda>siloVeth.
               ret (hostVeth, siloVeth)))))))"

definition MoveVethToNamespace :: "host \<Rightarrow> string \<Rightarrow> int \<Rightarrow> unit io" where
  "MoveVethToNamespace h veth pid =
     then_io (do_call h (Net (LinkByName veth))) (do_call h (Net (LinkSetNsPid veth pid)))"

definition IPv4ForwardingEnabled :: "host \<Rightarrow> bool io" where
  "IPv4ForwardingEnabled h =
     bind_io (perform h (Fs (ReadFile ''/proc/sys/net/ipv4/ip_forward'')) (h_str h)) (\<lambda>d.
       if length d \<noteq> 2
       then fail (ErrNew (''expected single byte read, got '' @ FormatInt (int (length d))))
       else ret (hd d = CHR ''1''))"

definition IPv4EnableForwarding :: "host \<Rightarrow> bool \<Rightarrow> unit io" where
  "IPv4EnableForwarding h state =
     do_call h (Fs (WriteFile ''/proc/sys/net/ipv4/ip_forward'' (if state then ''1'' else ''0'') (oct 644)))"

section \<open>Network devices of a namespace\<close>

text \<open>
  A \<open>NamespaceNetlink\<close> is its file, named by the process whose namespace it opens; \<open>None\<close> once it
  is closed. \<open>Exec\<close> of the package \<open>netns\<close> enters the namespace, runs the callback and returns to the
  original one; a failure to return panics, and so does a panic of the callback.
\<close>

type_synonym NamespaceNetlink = "int option"

definition NamespaceNetOpen :: "host \<Rightarrow> int \<Rightarrow> NamespaceNetlink io" where
  "NamespaceNetOpen h pid =
     wrap_io (''namespace netlink for pid '' @ FormatInt pid @ '' failed: '')
       (bind_io (do_call h (Net (NsOpen pid))) (\<lambda>_. ret (Some pid)))"

definition netlink_Close :: "host \<Rightarrow> NamespaceNetlink \<Rightarrow> unit io" where
  "netlink_Close h n = (case n of Some pid \<Rightarrow> do_call h (Net (NsClose pid)) | None \<Rightarrow> ret ())"

text \<open>
  \<open>Exec\<close> keeps a handle of the namespace it is called in, which it closes however it ends (\<open>NsDrop\<close>). The
  error of getting it is dropped; the handle is then invalid, so that returning to it fails.
\<close>

definition netns_Exec :: "host \<Rightarrow> NamespaceNetlink \<Rightarrow> unit io \<Rightarrow> unit io" where
  "netns_Exec h n cb =
     bind_io (try_io (do_call h (Net NsGet))) (\<lambda>orig.
       defer_io (do_call h (Net NsDrop))
         (then_io (wrap_io ''set netns: '' (do_call h (Net (NsSet (case n of Some pid \<Rightarrow> pid | None \<Rightarrow> -1)))))
         (bind_io (try_io cb) (\<lambda>err.
          bind_io (if orig = None then try_io (do_call h (Net NsRestore)) else ret orig) (\<lambda>err2.
            case err2 of
              Some _ \<Rightarrow> crash ''mustSetNs''
            | None \<Rightarrow> (case err of Some e \<Rightarrow> fail e | None \<Rightarrow> ret ()))))))"

definition LinkAddAddress :: "host \<Rightarrow> NamespaceNetlink \<Rightarrow> string \<Rightarrow> ip \<Rightarrow> ipmask \<Rightarrow> unit io" where
  "LinkAddAddress h n device ip msk =
     netns_Exec h n (then_io (do_call h (Net (LinkByName device))) (do_call h (Net (AddrAdd device ip msk))))"

definition LinkSetState :: "host \<Rightarrow> NamespaceNetlink \<Rightarrow> string \<Rightarrow> bool \<Rightarrow> unit io" where
  "LinkSetState h n device up =
     netns_Exec h n
       (then_io (do_call h (Net (LinkByName device)))
          (if up then do_call h (Net (LinkSetUp device)) else do_call h (Net (LinkSetDown device))))"

definition AddRoute :: "host \<Rightarrow> NamespaceNetlink \<Rightarrow> string \<Rightarrow> unit io" where
  "AddRoute h n route = netns_Exec h n (do_call h (Net (RouteAdd route)))"

section \<open>The namespace the thread is in\<close>

text \<open>
  The network namespace of the calling thread after a trace: \<open>None\<close> for the host's, \<open>Some p\<close> for that
  of process \<open>p\<close>. Only the two calls of \<open>Exec\<close> change it, and only when they succeed.
\<close>

fun ns_step :: "int option \<Rightarrow> call \<times> gerr option \<Rightarrow> int option" where
  "ns_step s (Net (NsSet p), None) = Some p"
| "ns_step s (Net NsRestore, None) = None"
| "ns_step s _ = s"

definition ns_of :: "trace \<Rightarrow> int option" where
  "ns_of t = foldl ns_step None t"

lemma ns_of_snoc [simp]: "ns_of (t @ [e]) = ns_step (ns_of t) e"
  by (simp add: ns_of_def)

lemma ns_of_Nil [simp]: "ns_of [] = None"
  by (simp add: ns_of_def)

text \<open>
  The calls that change a network device, with the namespace they are made in. A routine is
  \<open>in_host\<close> if, started in the host's namespace, it returns there unless it panics.
\<close>

definition in_host :: "'a io \<Rightarrow> bool" where
  "in_host m \<longleftrightarrow> (\<forall>t r t'. ns_of t = None \<longrightarrow> m t = (r, t') \<longrightarrow> (\<forall>s. r \<noteq> Crash s) \<longrightarrow> ns_of t' = None)"

text \<open>A routine that never changes the namespace, however it ends.\<close>

definition ns_neutral :: "'a io \<Rightarrow> bool" where
  "ns_neutral m \<longleftrightarrow> (\<forall>t. ns_of (snd (m t)) = ns_of t)"

named_theorems ns_intros \<open>routines and the namespace of the thread\<close>

fun ns_call :: "call \<Rightarrow> bool" where
  "ns_call (Net (NsSet _)) = True"
| "ns_call (Net NsRestore) = True"
| "ns_call _ = False"

lemma ns_step_other: "\<not> ns_call c \<Longrightarrow> ns_step s (c, e) = s"
  by (cases "(s, c, e)" rule: ns_step.cases) auto

interpretation nn: trace_order "\<lambda>t t'. ns_of t' = ns_of t"
  by unfold_locales simp_all

lemma ns_neutral_follows: "ns_neutral m \<longleftrightarrow> follows (\<lambda>t t'. ns_of t' = ns_of t) m"
  by (simp add: ns_neutral_def follows_def)

lemma ns_neutral_perform [ns_intros]: "\<not> ns_call c \<Longrightarrow> ns_neutral (perform h c v)"
  by (simp add: ns_neutral_follows nn.follows_perform ns_step_other)

lemma ns_neutral_do_call [ns_intros]: "\<not> ns_call c \<Longrightarrow> ns_neutral (do_call h c)"
  by (simp add: do_call_def ns_neutral_perform)

lemmas ns_neutral_ret [ns_intros] = nn.follows_ret [folded ns_neutral_follows]
lemmas ns_neutral_fail [ns_intros] = nn.follows_fail [folded ns_neutral_follows]
lemmas ns_neutral_crash [ns_intros] = nn.follows_crash [folded ns_neutral_follows]
lemmas ns_neutral_bind [ns_intros] = nn.follows_bind [folded ns_neutral_follows]
lemmas ns_neutral_then [ns_intros] = nn.follows_then [folded ns_neutral_follows]
lemmas ns_neutral_catch [ns_intros] = nn.follows_catch [folded ns_neutral_follows]
lemmas ns_neutral_wrap [ns_intros] = nn.follows_wrap [folded ns_neutral_follows]
lemmas ns_neutral_ignore [ns_intros] = nn.follows_ignore [folded ns_neutral_follows]
lemmas ns_neutral_try [ns_intros] = nn.follows_try [folded ns_neutral_follows]
lemmas ns_neutral_if [ns_intros] = nn.follows_if [folded ns_neutral_follows]

lemma in_host_neutral: "ns_neutral m \<Longrightarrow> in_host m"
  unfolding in_host_def ns_neutral_def by (metis snd_conv)

lemma in_host_bind [ns_intros]:
  assumes "in_host m" "\<And>x. in_host (f x)"
  shows "in_host (bind_io m f)"
  unfolding in_host_def
proof (intro allI impI)
  fix t r t' assume t: "ns_of t = None" and b: "bind_io m f t = (r, t')" and r: "\<forall>s. r \<noteq> Crash s"
  obtain r1 t1 where m: "m t = (r1, t1)" by (cases "m t")
  show "ns_of t' = None"
  proof (cases r1)
    case (Ok x)
    with m t assms(1) have "ns_of t1 = None" unfolding in_host_def by fastforce
    moreover from b m Ok have "f x t1 = (r, t')" by (simp add: bind_io_def)
    ultimately show ?thesis using assms(2) r unfolding in_host_def by blast
  next
    case (Err e)
    with b m have "t' = t1" by (simp add: bind_io_def)
    with m t assms(1) Err show ?thesis unfolding in_host_def by fastforce
  next
    case (Crash s)
    with b m r show ?thesis by (auto simp: bind_io_def)
  qed
qed

lemma in_host_then [ns_intros]: "in_host m \<Longrightarrow> in_host k \<Longrightarrow> in_host (then_io m k)"
  by (simp add: then_io_def in_host_bind)

lemma in_host_if: "in_host m \<Longrightarrow> in_host m' \<Longrightarrow> in_host (if b then m else m')"
  by simp

text \<open>\<open>Exec\<close> returns in the host's namespace, or panics.\<close>

lemma in_host_Exec [ns_intros]:
  assumes "ns_neutral cb"
  shows "in_host (netns_Exec h n cb)"
  unfolding in_host_def
proof (intro allI impI)
  fix t r t' assume t: "ns_of t = None" and x: "netns_Exec h n cb t = (r, t')" and r: "\<forall>s. r \<noteq> Crash s"
  let ?p = "case n of Some pid \<Rightarrow> pid | None \<Rightarrow> -1" and ?e = "h_err h t (Net NsGet)"
  let ?t = "t @ [(Net NsGet, ?e)]"
  have drop: "ns_of (snd (ignore_io (do_call h (Net NsDrop)) u)) = ns_of u" for u
    using ns_neutral_ignore [OF ns_neutral_do_call, of "Net NsDrop" h] by (simp add: ns_neutral_def)
  have t1: "ns_of ?t = None" using t by (simp add: ns_step_other)
  show "ns_of t' = None"
  proof (cases "h_err h ?t (Net (NsSet ?p))")
    case (Some e)
    have "do_call h (Net (NsSet ?p)) ?t = (Err e, ?t @ [(Net (NsSet ?p), Some e)])"
      using Some by (simp add: do_call_err)
    with x [unfolded netns_Exec_def bind_try_call]
    have "t' = snd (ignore_io (do_call h (Net NsDrop)) (?t @ [(Net (NsSet ?p), Some e)]))"
      by (auto simp: defer_io_def then_io_def bind_io_def wrap_io_def catch_io_def fail_def)
    with drop have "ns_of t' = ns_step (ns_of ?t) (Net (NsSet ?p), Some e)" by (simp only: ns_of_snoc)
    with t1 show ?thesis by (simp only: ns_step.simps)
  next
    case None
    obtain r2 t2 where cb: "cb (?t @ [(Net (NsSet ?p), None)]) = (r2, t2)" by fastforce
    have e: "?e = None"
      using x None r cb by (cases ?e; cases r2) (auto simp: netns_Exec_def bind_try_call io_defs)
    have "h_err h t2 (Net NsRestore) = None \<and> t' = snd (ignore_io (do_call h (Net NsDrop)) (t2 @ [(Net NsRestore, None)]))"
      using x None r cb e by (cases r2; cases "h_err h t2 (Net NsRestore)") (auto simp: netns_Exec_def bind_try_call io_defs)
    with drop show ?thesis by simp
  qed
qed

lemmas ns_neutral_ops =
  ns_neutral_bind ns_neutral_then ns_neutral_do_call ns_neutral_perform ns_neutral_ret
  ns_neutral_fail ns_neutral_crash ns_neutral_try ns_neutral_wrap ns_neutral_if

lemma host_ops_neutral:
  "ns_neutral (CreateNetBridge h d i m)" "ns_neutral (CreateVethPair h p)" "ns_neutral (AttachNetBridge h b c)"
  "ns_neutral (MoveVethToNamespace h v pid)" "ns_neutral (IPv4ForwardingEnabled h)"
  "ns_neutral (DeleteNetBridge h d)" "ns_neutral (NamespaceNetOpen h pid)" "ns_neutral (netlink_Close h n)"
  unfolding CreateNetBridge_def CreateVethPair_def AttachNetBridge_def MoveVethToNamespace_def
    IPv4ForwardingEnabled_def DeleteNetBridge_def NamespaceNetOpen_def netlink_Close_def
    net_InterfaceByName_def Let_def
  by (auto intro!: ns_neutral_ops split: option.splits)

lemma in_host_ops:
  "in_host (LinkAddAddress h n d i m)" "in_host (LinkSetState h n d u)" "in_host (AddRoute h n r)"
  unfolding LinkAddAddress_def LinkSetState_def AddRoute_def
  by (auto intro!: in_host_Exec ns_neutral_ops)

end
