(* ===== verification/Interfaces.thy ===== *)
theory Interfaces
  imports IPPool Namespaces
begin

text \<open>
  The network interfaces of a silo (\<open>controller/interfaces.go\<close>): the loopback device and the pair of
  virtual ethernet devices behind a bridge, with their setup on the host and inside the silo's
  namespace and their teardown, which returns the addresses to the pool.
\<close>

section \<open>Data\<close>

record InterfaceInfo =
  info_Address :: string
  info_Name :: string
  info_Kind :: string

record StartupCommand =
  sc_Cmd :: string
  sc_Args :: "string list"
  sc_WaitForInterface :: string

text \<open>The implementations of Go's interface \<open>interf\<close>.\<close>

datatype interf = LoopbackInterface | IPInterf IPInterface

section \<open>Names of devices\<close>

definition dev_prefix :: "nat \<Rightarrow> string \<Rightarrow> string" where
  "dev_prefix index idHex = ''v'' @ FormatInt (int index) @ ''-'' @ idHex"

definition bridge_dev :: "nat \<Rightarrow> string \<Rightarrow> string" where
  "bridge_dev index idHex = ''b'' @ FormatInt (int index) @ ''-'' @ idHex"

definition host_dev :: "nat \<Rightarrow> string \<Rightarrow> string" where
  "host_dev index idHex = dev_prefix index idHex @ ''h''"

definition silo_dev :: "nat \<Rightarrow> string \<Rightarrow> string" where
  "silo_dev index idHex = dev_prefix index idHex @ ''s''"

section \<open>Operations\<close>

definition ip_Info :: "IPInterface \<Rightarrow> InterfaceInfo list" where
  "ip_Info i =
     [\<lparr>info_Address = IP_String (BridgeIP i), info_Name = bridgeName i, info_Kind = ''bridge''\<rparr>,
      \<lparr>info_Address = [], info_Name = hostVeth i, info_Kind = ''host-veth''\<rparr>,
      \<lparr>info_Address = IP_String (SiloIP i), info_Name = siloVeth i, info_Kind = ''silo-veth''\<rparr>]"

fun Info :: "interf \<Rightarrow> InterfaceInfo list" where
  "Info LoopbackInterface =
     [\<lparr>info_Address = ''127.0.0.1'', info_Name = ''lo'', info_Kind = ''loopback''\<rparr>]"
| "Info (IPInterf i) = ip_Info i"

fun SiloSetup :: "string \<Rightarrow> nat \<Rightarrow> interf \<Rightarrow> StartupCommand list" where
  "SiloSetup idHex index LoopbackInterface =
     [\<lparr>sc_Cmd = ''/bin/ifconfig'',
       sc_Args = [''lo'', ''127.0.0.1'', ''netmask'', ''255.0.0.0'', ''up''],
       sc_WaitForInterface = []\<rparr>]"
| "SiloSetup idHex index (IPInterf i) =
     (if InternetAccess i
      then [\<lparr>sc_Cmd = ''/bin/route'', sc_Args = [''add'', ''default'', ''gw'', IP_String (BridgeIP i)],
             sc_WaitForInterface = silo_dev index idHex\<rparr>]
      else [])"

definition nat_rule :: "IPInterface \<Rightarrow> string list" where
  "nat_rule i = [''-m'', ''physdev'', ''--physdev-in'', hostVeth i, ''-j'', ''MASQUERADE'']"

text \<open>
  \<open>IPInterface.Setup\<close> in the stages of the source: the check that the kernel forwards packets, the
  names, the devices up to the open namespace, and the rest, after which the namespace is closed.
\<close>

definition if_forwarding :: "host \<Rightarrow> IPInterface \<Rightarrow> unit io" where
  "if_forwarding h i =
     (if InternetAccess i
      then bind_io (IPv4ForwardingEnabled h) (\<lambda>forwardingEnabled.
             if \<not> forwardingEnabled
             then fail (ErrNew ''ipv4 forwarding not enabled in kernel, required'') else ret ())
      else ret ())"

definition if_named :: "string \<Rightarrow> nat \<Rightarrow> IPInterface \<Rightarrow> IPInterface" where
  "if_named idHex index i =
     i\<lparr>bridgeName := bridge_dev index idHex, hostVeth := host_dev index idHex,
       siloVeth := silo_dev index idHex\<rparr>"

definition if_devices :: "host \<Rightarrow> int \<Rightarrow> string \<Rightarrow> nat \<Rightarrow> IPInterface \<Rightarrow> NamespaceNetlink io" where
  "if_devices h pid idHex index i =
     bind_io (CreateNetBridge h (bridgeName i) (BridgeIP i) (BridgeMask i)) (\<lambda>bridge.
     bind_io (CreateVethPair h (dev_prefix index idHex)) (\<lambda>(hostDev, siloDev).
     then_io (AttachNetBridge h bridge hostDev)
    (then_io (MoveVethToNamespace h siloDev pid)
             (NamespaceNetOpen h pid))))"

definition if_address :: "host \<Rightarrow> NamespaceNetlink \<Rightarrow> IPInterface \<Rightarrow> unit io" where
  "if_address h n i =
     then_io (LinkAddAddress h n (siloVeth i) (SiloIP i) (SiloMask i))
             (LinkSetState h n (siloVeth i) True)"

definition if_masquerade :: "host \<Rightarrow> IPInterface \<Rightarrow> unit io" where
  "if_masquerade h i =
     (if InternetAccess i
      then do_call h (Net (IptAppendUnique ''nat'' ''POSTROUTING'' (nat_rule i))) else ret ())"

definition if_rules :: "host \<Rightarrow> IPInterface \<Rightarrow> trace \<Rightarrow> unit res \<times> IPInterface \<times> trace" where
  "if_rules h i t =
     (case do_call h (Net IptablesNew) t of
        (Ok _, t1) \<Rightarrow>
          (let i1 = i\<lparr>ipt := True\<rparr> in
           case if_masquerade h i1 t1 of
             (Ok _, t2) \<Rightarrow> (Ok (), i1\<lparr>isSetup := True\<rparr>, t2)
           | (Err e, t2) \<Rightarrow> (Err e, i1, t2)
           | (Crash s, t2) \<Rightarrow> (Crash s, i1, t2))
      | (Err e, t1) \<Rightarrow> (Err e, i\<lparr>ipt := False\<rparr>, t1)
      | (Crash s, t1) \<Rightarrow> (Crash s, i, t1))"

definition ip_Setup ::
  "host \<Rightarrow> int \<Rightarrow> string \<Rightarrow> nat \<Rightarrow> IPInterface \<Rightarrow> trace \<Rightarrow> unit res \<times> IPInterface \<times> trace" where
  "ip_Setup h pid idHex index i t =
     (case if_forwarding h i t of
        (Err e, t1) \<Rightarrow> (Err e, i, t1)
      | (Crash s, t1) \<Rightarrow> (Crash s, i, t1)
      | (Ok _, t1) \<Rightarrow>
        (let i1 = if_named idHex index i in
         case if_devices h pid idHex index i1 t1 of
           (Err e, t2) \<Rightarrow> (Err e, i1, t2)
         | (Crash s, t2) \<Rightarrow> (Crash s, i1, t2)
         | (Ok namespaceNet, t2) \<Rightarrow>
           (let (r, i2, t3) =
              (case if_address h namespaceNet i1 t2 of
                 (Err e, t3) \<Rightarrow> (Err e, i1, t3)
               | (Crash s, t3) \<Rightarrow> (Crash s, i1, t3)
               | (Ok _, t3) \<Rightarrow> if_rules h i1 t3)
            in (r, i2, snd (ignore_io (netlink_Close h namespaceNet) t3)))))"

fun Setup :: "host \<Rightarrow> int \<Rightarrow> string \<Rightarrow> nat \<Rightarrow> interf \<Rightarrow> trace \<Rightarrow> unit res \<times> interf \<times> trace" where
  "Setup h pid idHex index LoopbackInterface t = (Ok (), LoopbackInterface, t)"
| "Setup h pid idHex index (IPInterf i) t =
     (let (r, i', t') = ip_Setup h pid idHex index i t in (r, IPInterf i', t'))"

text \<open>
  \<open>Teardown\<close>: the calls, then the addresses. An interface that was not set up gives back its
  addresses only. \<open>i.ipt\<close> is dereferenced, so a nil one panics.
\<close>

definition if_remove :: "host \<Rightarrow> IPInterface \<Rightarrow> unit io" where
  "if_remove h i =
     then_io (if InternetAccess i
              then if ipt i then do_call h (Net (IptDelete ''nat'' ''POSTROUTING'' (nat_rule i)))
                   else crash ''nil pointer dereference''
              else ret ())
             (if bridgeName i \<noteq> [] then DeleteNetBridge h (bridgeName i) else ret ())"

definition if_free :: "IPInterface \<Rightarrow> IPPool \<Rightarrow> IPPool" where
  "if_free i p = (if Freeer i then FreeAssignment (Slice i) p else p)"

definition ip_Teardown :: "host \<Rightarrow> IPInterface \<Rightarrow> IPPool \<Rightarrow> trace \<Rightarrow> unit res \<times> IPPool \<times> trace" where
  "ip_Teardown h i p t =
     (if \<not> isSetup i then (Ok (), if_free i p, t)
      else (case if_remove h i t of
              (Ok _, t1) \<Rightarrow> (Ok (), if_free i p, t1)
            | (Err e, t1) \<Rightarrow> (Err e, p, t1)
            | (Crash s, t1) \<Rightarrow> (Crash s, p, t1)))"

fun Teardown :: "host \<Rightarrow> interf \<Rightarrow> IPPool \<Rightarrow> trace \<Rightarrow> unit res \<times> IPPool \<times> trace" where
  "Teardown h LoopbackInterface p t = (Ok (), p, t)"
| "Teardown h (IPInterf i) p t = ip_Teardown h i p t"


section \<open>Facts\<close>

definition fwd_events :: "IPInterface \<Rightarrow> trace" where
  "fwd_events i = (if InternetAccess i then [(Fs (ReadFile ''/proc/sys/net/ipv4/ip_forward''), None)] else [])"

definition masq_events :: "IPInterface \<Rightarrow> string \<Rightarrow> trace" where
  "masq_events i dev =
     (if InternetAccess i
      then [(Net (IptAppendUnique ''nat'' ''POSTROUTING''
                    [''-m'', ''physdev'', ''--physdev-in'', dev, ''-j'', ''MASQUERADE'']), None)] else [])"

lemma if_forwarding_ok: "if_forwarding h i t = (Ok x, t') \<Longrightarrow> t' = t @ fwd_events i"
  by (auto simp: if_forwarding_def fwd_events_def IPv4ForwardingEnabled_def io_ok split: if_splits)

lemma netns_Exec_ok:
  assumes "netns_Exec h (Some pid) cb t = (Ok x, t')"
  shows "\<exists>t1 e. cb (t @ [(Net NsGet, None), (Net (NsSet pid), None)]) = (Ok (), t1) \<and>
     t' = t1 @ [(Net NsRestore, None), (Net NsDrop, e)]"
proof -
  from assms obtain t1 where "h_err h t (Net NsGet) = None" "cb (t @ [(Net NsGet, None), (Net (NsSet pid), None)]) = (Ok (), t1)"
    "t' = snd (ignore_io (do_call h (Net NsDrop)) (t1 @ [(Net NsRestore, None)]))"
    by (auto simp: netns_Exec_def bind_try_call io_ok split: option.splits if_splits)
  with ignore_do_call [of h "Net NsDrop" "t1 @ [(Net NsRestore, None)]"] show ?thesis by auto
qed

lemma CreateNetBridge_ok:
  "CreateNetBridge h d i m t = (Ok x, t') \<Longrightarrow>
   x = d \<and> (\<exists>e. t' = t @ (Net (InterfaceByName d), Some e) #
     ok_events (map Net [LinkAddBridge d, AddrAdd d i m, LinkSetUp d, InterfaceByName d]))"
  by (auto simp: CreateNetBridge_def net_InterfaceByName_def ok_events_def io_ok split: if_splits option.splits)

lemma CreateVethPair_ok:
  "CreateVethPair h p t = (Ok x, t') \<Longrightarrow>
   x = (p @ ''h'', p @ ''s'') \<and> (\<exists>e. t' = t @ (Net (InterfaceByName (p @ ''h'')), Some e) #
     ok_events (map Net [LinkAddVeth (p @ ''h'') (p @ ''s''), LinkSetUp (p @ ''h''),
       InterfaceByName (p @ ''h''), InterfaceByName (p @ ''s'')]))"
  by (auto simp: CreateVethPair_def net_InterfaceByName_def Let_def ok_events_def io_ok
           split: if_splits option.splits)

lemma if_devices_ok:
  assumes "if_devices h pid idHex index i t = (Ok n, t')"
  shows "n = Some pid \<and> (\<exists>e1 e2. t' = t @
      (Net (InterfaceByName (bridgeName i)), Some e1) #
      ok_events (map Net [LinkAddBridge (bridgeName i), AddrAdd (bridgeName i) (BridgeIP i) (BridgeMask i),
        LinkSetUp (bridgeName i), InterfaceByName (bridgeName i)]) @
      (Net (InterfaceByName (host_dev index idHex)), Some e2) #
      ok_events (map Net [LinkAddVeth (host_dev index idHex) (silo_dev index idHex),
        LinkSetUp (host_dev index idHex), InterfaceByName (host_dev index idHex),
        InterfaceByName (silo_dev index idHex),
        LinkByName (bridgeName i), LinkByName (host_dev index idHex),
        LinkSetMaster (host_dev index idHex) (bridgeName i),
        LinkByName (silo_dev index idHex), LinkSetNsPid (silo_dev index idHex) pid, NsOpen pid]))"
  using assms
  by (auto simp: if_devices_def AttachNetBridge_def MoveVethToNamespace_def NamespaceNetOpen_def io_ok
        ok_events_def host_dev_def silo_dev_def
      dest!: CreateNetBridge_ok CreateVethPair_ok split: if_splits)

lemma if_address_ok:
  assumes "if_address h (Some pid) i t = (Ok x, t')"
  shows "\<exists>d1 d2. t' = t @ ok_events (map Net [NsGet, NsSet pid, LinkByName (siloVeth i),
      AddrAdd (siloVeth i) (SiloIP i) (SiloMask i), NsRestore]) @ (Net NsDrop, d1) #
      ok_events (map Net [NsGet, NsSet pid, LinkByName (siloVeth i), LinkSetUp (siloVeth i), NsRestore]) @ [(Net NsDrop, d2)]"
  using assms
  by (fastforce simp: if_address_def LinkAddAddress_def LinkSetState_def io_ok ok_events_def dest!: netns_Exec_ok)

lemma if_rules_ok:
  assumes "if_rules h i t = (Ok x, i', t')"
  shows "i' = i\<lparr>ipt := True, isSetup := True\<rparr> \<and> t' = t @ (Net IptablesNew, None) # masq_events i (hostVeth i)"
  using assms
  by (auto simp: if_rules_def if_masquerade_def nat_rule_def masq_events_def io_ok Let_def
      split: prod.splits res.splits if_splits)

text \<open>The calls of a setup that succeeds.\<close>

definition setup_events ::
  "IPInterface \<Rightarrow> int \<Rightarrow> string \<Rightarrow> nat \<Rightarrow> gerr \<Rightarrow> gerr \<Rightarrow> gerr option \<Rightarrow> gerr option \<Rightarrow> gerr option \<Rightarrow> trace" where
  "setup_events i pid idHex index e1 e2 d1 d2 ec =
     (let b = bridge_dev index idHex; hv = host_dev index idHex; sv = silo_dev index idHex in
      fwd_events i @
      (Net (InterfaceByName b), Some e1) #
      ok_events (map Net [LinkAddBridge b, AddrAdd b (BridgeIP i) (BridgeMask i), LinkSetUp b,
        InterfaceByName b]) @
      (Net (InterfaceByName hv), Some e2) #
      ok_events (map Net [LinkAddVeth hv sv, LinkSetUp hv, InterfaceByName hv, InterfaceByName sv,
        LinkByName b, LinkByName hv, LinkSetMaster hv b,
        LinkByName sv, LinkSetNsPid sv pid, NsOpen pid,
        NsGet, NsSet pid, LinkByName sv, AddrAdd sv (SiloIP i) (SiloMask i), NsRestore]) @ (Net NsDrop, d1) #
      ok_events (map Net [NsGet, NsSet pid, LinkByName sv, LinkSetUp sv, NsRestore]) @ (Net NsDrop, d2) #
      (Net IptablesNew, None) # masq_events i hv @ [(Net (NsClose pid), ec)])"

lemma ip_Setup_ok:
  assumes "ip_Setup h pid idHex index i t = (Ok x, i', t')"
  shows "i' = (if_named idHex index i)\<lparr>ipt := True, isSetup := True\<rparr> \<and>
         (\<exists>e1 e2 d1 d2 ec. t' = t @ setup_events i pid idHex index e1 e2 d1 d2 ec)"
proof -
  let ?i1 = "if_named idHex index i"
  obtain t1 n t2 t3 t4 where s: "if_forwarding h i t = (Ok (), t1)"
    "if_devices h pid idHex index ?i1 t1 = (Ok n, t2)" "if_address h n ?i1 t2 = (Ok (), t3)"
    "if_rules h ?i1 t3 = (Ok (), i', t4)" "t' = snd (ignore_io (netlink_Close h n) t4)"
    using assms by (auto simp: ip_Setup_def Let_def split: prod.splits res.splits)
  from if_devices_ok [OF s(2)] have n: "n = Some pid" by simp
  obtain ec where "t' = t4 @ [(Net (NsClose pid), ec)]"
    using ignore_do_call [of h "Net (NsClose pid)" t4] s(5) n by (auto simp: netlink_Close_def)
  with if_forwarding_ok [OF s(1)] if_devices_ok [OF s(2)] if_address_ok [OF s(3) [unfolded n]]
    if_rules_ok [OF s(4)]
  show ?thesis
    by (auto simp: setup_events_def Let_def if_named_def ok_events_def fwd_events_def masq_events_def)
qed

text \<open>What a setup changes of the interface, however it ends.\<close>

definition if_wf :: "IPInterface \<Rightarrow> bool" where
  "if_wf i \<longleftrightarrow> (isSetup i \<longrightarrow> ipt i \<and> bridgeName i \<noteq> [])"

lemma ip_Setup_frame:
  assumes "ip_Setup h pid idHex index i t = (r, i', t')"
  shows "BridgeIP i' = BridgeIP i" "BridgeMask i' = BridgeMask i" "SiloIP i' = SiloIP i"
    "SiloMask i' = SiloMask i" "InternetAccess i' = InternetAccess i" "Slice i' = Slice i"
    "Freeer i' = Freeer i"
  using assms
  by (auto simp: ip_Setup_def if_rules_def if_named_def Let_def split: prod.splits res.splits)

lemma ip_Setup_isSetup:
  assumes "ip_Setup h pid idHex index i t = (r, i', t')" "\<not> isSetup i"
  shows "isSetup i' \<longleftrightarrow> r = Ok ()" "if_wf i'"
  using assms
  by (auto simp: ip_Setup_def if_rules_def if_named_def if_wf_def bridge_dev_def Let_def
           split: prod.splits res.splits)


subsection \<open>Names of devices\<close>

lemma dec_dash_cancel:
  assumes "dec_digits m @ CHR ''-'' # x = dec_digits n @ CHR ''-'' # y"
  shows "m = n \<and> x = y"
proof -
  have d: "takeWhile (\<lambda>c. c \<noteq> CHR ''-'') (dec_digits k @ CHR ''-'' # z) = dec_digits k" for k z
    using dec_digits_are_digits [of k] digit_not_special
    by (subst takeWhile_append2) (auto simp: list_all_iff)
  from assms d [of m x] d [of n y] have "dec_digits m = dec_digits n" by metis
  with assms show ?thesis using dec_digits_inj by auto
qed

lemma dev_prefix_inj: "dev_prefix i x = dev_prefix j y \<longleftrightarrow> i = j \<and> x = y"
  by (auto simp: dev_prefix_def FormatInt_def dest: dec_dash_cancel)

lemma bridge_dev_inj: "bridge_dev i x = bridge_dev j y \<longleftrightarrow> i = j \<and> x = y"
  by (auto simp: bridge_dev_def FormatInt_def dest: dec_dash_cancel)

lemma dev_length: "i < 10000 \<Longrightarrow> length (FormatInt (int i)) \<le> 4"
  by (simp add: FormatInt_def) (subst dec_digits.simps, simp add: dec_digits.simps)+

subsection \<open>The contract of an interface\<close>

text \<open>
  What \<open>Silo\<close> relies on of its interfaces: setting one up does not change the addresses it owes
  to the pool; a teardown that succeeds gives back exactly those, one that fails gives back none.
\<close>

fun setup_loop ::
  "(nat \<Rightarrow> 'i \<Rightarrow> trace \<Rightarrow> unit res \<times> 'i \<times> trace) \<Rightarrow> nat \<Rightarrow> 'i list \<Rightarrow> trace \<Rightarrow> unit res \<times> 'i list \<times> trace" where
  "setup_loop f k [] t = (Ok (), [], t)"
| "setup_loop f k (i # is) t =
     (case f k i t of
        (Ok _, i', t') \<Rightarrow> (let (r, is', t2) = setup_loop f (Suc k) is t' in (r, i' # is', t2))
      | (Err e, i', t') \<Rightarrow> (Err (ErrWrap ''interface setup failed: '' e), i' # is, t')
      | (Crash s, i', t') \<Rightarrow> (Crash s, i' # is, t'))"

fun teardown_loop ::
  "('i \<Rightarrow> IPPool \<Rightarrow> trace \<Rightarrow> unit res \<times> IPPool \<times> trace) \<Rightarrow> 'i list \<Rightarrow> IPPool \<Rightarrow> trace \<Rightarrow>
   unit res \<times> IPPool \<times> trace" where
  "teardown_loop f [] p t = (Ok (), p, t)"
| "teardown_loop f (i # is) p t =
     (case f i p t of
        (Ok _, p', t') \<Rightarrow> teardown_loop f is p' t'
      | (Err e, p', t') \<Rightarrow> (Err e, p', t')
      | (Crash s, p', t') \<Rightarrow> (Crash s, p', t'))"

lemma FreeAssignment_append: "FreeAssignment ys (FreeAssignment xs p) = FreeAssignment (xs @ ys) p"
  by (simp add: FreeAssignment_def)

lemma FreeAssignment_Nil [simp]: "FreeAssignment [] p = p"
  by (simp add: FreeAssignment_def)

locale interface_contract =
  fixes iset :: "nat \<Rightarrow> 'i \<Rightarrow> trace \<Rightarrow> unit res \<times> 'i \<times> trace"
    and idown :: "'i \<Rightarrow> IPPool \<Rightarrow> trace \<Rightarrow> unit res \<times> IPPool \<times> trace"
    and owes :: "'i \<Rightarrow> ip list"
  assumes setup_owes: "iset k i t = (r, i', t') \<Longrightarrow> owes i' = owes i"
    and teardown_ok: "idown i p t = (Ok (), p', t') \<Longrightarrow> p' = FreeAssignment (owes i) p"
    and teardown_failed: "idown i p t = (r, p', t') \<Longrightarrow> r \<noteq> Ok () \<Longrightarrow> p' = p"
begin

lemma setup_loop_owes:
  "setup_loop iset k is t = (r, is', t') \<Longrightarrow> map owes is' = map owes is"
proof (induction "is" arbitrary: k t is')
  case (Cons i "is")
  then show ?case
    by (auto simp: Let_def dest: setup_owes split: prod.splits res.splits)
qed simp

lemma teardown_loop_frees:
  "teardown_loop idown is p t = (r, p', t') \<Longrightarrow>
   \<exists>n. n \<le> length is \<and> (r = Ok () \<longleftrightarrow> n = length is) \<and> p' = FreeAssignment (concat (map owes (take n is))) p"
proof (induction "is" arbitrary: p t)
  case (Cons i "is")
  obtain r1 p1 t1 where f: "idown i p t = (r1, p1, t1)" by (cases "idown i p t")
  show ?case
  proof (cases "r1 = Ok ()")
    case True
    with f Cons.prems have "teardown_loop idown is p1 t1 = (r, p', t')" by simp
    then obtain n where n: "n \<le> length is" "r = Ok () \<longleftrightarrow> n = length is"
      "p' = FreeAssignment (concat (map owes (take n is))) p1"
      using Cons.IH by blast
    have "p1 = FreeAssignment (owes i) p" using f True teardown_ok by simp
    with n show ?thesis
      by (intro exI [of _ "Suc n"]) (simp add: FreeAssignment_append)
  next
    case False
    with f Cons.prems have "p' = p1" "r \<noteq> Ok ()" by (auto split: res.splits)
    with teardown_failed [OF f False] show ?thesis by (intro exI [of _ 0]) simp
  qed
qed simp

end

fun if_owes :: "interf \<Rightarrow> ip list" where
  "if_owes LoopbackInterface = []"
| "if_owes (IPInterf i) = (if Freeer i then Slice i else [])"

lemma Setup_owes: "Setup h pid idHex k i t = (r, i', t') \<Longrightarrow> if_owes i' = if_owes i"
  by (cases i) (auto split: prod.splits dest: ip_Setup_frame)

lemma Teardown_ok: "Teardown h i p t = (Ok (), p', t') \<Longrightarrow> p' = FreeAssignment (if_owes i) p"
  by (cases i) (auto simp: ip_Teardown_def if_free_def split: if_splits prod.splits res.splits)

lemma Teardown_failed: "Teardown h i p t = (r, p', t') \<Longrightarrow> r \<noteq> Ok () \<Longrightarrow> p' = p"
  by (cases i) (auto simp: ip_Teardown_def split: if_splits prod.splits res.splits)

interpretation si: interface_contract "Setup h pid idHex" "Teardown h" if_owes for h pid idHex
  by unfold_locales (simp_all add: Setup_owes Teardown_ok Teardown_failed)

subsection \<open>Namespaces\<close>

text \<open>The calls of a piece of trace, each with the namespace it is made in.\<close>

fun ns_log :: "int option \<Rightarrow> trace \<Rightarrow> (call \<times> int option) list" where
  "ns_log s [] = []"
| "ns_log s (e # es) = (fst e, s) # ns_log (ns_step s e) es"

lemma in_host_address: "in_host (if_address h n i)"
  unfolding if_address_def by (intro in_host_then in_host_ops)

lemma neutral_parts:
  "ns_neutral (if_forwarding h i)" "ns_neutral (if_devices h pid x k i)" "ns_neutral (if_masquerade h i)"
  unfolding if_forwarding_def if_devices_def if_masquerade_def
  by (auto intro!: ns_neutral_ops host_ops_neutral)

lemma if_rules_ns: "if_rules h i t = (r, i', t') \<Longrightarrow> ns_of t' = ns_of t"
proof -
  have n: "ns_neutral (do_call h (Net IptablesNew))" by (simp add: ns_neutral_do_call)
  assume "if_rules h i t = (r, i', t')"
  then show ?thesis
    using n neutral_parts(3)
    by (auto simp: if_rules_def Let_def ns_neutral_def split: prod.splits res.splits)
       (metis snd_conv)+
qed


lemma ip_Setup_ns:
  assumes s: "ip_Setup h pid idHex index i t = (r, i', t')" and t: "ns_of t = None" and r: "\<forall>s. r \<noteq> Crash s"
  shows "ns_of t' = None"
proof -
  let ?i1 = "if_named idHex index i"
  obtain r1 t1 where f: "if_forwarding h i t = (r1, t1)" by fastforce
  then have t1: "ns_of t1 = None" using t neutral_parts(1) by (metis ns_neutral_def snd_conv)
  obtain r2 t2 where d: "if_devices h pid idHex index ?i1 t1 = (r2, t2)" by fastforce
  then have t2: "ns_of t2 = None" using t1 neutral_parts(2) by (metis ns_neutral_def snd_conv)
  show ?thesis
  proof (cases "\<exists>x n. r1 = Ok x \<and> r2 = Ok n")
    case False
    then show ?thesis using s f d t1 t2 by (auto simp: ip_Setup_def Let_def split: res.splits)
  next
    case True
    then obtain x n where x: "r1 = Ok x" "r2 = Ok n" by blast
    obtain r3 t3 where a: "if_address h n ?i1 t2 = (r3, t3)" by fastforce
    obtain r4 i4 t4 where u: "if_rules h ?i1 t3 = (r4, i4, t4)" by (cases "if_rules h ?i1 t3")
    have c: "ns_of (snd (ignore_io (netlink_Close h n) tt)) = ns_of tt" for tt
      using ns_neutral_ignore [OF host_ops_neutral(8)] by (simp add: ns_neutral_def)
    show ?thesis
    proof (cases "\<exists>s. r3 = Crash s")
      case True
      then show ?thesis using s f d x a r by (auto simp: ip_Setup_def)
    next
      case False
      then have "ns_of t3 = None" using in_host_address a t2 unfolding in_host_def by blast
      moreover from this have "ns_of t4 = None" using if_rules_ns [OF u] by simp
      ultimately show ?thesis using s f d x a u c False
        by (cases r3) (auto simp: ip_Setup_def)
    qed
  qed
qed

lemma setup_events_ns:
  "filter (\<lambda>(c, s). s \<noteq> None) (ns_log None (setup_events i pid idHex index e1 e2 d1 d2 ec)) =
     map (\<lambda>c. (Net c, Some pid))
       [LinkByName (silo_dev index idHex), AddrAdd (silo_dev index idHex) (SiloIP i) (SiloMask i), NsRestore,
        LinkByName (silo_dev index idHex), LinkSetUp (silo_dev index idHex), NsRestore]"
  by (cases "InternetAccess i")
     (simp_all add: setup_events_def Let_def fwd_events_def masq_events_def ok_events_def)

section \<open>Properties\<close>

text \<open>
  C27. Setting up an interface configures it where it belongs. When \<open>Setup\<close> of an IP interface
  succeeds it has made exactly the calls of \<open>setup_events\<close>, in that order (the bridge with its address,
  the pair of devices, the host end attached to the bridge, the silo end moved to the namespace of
  the child and given its address there, the address translation rule if the interface has
  internet access). All of them are made in the namespace of the host, but for the configuration of the silo's end,
  which is made in the namespace of the child. The interface is marked as set up with
  the names of its three devices, and the rest of it is unchanged.
\<close>

theorem interface_setup_calls:
  assumes "Setup h pid idHex index (IPInterf i) t = (Ok (), j, t')" and "ns_of t = None"
  shows "j = IPInterf (i\<lparr>bridgeName := bridge_dev index idHex, hostVeth := host_dev index idHex,
             siloVeth := silo_dev index idHex, ipt := True, isSetup := True\<rparr>) \<and>
         (\<exists>e1 e2 d1 d2 ec. t' = t @ setup_events i pid idHex index e1 e2 d1 d2 ec \<and>
            filter (\<lambda>(c, s). s \<noteq> None) (ns_log (ns_of t) (setup_events i pid idHex index e1 e2 d1 d2 ec)) =
            map (\<lambda>c. (Net c, Some pid))
              [LinkByName (silo_dev index idHex), AddrAdd (silo_dev index idHex) (SiloIP i) (SiloMask i), NsRestore,
               LinkByName (silo_dev index idHex), LinkSetUp (silo_dev index idHex), NsRestore])"
proof -
  from assms(1) have "ip_Setup h pid idHex index i t = (Ok (), (case j of IPInterf k \<Rightarrow> k | _ \<Rightarrow> i), t')"
    and j: "\<exists>k. j = IPInterf k" by (auto split: prod.splits)
  from ip_Setup_ok [OF this(1)] j
  have "j = IPInterf (i\<lparr>bridgeName := bridge_dev index idHex, hostVeth := host_dev index idHex,
              siloVeth := silo_dev index idHex, ipt := True, isSetup := True\<rparr>)"
    and "\<exists>e1 e2 d1 d2 ec. t' = t @ setup_events i pid idHex index e1 e2 d1 d2 ec"
    by (auto simp: if_named_def)
  with setup_events_ns assms(2) show ?thesis by auto
qed

text \<open>
  C29. The thread that sets up an interface is back in the namespace of the host whenever \<open>Setup\<close>
  returns, with an error or without one; the only other outcome is a panic.
\<close>

theorem interface_setup_returns_to_host:
  assumes "Setup h pid idHex index i t = (r, j, t')" and "ns_of t = None" and "\<forall>s. r \<noteq> Crash s"
  shows "ns_of t' = None"
  using assms by (cases i) (auto dest: ip_Setup_ns split: prod.splits)

text \<open>
  C35. The names of the devices of an interface do not clash: two devices of the same or of different
  kinds, of interfaces with different positions or of silos with different identifiers, have
  different names (the identifiers are random and the code does not check that they differ); and with an
  identifier of eight characters and a position below 10000 they fit into the 15 characters the kernel allows.
\<close>

theorem device_names_distinct:
  "((i, x) \<noteq> (j, y) \<longrightarrow> bridge_dev i x \<noteq> bridge_dev j y \<and> host_dev i x \<noteq> host_dev j y \<and>
      silo_dev i x \<noteq> silo_dev j y) \<and>
   host_dev i x \<noteq> silo_dev j y \<and> bridge_dev i x \<noteq> host_dev j y \<and> bridge_dev i x \<noteq> silo_dev j y \<and>
   (length x = 8 \<and> i < 10000 \<longrightarrow>
      length (bridge_dev i x) \<le> 15 \<and> length (host_dev i x) \<le> 15 \<and> length (silo_dev i x) \<le> 15)"
  using dev_length [of i]
  by (auto simp: bridge_dev_inj dev_prefix_inj host_dev_def silo_dev_def)
     (auto simp: bridge_dev_def dev_prefix_def)

text \<open>
  Tearing down the interfaces of a silo gives back their addresses: the loop of \<open>Close\<close> puts the
  addresses of the interfaces it got through on the free list of the pool, in order, each once; when
  it succeeds those are all of them, and when it stops at an error the addresses of the interface
  that failed and of those after it stay out of the pool. A setup before it changes none of this.
\<close>

theorem teardown_returns_addresses:
  assumes "setup_loop (Setup h pid idHex) 0 is t = (r, is', t1)"
    and "teardown_loop (Teardown h) is' p t2 = (r', p', t3)"
  shows "\<exists>n. n \<le> length is \<and> (r' = Ok () \<longleftrightarrow> n = length is) \<and>
           pool_free p' = pool_free p @ concat (map if_owes (take n is)) \<and>
           Subnet p' = Subnet p \<and> lastFromPool p' = lastFromPool p"
proof -
  have o: "map if_owes is' = map if_owes is" by (rule si.setup_loop_owes [OF assms(1)])
  moreover from o have "length is' = length is" by (rule map_eq_imp_length_eq)
  moreover from si.teardown_loop_frees [OF assms(2)] obtain n where
    "n \<le> length is'" "r' = Ok () \<longleftrightarrow> n = length is'"
    "p' = FreeAssignment (concat (map if_owes (take n is'))) p" by blast
  ultimately show ?thesis
    by (intro exI [of _ n]) (simp add: FreeAssignment_def flip: take_map)
qed

definition ex_if :: IPInterface where
  "ex_if = \<lparr>isSetup = False, BridgeIP = IPv4 10 0 0 1, BridgeMask = mask30, SiloIP = IPv4 10 0 0 2,
            SiloMask = mask30, bridgeName = [], hostVeth = [], siloVeth = [], InternetAccess = False,
            Slice = [IPv4 10 0 0 1, IPv4 10 0 0 2, IPv4 10 0 0 3, IPv4 10 0 0 4], Freeer = True, ipt = False\<rparr>"

text \<open>A host on which the two device names looked up first are not taken.\<close>

definition ex_host :: host where
  "ex_host = calm\<lparr>h_err := (\<lambda>t c. if t = [] \<or> length t = 5 then Some ENOENT else None)\<rparr>"

definition ex_setup :: "unit res \<times> interf \<times> trace" where
  "ex_setup = Setup ex_host 7 ''0a0b0c0d'' 0 (IPInterf ex_if) []"

lemma ex_setup_ok: "fst ex_setup = Ok ()"
  by code_simp

theorem interface_setup_calls_witness:
  "\<exists>e1 e2 d1 d2 ec. snd (snd ex_setup) = setup_events ex_if 7 ''0a0b0c0d'' 0 e1 e2 d1 d2 ec"
proof -
  have "Setup ex_host 7 ''0a0b0c0d'' 0 (IPInterf ex_if) [] = (Ok (), fst (snd ex_setup), snd (snd ex_setup))"
    using ex_setup_ok by (metis ex_setup_def prod.collapse)
  from interface_setup_calls [OF this ns_of_Nil] show ?thesis by simp blast
qed

theorem interface_setup_returns_to_host_witness: "ns_of (snd (snd ex_setup)) = None"
proof -
  have "Setup ex_host 7 ''0a0b0c0d'' 0 (IPInterf ex_if) [] = (Ok (), fst (snd ex_setup), snd (snd ex_setup))"
    using ex_setup_ok by (metis ex_setup_def prod.collapse)
  from interface_setup_returns_to_host [OF this ns_of_Nil] show ?thesis by simp
qed

theorem device_names_distinct_witness:
  "bridge_dev 0 ''0a0b0c0d'' \<noteq> bridge_dev 1 ''0a0b0c0d'' \<and> length (silo_dev 9999 ''0a0b0c0d'') \<le> 15"
  using device_names_distinct [of 0 "''0a0b0c0d''" 1 "''0a0b0c0d''"]
    device_names_distinct [of 9999 "''0a0b0c0d''" 0 "[]"] by simp

definition ex_bare_pool :: IPPool where
  "ex_bare_pool = \<lparr>Subnet = \<lparr>net_IP = IPv4 10 0 0 0, net_Mask = mask30\<rparr>, lastFromPool = IPv4 10 0 0 4, pool_free = []\<rparr>"

definition ex_ups :: "unit res \<times> interf list \<times> trace" where
  "ex_ups = setup_loop (Setup ex_host 7 ''0a0b0c0d'') 0 [IPInterf ex_if] []"

definition ex_downs :: "unit res \<times> IPPool \<times> trace" where
  "ex_downs = teardown_loop (Teardown ex_host) (fst (snd ex_ups)) ex_bare_pool (snd (snd ex_ups))"

lemma ex_downs_ok: "fst ex_downs = Ok ()"
  by code_simp

theorem teardown_returns_addresses_witness: "pool_free (fst (snd ex_downs)) = Slice ex_if"
proof -
  have "setup_loop (Setup ex_host 7 ''0a0b0c0d'') 0 [IPInterf ex_if] [] =
      (fst ex_ups, fst (snd ex_ups), snd (snd ex_ups))"
    "teardown_loop (Teardown ex_host) (fst (snd ex_ups)) ex_bare_pool (snd (snd ex_ups)) =
      (Ok (), fst (snd ex_downs), snd (snd ex_downs))"
    using ex_downs_ok by (metis ex_ups_def ex_downs_def prod.collapse)+
  from teardown_returns_addresses [OF this] show ?thesis
    by (simp add: ex_bare_pool_def ex_if_def)
qed

text \<open>
  A setup that fails leaves its devices behind. When the name of the second device is
  taken, \<open>Setup\<close> of an IP interface returns the error with the bridge created and not removed; the
  teardown after it succeeds, gives the addresses back and does not remove the bridge either. (On
  such a host the bridge keeps an address that the pool hands out again.)
\<close>

theorem failed_setup_leaves_bridge:
  "\<exists>h r j t p' t'. Setup h 7 ''0a0b0c0d'' 0 (IPInterf ex_if) [] = (Err r, j, t) \<and>
     Teardown h j ex_bare_pool t = (Ok (), p', t') \<and> pool_free p' = Slice ex_if \<and>
     (Net (LinkAddBridge (bridge_dev 0 ''0a0b0c0d'')), None) \<in> set t' \<and>
     (\<forall>e. (Net (LinkDel (bridge_dev 0 ''0a0b0c0d'')), e) \<notin> set t')"
proof -
  let ?h = "calm\<lparr>h_err := (\<lambda>t c. if t = [] then Some ENOENT else None)\<rparr>"
  let ?s = "Setup ?h 7 ''0a0b0c0d'' 0 (IPInterf ex_if) []"
  let ?d = "Teardown ?h (fst (snd ?s)) ex_bare_pool (snd (snd ?s))"
  have "fst ?s = Err ErrDeviceExists \<and> fst ?d = Ok () \<and> pool_free (fst (snd ?d)) = Slice ex_if \<and>
    (Net (LinkAddBridge (bridge_dev 0 ''0a0b0c0d'')), None) \<in> set (snd (snd ?d)) \<and>
    list_all (\<lambda>(c, e). c \<noteq> Net (LinkDel (bridge_dev 0 ''0a0b0c0d''))) (snd (snd ?d))"
    by code_simp
  then show ?thesis
    by (intro exI [of _ ?h] exI [of _ ErrDeviceExists] exI [of _ "fst (snd ?s)"] exI [of _ "snd (snd ?s)"]
        exI [of _ "fst (snd ?d)"] exI [of _ "snd (snd ?d)"]) (auto simp: prod_eq_iff list_all_iff)
qed

end
