(* ===== verification/CGroups.thy ===== *)
theory CGroups
  imports Host
begin

text \<open>
  Package \<open>colex\<close>, control groups: the mount point of a subsystem, the two groups a silo gets, the
  limits written into them, and their removal.
\<close>

section \<open>Data\<close>

record CGroupConfig =
  CPUTimeBetweenPeriodsUS :: int
  CPUTimePerPeriodUS :: int
  MemoryMaxBytes :: int

record CGroupSet =
  cg_ID :: string
  cg_PID :: int
  CPUGroupPath :: string
  MemoryGroupPath :: string

section \<open>Operations\<close>

definition writeValue :: "host \<Rightarrow> string \<Rightarrow> string \<Rightarrow> string \<Rightarrow> unit io" where
  "writeValue h dir file d = do_call h (Fs (WriteFile (path_Join [dir, file]) d (oct 700)))"

text \<open>
  The search of \<open>/proc/self/mountinfo\<close>: the first line one of whose options, in the last field, is
  the subsystem, and the fifth field of that line; the index is out of range if it has fewer.
\<close>

fun mount_search :: "string \<Rightarrow> string list \<Rightarrow> string list option" where
  "mount_search subsystem [] = None"
| "mount_search subsystem (txt # ls) =
     (let flds = Split txt (CHR '' '') in
      if subsystem \<in> set (Split (last flds) (CHR '','')) then Some flds
      else mount_search subsystem ls)"

definition GetSubsystemMountpoint :: "host \<Rightarrow> string \<Rightarrow> string io" where
  "GetSubsystemMountpoint h subsystem =
     then_io (do_call h (Fs (OpenRead ''/proc/self/mountinfo'')))
    (bind_io (read_io h ''/proc/self/mountinfo'') (\<lambda>d.
       let (ls, err) = Scan d in
       case mount_search subsystem ls of
         Some flds \<Rightarrow> if length flds \<le> 4 then crash ''index out of range'' else ret (flds ! 4)
       | None \<Rightarrow> (case err of
           Some e \<Rightarrow> fail e
         | None \<Rightarrow> fail (ErrNew (''Mountpoint not found: '' @ subsystem)))))"

text \<open>\<open>os.MkdirAll\<close> where an existing directory is no error.\<close>

definition mkdir_all :: "host \<Rightarrow> string \<Rightarrow> nat \<Rightarrow> unit io" where
  "mkdir_all h path mode =
     catch_io (do_call h (Fs (MkdirAll path mode))) (\<lambda>e. if IsExist e then ret () else fail e)"

definition newMemoryGroup :: "host \<Rightarrow> string \<Rightarrow> int \<Rightarrow> CGroupConfig \<Rightarrow> string io" where
  "newMemoryGroup h idn pid c =
     bind_io (GetSubsystemMountpoint h ''memory'') (\<lambda>subsystemPath.
       let path = path_Join [subsystemPath, idn] in
       then_io (mkdir_all h path (oct 755))
      (then_io (if MemoryMaxBytes c \<noteq> 0
                then writeValue h path ''memory.limit_in_bytes'' (FormatInt (MemoryMaxBytes c)) else ret ())
      (then_io (writeValue h path ''cgroup.procs'' (FormatInt pid))
               (ret path))))"

definition newCPUGroup :: "host \<Rightarrow> string \<Rightarrow> int \<Rightarrow> string io" where
  "newCPUGroup h idn pid =
     bind_io (GetSubsystemMountpoint h ''cpu'') (\<lambda>subsystemPath.
       let path = path_Join [subsystemPath, idn] in
       then_io (mkdir_all h path (oct 755))
      (then_io (writeValue h path ''cgroup.procs'' (FormatInt pid))
               (ret path)))"

definition setCPUGroupStats :: "host \<Rightarrow> string \<Rightarrow> CGroupConfig \<Rightarrow> unit io" where
  "setCPUGroupStats h path c =
     then_io (if CPUTimeBetweenPeriodsUS c \<noteq> 0
              then writeValue h path ''cpu.cfs_period_us'' (FormatInt (CPUTimeBetweenPeriodsUS c)) else ret ())
             (if CPUTimePerPeriodUS c \<noteq> 0
              then writeValue h path ''cpu.cfs_quota_us'' (FormatInt (CPUTimePerPeriodUS c)) else ret ())"

text \<open>
  \<open>CGroupSet.Close\<close>: the error of the removal is dropped; what counts is whether the path can still
  be looked up with an error other than its absence.
\<close>

definition cg_Close :: "host \<Rightarrow> CGroupSet \<Rightarrow> unit io" where
  "cg_Close h s =
     each_io (\<lambda>path.
       if path \<noteq> [] then
         then_io (ignore_io (do_call h (Fs (RemoveAll path))))
                 (catch_io (do_call h (Fs (Stat path))) (\<lambda>e. if IsNotExist e then ret () else fail e))
       else ret ()) [CPUGroupPath s, MemoryGroupPath s]"

definition NewCGroupSet :: "host \<Rightarrow> string \<Rightarrow> int \<Rightarrow> CGroupConfig \<Rightarrow> CGroupSet io" where
  "NewCGroupSet h idn pid c =
     (let s = \<lparr>cg_ID = ''c'' @ idn, cg_PID = pid, CPUGroupPath = [], MemoryGroupPath = []\<rparr> in
      bind_io (newCPUGroup h (cg_ID s) pid) (\<lambda>cpuPath.
        let s1 = s\<lparr>CPUGroupPath := cpuPath\<rparr> in
        then_io (catch_io (setCPUGroupStats h cpuPath c)
                   (\<lambda>err2. then_io (ignore_io (cg_Close h s1)) (fail err2)))
       (bind_io (newMemoryGroup h (cg_ID s) pid c) (\<lambda>memPath.
          ret (s1\<lparr>MemoryGroupPath := memPath\<rparr>)))))"

section \<open>Facts\<close>

lemma mkdir_all_ok:
  "mkdir_all h p m t = (Ok x, t') \<Longrightarrow> \<exists>e. (e = None \<or> e = Some EEXIST) \<and> t' = t @ [(Fs (MkdirAll p m), e)]"
  by (auto simp: mkdir_all_def io_defs split: option.splits if_splits)

lemma mountpoint_ok:
  "GetSubsystemMountpoint h s t = (Ok p, t') \<Longrightarrow>
   \<exists>e. t' = t @ [(Fs (OpenRead ''/proc/self/mountinfo''), None), (Fs (FRead ''/proc/self/mountinfo''), e)]"
  by (auto simp: GetSubsystemMountpoint_def read_io_def io_ok Let_def split: prod.splits option.splits if_splits)

text \<open>The files a trace wrote, last to first.\<close>

fun written :: "trace \<Rightarrow> (string \<times> string) list" where
  "written [] = []"
| "written (e # t) =
     (case e of (Fs (WriteFile p d m), None) \<Rightarrow> [(p, d)] | _ \<Rightarrow> []) @ written t"

lemma written_append [simp]: "written (t @ u) = written t @ written u"
  by (induction t) auto

lemma newCPUGroup_ok:
  assumes "newCPUGroup h idn pid t = (Ok p, t')"
  shows "\<exists>ev mnt. t' = t @ ev \<and> p = path_Join [mnt, idn] \<and>
           written ev = [(path_Join [p, ''cgroup.procs''], FormatInt pid)]"
  using assms
  by (auto simp: newCPUGroup_def writeValue_def io_ok Let_def dest!: mountpoint_ok mkdir_all_ok)

lemma setCPUGroupStats_ok:
  assumes "setCPUGroupStats h p c t = (Ok x, t')"
  shows "\<exists>ev. t' = t @ ev \<and> written ev =
     (if CPUTimeBetweenPeriodsUS c \<noteq> 0
      then [(path_Join [p, ''cpu.cfs_period_us''], FormatInt (CPUTimeBetweenPeriodsUS c))] else []) @
     (if CPUTimePerPeriodUS c \<noteq> 0
      then [(path_Join [p, ''cpu.cfs_quota_us''], FormatInt (CPUTimePerPeriodUS c))] else [])"
  using assms by (auto simp: setCPUGroupStats_def writeValue_def io_ok split: if_splits)

lemma newMemoryGroup_ok:
  assumes "newMemoryGroup h idn pid c t = (Ok p, t')"
  shows "\<exists>ev mnt. t' = t @ ev \<and> p = path_Join [mnt, idn] \<and>
           written ev = (if MemoryMaxBytes c \<noteq> 0
             then [(path_Join [p, ''memory.limit_in_bytes''], FormatInt (MemoryMaxBytes c))] else []) @
             [(path_Join [p, ''cgroup.procs''], FormatInt pid)]"
  using assms
  by (auto simp: newMemoryGroup_def writeValue_def io_ok Let_def split: if_splits dest!: mountpoint_ok mkdir_all_ok)

section \<open>Properties\<close>

text \<open>
  C31. The control groups of a silo carry its limits. When \<open>NewCGroupSet\<close> succeeds the files it wrote
  are exactly: the process into the CPU group, the period and the quota (each if it is set), the
  memory limit (if it is set) and the process into the memory group, in this order, with both
  groups named after the silo under the mount point of their subsystem. So the process is in the
  memory group only once its limit is in place.
\<close>

theorem cgroup_limits_written:
  assumes "NewCGroupSet h idn pid c t = (Ok s, t')"
  shows "\<exists>ev m1 m2. t' = t @ ev \<and>
     s = \<lparr>cg_ID = ''c'' @ idn, cg_PID = pid, CPUGroupPath = path_Join [m1, ''c'' @ idn],
          MemoryGroupPath = path_Join [m2, ''c'' @ idn]\<rparr> \<and>
     written ev =
       [(path_Join [CPUGroupPath s, ''cgroup.procs''], FormatInt pid)] @
       (if CPUTimeBetweenPeriodsUS c \<noteq> 0
        then [(path_Join [CPUGroupPath s, ''cpu.cfs_period_us''], FormatInt (CPUTimeBetweenPeriodsUS c))] else []) @
       (if CPUTimePerPeriodUS c \<noteq> 0
        then [(path_Join [CPUGroupPath s, ''cpu.cfs_quota_us''], FormatInt (CPUTimePerPeriodUS c))] else []) @
       (if MemoryMaxBytes c \<noteq> 0
        then [(path_Join [MemoryGroupPath s, ''memory.limit_in_bytes''], FormatInt (MemoryMaxBytes c))] else []) @
       [(path_Join [MemoryGroupPath s, ''cgroup.procs''], FormatInt pid)]"
proof -
  from assms obtain p1 t1 t2 p2 where
    c: "newCPUGroup h (''c'' @ idn) pid t = (Ok p1, t1)" "setCPUGroupStats h p1 c t1 = (Ok (), t2)"
    "newMemoryGroup h (''c'' @ idn) pid c t2 = (Ok p2, t')"
    and s: "s = \<lparr>cg_ID = ''c'' @ idn, cg_PID = pid, CPUGroupPath = p1, MemoryGroupPath = p2\<rparr>"
    by (auto simp: NewCGroupSet_def Let_def io_ok catch_cleanup_ok)
  from newCPUGroup_ok [OF c(1)] setCPUGroupStats_ok [OF c(2)] newMemoryGroup_ok [OF c(3)]
  obtain e1 m1 e2 e3 m2 where
    "t1 = t @ e1" "p1 = path_Join [m1, ''c'' @ idn]" "written e1 = [(path_Join [p1, ''cgroup.procs''], FormatInt pid)]"
    "t2 = t1 @ e2" "t' = t2 @ e3" "p2 = path_Join [m2, ''c'' @ idn]"
    and w: "written e2 = (if CPUTimeBetweenPeriodsUS c \<noteq> 0
        then [(path_Join [p1, ''cpu.cfs_period_us''], FormatInt (CPUTimeBetweenPeriodsUS c))] else []) @
       (if CPUTimePerPeriodUS c \<noteq> 0
        then [(path_Join [p1, ''cpu.cfs_quota_us''], FormatInt (CPUTimePerPeriodUS c))] else [])"
      "written e3 = (if MemoryMaxBytes c \<noteq> 0
        then [(path_Join [p2, ''memory.limit_in_bytes''], FormatInt (MemoryMaxBytes c))] else []) @
       [(path_Join [p2, ''cgroup.procs''], FormatInt pid)]"
    by blast
  with s show ?thesis
    by (intro exI [of _ "e1 @ e2 @ e3"] exI [of _ m1] exI [of _ m2]) simp
qed

definition ex_mounts :: string where
  "ex_mounts = ''25 18 0:22 / /sys/fs/cgroup/cpu,cpuacct rw - cgroup cgroup rw,cpu,cpuacct'' @ [CHR 0x0A] @
     ''26 18 0:23 / /sys/fs/cgroup/memory rw - cgroup cgroup rw,memory'' @ [CHR 0x0A]"

definition ex_cg_host :: "(call \<times> gerr) list \<Rightarrow> host" where
  "ex_cg_host fs = (failing fs)\<lparr>h_str := (\<lambda>t c. ex_mounts)\<rparr>"

definition ex_cg_conf :: CGroupConfig where
  "ex_cg_conf = \<lparr>CPUTimeBetweenPeriodsUS = 50000, CPUTimePerPeriodUS = 12500, MemoryMaxBytes = 0\<rparr>"

lemma ex_cg_run:
  "fst (NewCGroupSet (ex_cg_host []) ''0a0b0c0d'' 7 ex_cg_conf []) =
   Ok \<lparr>cg_ID = ''c0a0b0c0d'', cg_PID = 7, CPUGroupPath = ''/sys/fs/cgroup/cpu,cpuacct/c0a0b0c0d'',
        MemoryGroupPath = ''/sys/fs/cgroup/memory/c0a0b0c0d''\<rparr>"
  by code_simp

theorem cgroup_limits_written_witness:
  "written (snd (NewCGroupSet (ex_cg_host []) ''0a0b0c0d'' 7 ex_cg_conf [])) =
     [(''/sys/fs/cgroup/cpu,cpuacct/c0a0b0c0d/cgroup.procs'', ''7''),
      (''/sys/fs/cgroup/cpu,cpuacct/c0a0b0c0d/cpu.cfs_period_us'', ''50000''),
      (''/sys/fs/cgroup/cpu,cpuacct/c0a0b0c0d/cpu.cfs_quota_us'', ''12500''),
      (''/sys/fs/cgroup/memory/c0a0b0c0d/cgroup.procs'', ''7'')]"
proof -
  let ?r = "NewCGroupSet (ex_cg_host []) ''0a0b0c0d'' 7 ex_cg_conf []"
  have "?r = (Ok \<lparr>cg_ID = ''c0a0b0c0d'', cg_PID = 7, CPUGroupPath = ''/sys/fs/cgroup/cpu,cpuacct/c0a0b0c0d'',
        MemoryGroupPath = ''/sys/fs/cgroup/memory/c0a0b0c0d''\<rparr>, snd ?r)"
    using ex_cg_run by (simp add: prod_eq_iff)
  moreover have "path_Join [''/sys/fs/cgroup/cpu,cpuacct/c0a0b0c0d'', ''cgroup.procs''] = ''/sys/fs/cgroup/cpu,cpuacct/c0a0b0c0d/cgroup.procs''"
    "path_Join [''/sys/fs/cgroup/cpu,cpuacct/c0a0b0c0d'', ''cpu.cfs_period_us''] = ''/sys/fs/cgroup/cpu,cpuacct/c0a0b0c0d/cpu.cfs_period_us''"
    "path_Join [''/sys/fs/cgroup/cpu,cpuacct/c0a0b0c0d'', ''cpu.cfs_quota_us''] = ''/sys/fs/cgroup/cpu,cpuacct/c0a0b0c0d/cpu.cfs_quota_us''"
    "path_Join [''/sys/fs/cgroup/memory/c0a0b0c0d'', ''cgroup.procs''] = ''/sys/fs/cgroup/memory/c0a0b0c0d/cgroup.procs''"
    "FormatInt 7 = ''7''" "FormatInt 50000 = ''50000''" "FormatInt 12500 = ''12500''"
    by code_simp+
  ultimately show ?thesis
    using cgroup_limits_written [of "ex_cg_host []" "''0a0b0c0d''" 7 ex_cg_conf "[]"]
    by (auto simp: ex_cg_conf_def)
qed

text \<open>
  A failure in the memory group leaves the CPU group behind: \<open>NewCGroupSet\<close> removes the CPU group
  when its limits cannot be written, but when the memory group cannot be made it returns the error
  without a set, so nothing removes the CPU group it has created and populated.
\<close>

theorem cgroup_failure_leaves_cpu_group:
  "let p = ''/sys/fs/cgroup/cpu,cpuacct/c0a0b0c0d'';
       h = ex_cg_host [(Fs (MkdirAll ''/sys/fs/cgroup/memory/c0a0b0c0d'' (oct 755)), EPERM)];
       (r, t) = NewCGroupSet h ''0a0b0c0d'' 7 ex_cg_conf []
   in r = Err EPERM \<and> (Fs (MkdirAll p (oct 755)), None) \<in> set t \<and>
      (p @ ''/cgroup.procs'', ''7'') \<in> set (written t) \<and> Fs (RemoveAll p) \<notin> fst ` set t"
  by code_simp

end
