(* ===== verification/Util.thy ===== *)
theory Util
  imports Host
begin

text \<open>
  Package \<open>util\<close>: random bytes, and the processes that share the process namespace of a given one.
\<close>

section \<open>Random bytes\<close>

text \<open>\<open>crypto/rand.Read\<close> reports how many bytes it wrote; the code checks that the buffer is full.\<close>

definition RandBytes :: "host \<Rightarrow> nat \<Rightarrow> byte list io" where
  "RandBytes h n =
     bind_io (perform h (Proc (RandRead n)) (h_bytes h)) (\<lambda>buff.
       if length buff \<noteq> n then fail (ErrNew ''randomness buffer was not filled'') else ret buff)"

lemma RandBytes_ok:
  "RandBytes h n t = (Ok b, t') \<Longrightarrow> length b = n \<and> t' = t @ [(Proc (RandRead n), None)]"
  by (auto simp: RandBytes_def io_ok split: if_splits)

section \<open>Processes of a namespace\<close>

text \<open>The value \<open>strconv.Atoi\<close> returns beside its error: zero, or the nearest number in range.\<close>

definition Atoi_value :: "string \<Rightarrow> int" where
  "Atoi_value s =
     (case Atoi s of
        Inr v \<Rightarrow> v
      | Inl e \<Rightarrow> if e \<noteq> ErrNew ''value out of range'' then 0
                 else if HasPrefix s ''-'' then - (2 ^ 63) else 2 ^ 63 - 1)"

definition ns_link :: "int \<Rightarrow> string" where
  "ns_link pid = path_Join [''/proc'', FormatInt pid, ''ns'', ''pid'']"

fun find_loop :: "host \<Rightarrow> string \<Rightarrow> (string \<times> bool) list \<Rightarrow> int list \<Rightarrow> int list io" where
  "find_loop h ns [] out = ret out"
| "find_loop h ns ((name, isDir) # fs) out =
     (if isDir \<and> Atoi_value name \<noteq> 0
      then (\<lambda>t. case perform h (Fs (Readlink (ns_link (Atoi_value name)))) (h_str h) t of
              (Err e, t') \<Rightarrow> if IsNotExist e then find_loop h ns fs out t' else (Err e, t')
            | (Ok candidateNs, t') \<Rightarrow>
                find_loop h ns fs (if ns = candidateNs then out @ [Atoi_value name] else out) t'
            | (Crash s, t') \<Rightarrow> (Crash s, t'))
      else find_loop h ns fs out)"

definition FindProcessesInNamespace :: "host \<Rightarrow> int \<Rightarrow> int list io" where
  "FindProcessesInNamespace h pid =
     bind_io (perform h (Fs (Readlink (ns_link pid))) (h_str h)) (\<lambda>ns.
     bind_io (perform h (Fs (ReadDir ''/proc'')) (h_dir h)) (\<lambda>list.
       find_loop h ns list []))"

text \<open>
  On a host whose answers do not change while \<open>/proc\<close> is read, the result is the processes listed
  there, in that order, whose namespace is that of the given one; a process that is gone by the
  time its namespace is read is left out.
\<close>

definition steady :: "host \<Rightarrow> bool" where
  "steady h \<longleftrightarrow> (\<forall>t c. h_err h t c = h_err h [] c \<and> h_str h t c = h_str h [] c \<and> h_dir h t c = h_dir h [] c)"

definition ns_name :: "host \<Rightarrow> int \<Rightarrow> string option" where
  "ns_name h pid =
     (let c = Fs (Readlink (ns_link pid)) in case h_err h [] c of None \<Rightarrow> Some (h_str h [] c) | Some _ \<Rightarrow> None)"

definition listed_pids :: "host \<Rightarrow> int list" where
  "listed_pids h = [Atoi_value n. (n, d) \<leftarrow> h_dir h [] (Fs (ReadDir ''/proc'')), d \<and> Atoi_value n \<noteq> 0]"

lemma find_loop_steady:
  assumes "steady h" "find_loop h ns fs out t = (Ok r, t')"
  shows "r = out @ filter (\<lambda>p. ns_name h p = Some ns) [Atoi_value n. (n, d) \<leftarrow> fs, d \<and> Atoi_value n \<noteq> 0]"
  using assms(2)
proof (induction fs arbitrary: out t)
  case Nil
  then show ?case by (simp add: io_ok)
next
  case (Cons f fs)
  obtain n d where f: "f = (n, d)" by (cases f)
  show ?case
  proof (cases "d \<and> Atoi_value n \<noteq> 0")
    case False
    with Cons.prems f have "find_loop h ns fs out t = (Ok r, t')" by (simp split: if_splits)
    from Cons.IH [OF this] False f show ?thesis by auto
  next
    case True
    let ?c = "Fs (Readlink (ns_link (Atoi_value n)))"
    have e: "h_err h t ?c = h_err h [] ?c" "h_str h t ?c = h_str h [] ?c"
      using assms(1) by (simp_all add: steady_def)
    show ?thesis
    proof (cases "h_err h [] ?c")
      case None
      with Cons.prems True f e have
        "find_loop h ns fs (if ns = h_str h [] ?c then out @ [Atoi_value n] else out) (t @ [(?c, None)]) = (Ok r, t')"
        by (simp add: perform_def)
      from Cons.IH [OF this] None True f show ?thesis by (auto simp: ns_name_def)
    next
      case (Some x)
      with Cons.prems True f e have "find_loop h ns fs out (t @ [(?c, Some x)]) = (Ok r, t')"
        by (auto simp: perform_def split: if_splits)
      from Cons.IH [OF this] Some True f show ?thesis by (auto simp: ns_name_def)
    qed
  qed
qed

lemma FindProcessesInNamespace_steady:
  assumes "steady h" "FindProcessesInNamespace h pid t = (Ok r, t')"
  shows "\<exists>ns. ns_name h pid = Some ns \<and> r = filter (\<lambda>p. ns_name h p = Some ns) (listed_pids h)"
proof -
  let ?c = "Fs (Readlink (ns_link pid))" and ?d = "Fs (ReadDir ''/proc'')"
  from assms(2) have e: "h_err h t ?c = None" and
    f: "find_loop h (h_str h t ?c) (h_dir h (t @ [(?c, None)]) ?d) [] (t @ [(?c, None), (?d, None)]) = (Ok r, t')"
    by (auto simp: FindProcessesInNamespace_def io_ok)
  have "h_err h t ?c = h_err h [] ?c" "h_str h t ?c = h_str h [] ?c"
    "h_dir h (t @ [(?c, None)]) ?d = h_dir h [] ?d"
    using assms(1) unfolding steady_def by blast+
  with e f find_loop_steady [OF assms(1) f] show ?thesis
    by (simp add: ns_name_def listed_pids_def)
qed

end
