(* ===== verification/Bases.thy ===== *)
theory Bases
  imports Host
begin

text \<open>
  The providers of a silo's filesystem (\<open>controller/bases.go\<close>): each writes into the root of the silo
  before it starts, or, for a bind, records a mount to be made inside it.
\<close>

section \<open>Data\<close>

record bindMntInfo =
  bind_SysPath :: string
  bind_SiloPath :: string
  bind_IsFile :: bool

text \<open>The implementations of Go's interface \<open>base\<close>, with the fields of their structs.\<close>

datatype base =
    BusyboxBase string
  | TarballBase string
  | DevNodesBase
  | FileLoaderBase string string
  | FileLoaderTarballBase string string
  | BindBase string string bool

section \<open>Operations\<close>

text \<open>
  \<open>Setup(c, s)\<close> uses the root of the silo, and its list of binds, which one provider extends. A
  provider may change itself: the busybox one remembers the path it worked out, the two file
  loaders drop their data when they return.
\<close>

definition busybox_tar :: "host \<Rightarrow> string \<Rightarrow> string \<Rightarrow> string" where
  "busybox_tar h wd tar =
     (if h_goarch h \<noteq> ''amd64'' then path_Join [wd, ''busybox-'' @ h_goarch h @ ''.tar'']
      else path_Join [wd, ''busybox.tar''])"

definition untar :: "host \<Rightarrow> string \<Rightarrow> string \<Rightarrow> unit io" where
  "untar h root tar = do_call h (Proc (RunCmd ''tar'' [''--overwrite'', ''-C'', root, ''-xf'', tar] []))"

definition device_cmds :: "string \<Rightarrow> string list list" where
  "device_cmds root =
     [[''-m'', ''666'', path_Join [root, ''/dev/null''], ''c'', ''1'', ''3''],
      [''-m'', ''666'', path_Join [root, ''/dev/zero''], ''c'', ''1'', ''5''],
      [''-m'', ''666'', path_Join [root, ''/dev/random''], ''c'', ''1'', ''8''],
      [''-m'', ''666'', path_Join [root, ''/dev/urandom''], ''c'', ''1'', ''9'']]"

definition mknodes :: "host \<Rightarrow> string \<Rightarrow> unit io" where
  "mknodes h root = each_io (\<lambda>args. do_call h (Proc (RunCmd ''mknod'' args []))) (device_cmds root)"

definition load_file :: "host \<Rightarrow> string \<Rightarrow> string \<Rightarrow> string \<Rightarrow> unit io" where
  "load_file h root remote d = do_call h (Fs (WriteFile (path_Join [root, remote]) d (oct 777)))"

definition load_tarball :: "host \<Rightarrow> string \<Rightarrow> string \<Rightarrow> string \<Rightarrow> unit io" where
  "load_tarball h root remote d =
     (let outputPath = path_Join [root, remote] in
      bind_io (try_io (do_call h (Fs (Stat outputPath)))) (\<lambda>err.
        then_io (if err \<noteq> None \<and> IsNotExist (the err) then do_call h (Fs (MkdirAll outputPath (oct 777))) else ret ())
                (do_call h (Proc (RunCmd ''tar'' [''--overwrite'', ''-C'', outputPath, ''-xf'', ''-''] d)))))"

definition with_base :: "unit res \<times> trace \<Rightarrow> base \<Rightarrow> bindMntInfo list \<Rightarrow>
    unit res \<times> base \<times> bindMntInfo list \<times> trace" where
  "with_base rt b binds = (fst rt, b, binds, snd rt)"

fun base_Setup :: "host \<Rightarrow> string \<Rightarrow> base \<Rightarrow> bindMntInfo list \<Rightarrow> trace \<Rightarrow>
    unit res \<times> base \<times> bindMntInfo list \<times> trace" where
  "base_Setup h root (BusyboxBase tar) binds t =
     (if tar = [] then
        (case perform h (Fs Getwd) (h_str h) t of
           (Ok wd, t') \<Rightarrow>
             (let tar' = busybox_tar h wd tar in with_base (untar h root tar' t') (BusyboxBase tar') binds)
         | (Err e, t') \<Rightarrow> (Err e, BusyboxBase tar, binds, t')
         | (Crash s, t') \<Rightarrow> (Crash s, BusyboxBase tar, binds, t'))
      else with_base (untar h root tar t) (BusyboxBase tar) binds)"
| "base_Setup h root (TarballBase tar) binds t =
     (if tar = [] then (Err (ErrNew ''tarballbase: expected path to be set''), TarballBase tar, binds, t)
      else with_base (untar h root tar t) (TarballBase tar) binds)"
| "base_Setup h root DevNodesBase binds t = with_base (mknodes h root t) DevNodesBase binds"
| "base_Setup h root (FileLoaderBase remote d) binds t =
     with_base (load_file h root remote d t) (FileLoaderBase remote []) binds"
| "base_Setup h root (FileLoaderTarballBase remote d) binds t =
     with_base (load_tarball h root remote d t) (FileLoaderTarballBase remote []) binds"
| "base_Setup h root (BindBase sys silo isFile) binds t =
     (Ok (), BindBase sys silo isFile,
      binds @ [\<lparr>bind_SysPath = sys, bind_SiloPath = silo, bind_IsFile = isFile\<rparr>], t)"

text \<open>\<open>Teardown\<close> of every provider returns nil.\<close>

definition base_Teardown :: "base \<Rightarrow> unit io" where
  "base_Teardown b = ret ()"

text \<open>The loop of \<open>Init\<close> over the providers, which stops at the first error.\<close>

fun bases_loop :: "host \<Rightarrow> string \<Rightarrow> base list \<Rightarrow> bindMntInfo list \<Rightarrow> trace \<Rightarrow>
    unit res \<times> base list \<times> bindMntInfo list \<times> trace" where
  "bases_loop h root [] binds t = (Ok (), [], binds, t)"
| "bases_loop h root (b # bs) binds t =
     (case base_Setup h root b binds t of
        (Ok _, b', binds', t') \<Rightarrow>
          (let (r, bs', binds2, t2) = bases_loop h root bs binds' t' in (r, b' # bs', binds2, t2))
      | (r, b', binds', t') \<Rightarrow> (r, b' # bs, binds', t'))"

section \<open>Facts\<close>

text \<open>The binds a successful setup records are those of the bind providers, in order.\<close>

fun bind_of :: "base \<Rightarrow> bindMntInfo list" where
  "bind_of (BindBase sys silo isFile) =
     [\<lparr>bind_SysPath = sys, bind_SiloPath = silo, bind_IsFile = isFile\<rparr>]"
| "bind_of b = []"

lemma base_Setup_binds:
  "base_Setup h root b binds t = (r, b', binds', t') \<Longrightarrow> binds' = binds @ bind_of b"
  by (cases b) (auto simp: with_base_def Let_def split: if_splits prod.splits res.splits)

lemma base_Setup_no_crash: "base_Setup h root b binds t = (r, b', binds', t') \<Longrightarrow> r \<noteq> Crash s"
  by (cases b)
     (auto simp: with_base_def Let_def untar_def mknodes_def device_cmds_def load_file_def load_tarball_def
        io_defs split: if_splits option.splits prod.splits res.splits)

lemma bases_loop_binds:
  "bases_loop h root bs binds t = (Ok x, bs', binds', t') \<Longrightarrow> binds' = binds @ concat (map bind_of bs)"
  by (induction bs arbitrary: binds t bs')
     (fastforce simp: Let_def dest: base_Setup_binds split: prod.splits res.splits)+

text \<open>
  The paths that the calls of a trace write to or unpack into, and the providers whose paths stay
  below the root when they are joined to it.
\<close>

fun call_target :: "call \<Rightarrow> string option" where
  "call_target (Fs (WriteFile p d m)) = Some p"
| "call_target (Fs (MkdirAll p m)) = Some p"
| "call_target (Proc (RunCmd p args d)) =
     (if p = ''tar'' \<and> length args = 5 then Some (args ! 2)
      else if p = ''mknod'' \<and> length args = 6 then Some (args ! 2) else None)"
| "call_target _ = None"

definition targets :: "trace \<Rightarrow> string list" where
  "targets t = concat (map (\<lambda>(c, e). case call_target c of Some p \<Rightarrow> [p] | None \<Rightarrow> []) t)"

lemma targets_append [simp]: "targets (t @ u) = targets t @ targets u"
  by (simp add: targets_def)

lemma targets_Nil [simp]: "targets [] = []"
  by (simp add: targets_def)

lemma targets_Cons [simp]:
  "targets (e # u) = (case call_target (fst e) of Some p \<Rightarrow> [p] | None \<Rightarrow> []) @ targets u"
  by (cases e) (simp add: targets_def)


fun safe_base :: "base \<Rightarrow> bool" where
  "safe_base (FileLoaderBase remote d) = (dotdot \<notin> set (Split remote slash))"
| "safe_base (FileLoaderTarballBase remote d) = (dotdot \<notin> set (Split remote slash))"
| "safe_base b = True"

lemma below_root: "below cs (abs_path cs)"
  unfolding below_def by (intro exI [of _ "[]"]) simp

lemma device_paths_below:
  assumes "list_all plain_comp cs" "p \<in> {''/dev/null'', ''/dev/zero'', ''/dev/random'', ''/dev/urandom''}"
  shows "below cs (path_Join [abs_path cs, p])"
  by (rule path_Join_below [OF assms(1)]) (use assms(2) in \<open>auto simp: dotdot_def\<close>)

lemma device_targets:
  assumes "args \<in> set (device_cmds root)" "call_target (Proc (RunCmd ''mknod'' args [])) = Some p"
  shows "\<exists>d \<in> {''/dev/null'', ''/dev/zero'', ''/dev/random'', ''/dev/urandom''}. p = path_Join [root, d]"
proof -
  have "\<exists>d \<in> {''/dev/null'', ''/dev/zero'', ''/dev/random'', ''/dev/urandom''}.
      length args = 6 \<and> args ! 2 = path_Join [root, d]"
    using assms(1) by (simp add: device_cmds_def) (elim disjE; simp)
  with assms(2) show ?thesis by auto
qed

definition stays_below :: "string list \<Rightarrow> unit io \<Rightarrow> bool" where
  "stays_below cs m \<longleftrightarrow> (\<forall>t r t'. m t = (r, t') \<longrightarrow> (\<exists>ev. t' = t @ ev \<and> list_all (below cs) (targets ev)))"

lemma stays_below_run:
  "stays_below cs m \<Longrightarrow> \<exists>ev. snd (m t) = t @ ev \<and> list_all (below cs) (targets ev)"
  unfolding stays_below_def by (metis prod.collapse)

lemma stays_below_call:
  assumes "\<And>p. call_target c = Some p \<Longrightarrow> below cs p"
  shows "stays_below cs (do_call h c)"
  using assms by (auto simp: stays_below_def io_defs split: option.splits)

lemma stays_below_ret: "stays_below cs (ret ())"
  by (simp add: stays_below_def ret_def)

lemma stays_below_then:
  assumes "stays_below cs m" "stays_below cs k"
  shows "stays_below cs (then_io m k)"
  unfolding stays_below_def
proof (intro allI impI)
  fix t r t' assume b: "then_io m k t = (r, t')"
  obtain r1 t1 where m: "m t = (r1, t1)" by fastforce
  then obtain ev where ev: "t1 = t @ ev" "list_all (below cs) (targets ev)"
    using assms(1) unfolding stays_below_def by blast
  show "\<exists>ev. t' = t @ ev \<and> list_all (below cs) (targets ev)"
  proof (cases r1)
    case (Ok x)
    with b m have "k t1 = (r, t')" by (simp add: io_defs)
    then obtain ev' where "t' = t1 @ ev'" "list_all (below cs) (targets ev')"
      using assms(2) unfolding stays_below_def by blast
    with ev show ?thesis by (intro exI [of _ "ev @ ev'"]) simp
  qed (use b m ev in \<open>auto simp: io_defs\<close>)
qed

lemma stays_below_each: "(\<And>x. x \<in> set xs \<Longrightarrow> stays_below cs (f x)) \<Longrightarrow> stays_below cs (each_io f xs)"
  by (induction xs) (auto intro: stays_below_ret stays_below_then)

lemma parts_stay_below:
  assumes "list_all plain_comp cs"
  shows "stays_below cs (untar h (abs_path cs) tar)" "stays_below cs (mknodes h (abs_path cs))"
    and "dotdot \<notin> set (Split remote slash) \<Longrightarrow> stays_below cs (load_file h (abs_path cs) remote d)"
proof -
  show "stays_below cs (untar h (abs_path cs) tar)"
    unfolding untar_def by (rule stays_below_call) (auto simp: below_root)
  show "stays_below cs (mknodes h (abs_path cs))"
    unfolding mknodes_def
    by (intro stays_below_each stays_below_call) (auto dest!: device_targets intro: device_paths_below [OF assms])
  show "stays_below cs (load_file h (abs_path cs) remote d)" if "dotdot \<notin> set (Split remote slash)"
    unfolding load_file_def by (rule stays_below_call) (use path_Join_below [OF assms that] in auto)
qed

lemma load_tarball_below:
  assumes "list_all plain_comp cs" "dotdot \<notin> set (Split remote slash)"
  shows "stays_below cs (load_tarball h (abs_path cs) remote d)"
proof -
  let ?p = "path_Join [abs_path cs, remote]"
  have b: "below cs ?p" by (rule path_Join_below [OF assms])
  let ?k = "\<lambda>err. then_io (if err \<noteq> None \<and> IsNotExist (the err) then do_call h (Fs (MkdirAll ?p (oct 777))) else ret ())
                (do_call h (Proc (RunCmd ''tar'' [''--overwrite'', ''-C'', ?p, ''-xf'', ''-''] d)))"
  have k: "stays_below cs (?k err)" for err
    using b by (auto intro!: stays_below_then stays_below_call stays_below_ret)
  show ?thesis
    unfolding stays_below_def
  proof (intro allI impI)
    fix t r t' assume l: "load_tarball h (abs_path cs) remote d t = (r, t')"
    let ?e = "h_err h t (Fs (Stat ?p))"
    from l have "?k ?e (t @ [(Fs (Stat ?p), ?e)]) = (r, t')"
      by (simp add: load_tarball_def Let_def bind_try_call)
    then obtain ev where "t' = (t @ [(Fs (Stat ?p), ?e)]) @ ev" "list_all (below cs) (targets ev)"
      using k [of ?e] unfolding stays_below_def by blast
    then show "\<exists>ev. t' = t @ ev \<and> list_all (below cs) (targets ev)"
      by (intro exI [of _ "(Fs (Stat ?p), ?e) # ev"]) simp
  qed
qed

lemma base_Setup_below:
  assumes cs: "list_all plain_comp cs" and b: "safe_base b"
    and s: "base_Setup h (abs_path cs) b binds t = (r, b', binds', t')"
  shows "\<exists>ev. t' = t @ ev \<and> list_all (below cs) (targets ev)"
proof (cases b)
  case (BusyboxBase tar)
  show ?thesis
  proof (cases "tar = []")
    case False
    with s BusyboxBase stays_below_run [OF parts_stay_below(1) [OF cs]] show ?thesis
      by (auto simp: with_base_def)
  next
    case True
    let ?g = "Fs Getwd"
    show ?thesis
    proof (cases "h_err h t ?g")
      case None
      with True s BusyboxBase have "untar h (abs_path cs) (busybox_tar h (h_str h t ?g) tar) (t @ [(?g, None)]) = (r, t')"
        by (auto simp: perform_def with_base_def Let_def)
      then obtain ev where "t' = (t @ [(?g, None)]) @ ev" "list_all (below cs) (targets ev)"
        using parts_stay_below(1) [OF cs] unfolding stays_below_def by blast
      then show ?thesis by (intro exI [of _ "(?g, None) # ev"]) simp
    qed (use True s BusyboxBase in \<open>auto simp: perform_def\<close>)
  qed
next
  case (TarballBase tar)
  with s stays_below_run [OF parts_stay_below(1) [OF cs]] show ?thesis
    by (cases "tar = []") (auto simp: with_base_def)
next
  case DevNodesBase
  with s stays_below_run [OF parts_stay_below(2) [OF cs]] show ?thesis
    by (auto simp: with_base_def)
next
  case (FileLoaderBase remote d)
  with s b stays_below_run [OF parts_stay_below(3) [OF cs]] show ?thesis
    by (auto simp: with_base_def)
next
  case (FileLoaderTarballBase remote d)
  with s b stays_below_run [OF load_tarball_below [OF cs]] show ?thesis
    by (auto simp: with_base_def)
qed (use s in auto)

lemma bases_loop_below:
  assumes cs: "list_all plain_comp cs"
  shows "list_all safe_base bs \<Longrightarrow> bases_loop h (abs_path cs) bs binds t = (r, bs', binds', t') \<Longrightarrow>
    \<exists>ev. t' = t @ ev \<and> list_all (below cs) (targets ev)"
proof (induction bs arbitrary: binds t bs')
  case (Cons b bs)
  obtain r1 b1 binds1 t1 where s: "base_Setup h (abs_path cs) b binds t = (r1, b1, binds1, t1)"
    by (cases "base_Setup h (abs_path cs) b binds t")
  from base_Setup_below [OF cs _ s] Cons.prems(1) obtain ev where
    ev: "t1 = t @ ev" "list_all (below cs) (targets ev)" by auto
  show ?case
  proof (cases r1)
    case (Ok x)
    with s Cons.prems(2) obtain bs2 where "bases_loop h (abs_path cs) bs binds1 t1 = (r, bs2, binds', t')"
      by (auto simp: Let_def split: prod.splits)
    with Cons.IH [OF _ this] Cons.prems(1) obtain ev' where
      "t' = t1 @ ev'" "list_all (below cs) (targets ev')" by auto
    with ev show ?thesis by (intro exI [of _ "ev @ ev'"]) simp
  qed (use s Cons.prems(2) ev in auto)
qed simp

section \<open>Properties\<close>

text \<open>
  C30. The providers of a silo's files stay inside its root. If the root is a clean absolute path and
  no path of a file loader has a \<open>..\<close> component, then everything the setup of the providers writes,
  makes or unpacks into, whether it succeeds or not, lies below the root; and when it succeeds the
  binds it recorded are those of the bind providers, in order.
\<close>

theorem bases_stay_below_root:
  assumes "list_all plain_comp cs" and "list_all safe_base bs"
    and "bases_loop h (abs_path cs) bs binds t = (r, bs', binds', t')"
  shows "(\<exists>ev. t' = t @ ev \<and> list_all (below cs) (targets ev)) \<and>
         (r = Ok () \<longrightarrow> binds' = binds @ concat (map bind_of bs))"
  using bases_loop_below [OF assms] bases_loop_binds [of h "abs_path cs" bs binds t "()"] assms(3) by blast

definition ex_bases :: "base list" where
  "ex_bases = [BusyboxBase [], FileLoaderBase ''/etc/motd'' ''hi'', FileLoaderTarballBase ''srv'' ''tar'',
     BindBase ''/data'' ''/mnt'' False, DevNodesBase]"

theorem bases_stay_below_root_witness:
  "\<exists>ev. snd (snd (snd (bases_loop calm (abs_path [''tmp'', ''s1'']) ex_bases [] []))) = [] @ ev \<and>
     list_all (below [''tmp'', ''s1'']) (targets ev)"
proof -
  have "list_all plain_comp [''tmp'', ''s1'']" "list_all safe_base ex_bases"
    by (auto simp: plain_comp_def ex_bases_def dotdot_def)
  from bases_stay_below_root [OF this] show ?thesis by (metis prod.collapse)
qed

text \<open>
  A file loader with \<open>..\<close> components leaves the root: the path of a file to be written is joined to
  the root without a check, so a packet that asks for \<open>../../etc/passwd\<close> writes the host's own file.
\<close>

theorem file_loader_escapes_root:
  "base_Setup calm ''/tmp/s1'' (FileLoaderBase ''../../etc/passwd'' ''x'') [] [] =
     (Ok (), FileLoaderBase ''../../etc/passwd'' [], [], [(Fs (WriteFile ''/etc/passwd'' ''x'' (oct 777)), None)])"
  by code_simp

end
