(* ===== verification/Json.thy ===== *)
theory Json
  imports Host
begin

text \<open>
  The part of \<open>encoding/json\<close> that colex uses: values, the text \<open>Marshal\<close> produces for them, and the
  reading of such text. Objects keep the order of the struct's fields. Strings are byte strings, as in
  Go: valid UTF-8 is copied, anything else becomes the replacement character.
\<close>

section \<open>Values and their text\<close>

datatype json =
    JNull
  | JBool bool
  | JNum int
  | JStr string
  | JArr "json list"
  | JObj "(string \<times> json) list"

text \<open>The length of the UTF-8 sequence at the head of a string; zero if it is not valid.\<close>

definition cont_in :: "nat \<Rightarrow> nat \<Rightarrow> char \<Rightarrow> bool" where
  "cont_in lo hi c \<longleftrightarrow> lo \<le> of_char c \<and> (of_char c :: nat) \<le> hi"

definition is_cont :: "char \<Rightarrow> bool" where
  "is_cont = cont_in 0x80 0xBF"

fun rune_len :: "string \<Rightarrow> nat" where
  "rune_len [] = 0"
| "rune_len (c # cs) =
     (if cont_in 0 0x7F c then 1
      else if cont_in 0xC2 0xDF c then
        (case cs of c1 # _ \<Rightarrow> if is_cont c1 then 2 else 0 | _ \<Rightarrow> 0)
      else if cont_in 0xE0 0xEF c then
        (case cs of
           c1 # c2 # _ \<Rightarrow>
             if cont_in (if c = CHR 0xE0 then 0xA0 else 0x80) (if c = CHR 0xED then 0x9F else 0xBF) c1 \<and> is_cont c2
             then 3 else 0
         | _ \<Rightarrow> 0)
      else if cont_in 0xF0 0xF4 c then
        (case cs of
           c1 # c2 # c3 # _ \<Rightarrow>
             if cont_in (if c = CHR 0xF0 then 0x90 else 0x80) (if c = CHR 0xF4 then 0x8F else 0xBF) c1 \<and>
                is_cont c2 \<and> is_cont c3
             then 4 else 0
         | _ \<Rightarrow> 0)
      else 0)"

definition hex2 :: "char \<Rightarrow> string" where
  "hex2 c = [hex_char (of_char c div 16), hex_char (of_char c mod 16)]"

text \<open>How a byte below 0x80 is written inside a string.\<close>

definition esc_byte :: "char \<Rightarrow> string" where
  "esc_byte c =
     (if c = CHR 0x5C \<or> c = CHR 0x22 then [CHR 0x5C, c]
      else if c = CHR 0x0A then [CHR 0x5C, CHR ''n'']
      else if c = CHR 0x0D then [CHR 0x5C, CHR ''r'']
      else if c = CHR 0x09 then [CHR 0x5C, CHR ''t'']
      else if cont_in 0 0x1F c \<or> c = CHR ''<'' \<or> c = CHR ''>'' \<or> c = CHR ''&''
      then CHR 0x5C # ''u00'' @ hex2 c
      else [c])"

definition line_sep :: string where "line_sep = [CHR 0xE2, CHR 0x80, CHR 0xA8]"
definition para_sep :: string where "para_sep = [CHR 0xE2, CHR 0x80, CHR 0xA9]"

function esc_string :: "string \<Rightarrow> string" where
  "esc_string [] = []"
| "esc_string (c # cs) =
     (if cont_in 0 0x7F c then esc_byte c @ esc_string cs
      else let n = rune_len (c # cs) in
        if n = 0 then CHR 0x5C # ''ufffd'' @ esc_string cs
        else if take n (c # cs) = line_sep then CHR 0x5C # ''u2028'' @ esc_string (drop (n - 1) cs)
        else if take n (c # cs) = para_sep then CHR 0x5C # ''u2029'' @ esc_string (drop (n - 1) cs)
        else take n (c # cs) @ esc_string (drop (n - 1) cs))"
  by pat_completeness auto
termination
  by (relation "measure length") auto

definition quote_str :: "string \<Rightarrow> string" where
  "quote_str s = CHR 0x22 # esc_string s @ [CHR 0x22]"

fun Marshal :: "json \<Rightarrow> string" where
  "Marshal JNull = ''null''"
| "Marshal (JBool b) = (if b then ''true'' else ''false'')"
| "Marshal (JNum i) = FormatInt i"
| "Marshal (JStr s) = quote_str s"
| "Marshal (JArr xs) = CHR ''['' # Join (map Marshal xs) '','' @ '']''"
| "Marshal (JObj kvs) =
     CHR ''{'' # Join (map (\<lambda>kv. quote_str (fst kv) @ CHR '':'' # Marshal (snd kv)) kvs) '','' @ ''}''"

text \<open>A slice that is nil is written as \<open>null\<close>, another one as an array.\<close>

definition json_slice :: "('a \<Rightarrow> json) \<Rightarrow> 'a list \<Rightarrow> json" where
  "json_slice f xs = (if xs = [] then JNull else JArr (map f xs))"

definition json_strings :: "string list \<Rightarrow> json" where
  "json_strings xs = JArr (map JStr xs)"

section \<open>Base64\<close>

text \<open>\<open>encoding/base64.StdEncoding\<close>, with padding.\<close>

definition b64_char :: "nat \<Rightarrow> char" where
  "b64_char v =
     (if v < 26 then char_of (65 + v) else if v < 52 then char_of (71 + v)
      else if v < 62 then char_of (v - 4) else if v = 62 then CHR ''+'' else CHR ''/'')"

fun b64_encode :: "byte list \<Rightarrow> string" where
  "b64_encode [] = []"
| "b64_encode [a] =
     [b64_char (unat a div 4), b64_char (unat a mod 4 * 16), CHR ''='', CHR ''='']"
| "b64_encode [a, b] =
     [b64_char (unat a div 4), b64_char (unat a mod 4 * 16 + unat b div 16), b64_char (unat b mod 16 * 4), CHR ''='']"
| "b64_encode (a # b # c # r) =
     [b64_char (unat a div 4), b64_char (unat a mod 4 * 16 + unat b div 16),
      b64_char (unat b mod 16 * 4 + unat c div 64), b64_char (unat c mod 64)] @ b64_encode r"

section \<open>Reading\<close>

text \<open>The UTF-8 encoding of a code point.\<close>

definition encode_rune :: "nat \<Rightarrow> string" where
  "encode_rune n =
     (if n < 0x80 then [char_of n]
      else if n < 0x800 then [char_of (0xC0 + n div 64), char_of (0x80 + n mod 64)]
      else if n < 0x10000
      then [char_of (0xE0 + n div 4096), char_of (0x80 + n div 64 mod 64), char_of (0x80 + n mod 64)]
      else [char_of (0xF0 + n div 262144), char_of (0x80 + n div 4096 mod 64),
            char_of (0x80 + n div 64 mod 64), char_of (0x80 + n mod 64)])"

definition replacement :: string where "replacement = [CHR 0xEF, CHR 0xBF, CHR 0xBD]"

text \<open>Four hexadecimal digits.\<close>

fun hex4 :: "string \<Rightarrow> (nat \<times> string) option" where
  "hex4 (a # b # c # d # r) =
     (case (hex_val a, hex_val b, hex_val c, hex_val d) of
        (Some x, Some y, Some z, Some w) \<Rightarrow> Some (((x * 16 + y) * 16 + z) * 16 + w, r)
      | _ \<Rightarrow> None)"
| "hex4 _ = None"

text \<open>
  The code point of a \<open>\u\<close> escape, after its \<open>u\<close>: a surrogate pair is combined, and a
  surrogate without its partner is replaced.
\<close>

definition unescape_u :: "string \<Rightarrow> (string \<times> string) option" where
  "unescape_u s =
     (case hex4 s of
        None \<Rightarrow> None
      | Some (n, r) \<Rightarrow>
          if n < 0xD800 \<or> 0xDFFF < n then Some (encode_rune n, r)
          else (case r of
            b # u # r1 \<Rightarrow>
              if b = CHR 0x5C \<and> u = CHR ''u'' \<and> n < 0xDC00 then
                (case hex4 r1 of
                   Some (m, r2) \<Rightarrow>
                     if 0xDC00 \<le> m \<and> m \<le> 0xDFFF
                     then Some (encode_rune (0x10000 + (n - 0xD800) * 0x400 + (m - 0xDC00)), r2)
                     else Some (replacement, r)
                 | None \<Rightarrow> Some (replacement, r))
              else Some (replacement, r)
          | _ \<Rightarrow> Some (replacement, r)))"

definition simple_escape :: "char \<Rightarrow> char option" where
  "simple_escape c =
     (if c = CHR 0x22 \<or> c = CHR 0x5C \<or> c = CHR ''/'' then Some c
      else if c = CHR ''b'' then Some (CHR 0x08) else if c = CHR ''f'' then Some (CHR 0x0C)
      else if c = CHR ''n'' then Some (CHR 0x0A) else if c = CHR ''r'' then Some (CHR 0x0D)
      else if c = CHR ''t'' then Some (CHR 0x09) else None)"

text \<open>One item of a string literal: the bytes it stands for, and what follows.\<close>

definition unquote_item :: "string \<Rightarrow> (string \<times> string) option" where
  "unquote_item s =
     (case s of
        [] \<Rightarrow> None
      | c # cs \<Rightarrow>
          if c = CHR 0x5C then
            (case cs of
               [] \<Rightarrow> None
             | e # r \<Rightarrow> if e = CHR ''u'' then unescape_u r
                        else (case simple_escape e of Some x \<Rightarrow> Some ([x], r) | None \<Rightarrow> None))
          else if cont_in 0 0x1F c then None
          else let n = rune_len s in
            if n = 0 then Some (replacement, cs) else Some (take n s, drop n s))"

text \<open>The rest of a string literal after its opening quote.\<close>

fun unquote :: "nat \<Rightarrow> string \<Rightarrow> (string \<times> string) option" where
  "unquote 0 s = None"
| "unquote (Suc k) s =
     (if s \<noteq> [] \<and> hd s = CHR 0x22 then Some ([], tl s)
      else case unquote_item s of
        None \<Rightarrow> None
      | Some (x, r) \<Rightarrow> (case unquote k r of None \<Rightarrow> None | Some (y, r') \<Rightarrow> Some (x @ y, r')))"

definition read_string :: "string \<Rightarrow> (string \<times> string) option" where
  "read_string s = unquote (length s) s"

definition is_space :: "char \<Rightarrow> bool" where
  "is_space c \<longleftrightarrow> c = CHR '' '' \<or> c = CHR 0x09 \<or> c = CHR 0x0A \<or> c = CHR 0x0D"

definition skip_ws :: "string \<Rightarrow> string" where
  "skip_ws s = dropWhile is_space s"

definition parse_lit :: "string \<Rightarrow> (json \<times> string) option" where
  "parse_lit s =
     (if HasPrefix s ''null'' then Some (JNull, drop 4 s)
      else if HasPrefix s ''true'' then Some (JBool True, drop 4 s)
      else if HasPrefix s ''false'' then Some (JBool False, drop 5 s)
      else let neg = HasPrefix s ''-''; d = (if neg then drop 1 s else s); ds = takeWhile is_digit d in
        if ds = [] \<or> (hd ds = CHR ''0'' \<and> ds \<noteq> ''0'') then None
        else Some (JNum (if neg then - int (dec_value ds) else int (dec_value ds)), drop (length ds) d))"

text \<open>
  Values, elements of an array and members of an object. The counter bounds the depth of the calls;
  \<open>Unmarshal\<close> gives it twice the length of the text, and every two calls consume a character. Numbers
  with a fraction or an exponent, which colex never writes here, are not read.
\<close>

fun parse_value :: "nat \<Rightarrow> string \<Rightarrow> (json \<times> string) option"
  and parse_elems :: "nat \<Rightarrow> string \<Rightarrow> (json list \<times> string) option"
  and parse_members :: "nat \<Rightarrow> string \<Rightarrow> ((string \<times> json) list \<times> string) option" where
  "parse_value 0 s = None"
| "parse_value (Suc n) s =
     (case skip_ws s of
        [] \<Rightarrow> None
      | c # cs \<Rightarrow>
          if c = CHR 0x22 then map_option (\<lambda>(x, r). (JStr x, r)) (read_string cs)
          else if c = CHR ''['' then
            (if HasPrefix (skip_ws cs) '']'' then Some (JArr [], tl (skip_ws cs))
             else map_option (\<lambda>(xs, r). (JArr xs, r)) (parse_elems n cs))
          else if c = CHR ''{'' then
            (if HasPrefix (skip_ws cs) ''}'' then Some (JObj [], tl (skip_ws cs))
             else map_option (\<lambda>(xs, r). (JObj xs, r)) (parse_members n cs))
          else parse_lit (c # cs))"
| "parse_elems 0 s = None"
| "parse_elems (Suc n) s =
     (case parse_value n s of
        None \<Rightarrow> None
      | Some (x, r) \<Rightarrow>
          (case skip_ws r of
             [] \<Rightarrow> None
           | c # r' \<Rightarrow>
               if c = CHR '','' then map_option (\<lambda>(xs, r2). (x # xs, r2)) (parse_elems n r')
               else if c = CHR '']'' then Some ([x], r') else None))"
| "parse_members 0 s = None"
| "parse_members (Suc n) s =
     (case skip_ws s of
        [] \<Rightarrow> None
      | q # cs \<Rightarrow>
          if q \<noteq> CHR 0x22 then None
          else (case read_string cs of
            None \<Rightarrow> None
          | Some (k, r) \<Rightarrow>
              if \<not> HasPrefix (skip_ws r) '':'' then None
              else (case parse_value n (tl (skip_ws r)) of
                None \<Rightarrow> None
              | Some (v, r1) \<Rightarrow>
                  (case skip_ws r1 of
                     [] \<Rightarrow> None
                   | c # r' \<Rightarrow>
                       if c = CHR '','' then map_option (\<lambda>(xs, r2). ((k, v) # xs, r2)) (parse_members n r')
                       else if c = CHR ''}'' then Some ([(k, v)], r') else None))))"

definition Unmarshal :: "string \<Rightarrow> json result" where
  "Unmarshal s =
     (case parse_value (2 * length s + 2) s of
        Some (v, r) \<Rightarrow> if skip_ws r = [] then Inr v else Inl (ErrNew ''invalid character after top-level value'')
      | None \<Rightarrow> Inl (ErrNew ''unexpected end of JSON input''))"

section \<open>Decoding into structs\<close>

text \<open>
  A key belongs to a field whose name it equals up to case. The entries are applied in order: a
  \<open>null\<close> leaves the field as it is, and a value of another type is an error.
\<close>

definition lower :: "char \<Rightarrow> char" where
  "lower c = (if cont_in 65 90 c then char_of ((of_char c :: nat) + 32) else c)"

definition same_key :: "string \<Rightarrow> string \<Rightarrow> bool" where
  "same_key a b \<longleftrightarrow> map lower a = map lower b"

fun get_field :: "(json \<Rightarrow> 'a option) \<Rightarrow> string \<Rightarrow> 'a \<Rightarrow> (string \<times> json) list \<Rightarrow> 'a result" where
  "get_field f k x [] = Inr x"
| "get_field f k x ((k', v) # kvs) =
     (if \<not> same_key k' k \<or> v = JNull then get_field f k x kvs
      else case f v of
        Some y \<Rightarrow> get_field f k y kvs
      | None \<Rightarrow> Inl (ErrNew (''json: cannot unmarshal into Go struct field '' @ k)))"

fun as_str :: "json \<Rightarrow> string option" where
  "as_str (JStr s) = Some s"
| "as_str _ = None"

fun as_bool :: "json \<Rightarrow> bool option" where
  "as_bool (JBool b) = Some b"
| "as_bool _ = None"

text \<open>A \<open>null\<close> element of an array is the zero value \<open>z\<close> of the element type.\<close>

fun as_list :: "(json \<Rightarrow> 'a option) \<Rightarrow> 'a \<Rightarrow> json \<Rightarrow> 'a list option" where
  "as_list f z (JArr xs) = those (map (\<lambda>x. if x = JNull then Some z else f x) xs)"
| "as_list f z _ = None"


section \<open>Round trip\<close>

text \<open>Values whose strings are ASCII, without numbers: what the invocation file and the role hold.\<close>

definition ascii :: "string \<Rightarrow> bool" where
  "ascii s \<longleftrightarrow> list_all (cont_in 0 0x7F) s"

fun json_ok :: "json \<Rightarrow> bool" where
  "json_ok JNull = True"
| "json_ok (JBool b) = True"
| "json_ok (JNum i) = False"
| "json_ok (JStr s) = ascii s"
| "json_ok (JArr xs) = list_all json_ok xs"
| "json_ok (JObj kvs) = list_all (\<lambda>kv. ascii (fst kv) \<and> json_ok (snd kv)) kvs"

lemma hex_val_hex_char: "n < 16 \<Longrightarrow> hex_val (hex_char n) = Some n"
proof -
  have "\<forall>n \<in> set [0..<16]. hex_val (hex_char n) = Some n" by code_simp
  moreover assume "n < 16"
  ultimately show ?thesis by simp
qed

lemma hex4_hex2:
  assumes "(of_char c :: nat) < 128"
  shows "hex4 (''00'' @ hex2 c @ r) = Some (of_char c, r)"
proof -
  have z: "hex_val (CHR ''0'') = Some 0" by code_simp
  have "of_char c div 16 < (16 :: nat)" "of_char c mod 16 < (16 :: nat)" using assms by auto
  then show ?thesis by (simp add: hex2_def hex_val_hex_char z)
qed

lemma unquote_item_esc_char:
  "unquote_item (CHR 0x5C # e # r) =
     (if e = CHR ''u'' then unescape_u r
      else (case simple_escape e of Some x \<Rightarrow> Some ([x], r) | None \<Rightarrow> None))"
  by (simp add: unquote_item_def)

lemma unquote_item_esc:
  assumes "cont_in 0 0x7F c"
  shows "unquote_item (esc_byte c @ r) = Some ([c], r)"
proof -
  have n: "(of_char c :: nat) < 128" using assms by (simp add: cont_in_def)
  show ?thesis
  proof (cases "c \<in> {CHR 0x5C, CHR 0x22, CHR 0x0A, CHR 0x0D, CHR 0x09}")
    case True
    then consider "esc_byte c = [CHR 0x5C, c]" "simple_escape c = Some c" "c \<noteq> CHR ''u''"
      | d where "esc_byte c = [CHR 0x5C, d]" "simple_escape d = Some c" "d \<noteq> CHR ''u''"
      by (elim insertE emptyE) (simp_all add: esc_byte_def simple_escape_def)
    then show ?thesis by cases (simp_all add: unquote_item_esc_char)
  next
    case ne: False
    show ?thesis
    proof (cases "cont_in 0 0x1F c \<or> c = CHR ''<'' \<or> c = CHR ''>'' \<or> c = CHR ''&''")
      case True
      with ne have "esc_byte c = CHR 0x5C # ''u00'' @ hex2 c" by (simp add: esc_byte_def)
      then show ?thesis
        using n hex4_hex2 [OF n, of r] by (simp add: unquote_item_esc_char unescape_u_def encode_rune_def)
    next
      case False
      with ne have "esc_byte c = [c]" by (simp add: esc_byte_def)
      then show ?thesis using ne False assms by (simp add: unquote_item_def)
    qed
  qed
qed

lemma esc_byte_head: "\<exists>d ds. esc_byte c = d # ds \<and> d \<noteq> CHR 0x22"
  by (auto simp: esc_byte_def)

lemma unquote_esc:
  "ascii s \<Longrightarrow> length s < k \<Longrightarrow> unquote k (esc_string s @ CHR 0x22 # r) = Some (s, r)"
proof (induction s arbitrary: k)
  case Nil
  then show ?case by (cases k) auto
next
  case (Cons c s)
  then obtain k' where k: "k = Suc k'" by (cases k) auto
  obtain d ds where d: "esc_byte c = d # ds" "d \<noteq> CHR 0x22" using esc_byte_head by blast
  have c: "cont_in 0 0x7F c" "ascii s" using Cons.prems by (auto simp: ascii_def)
  have "unquote_item (esc_byte c @ esc_string s @ CHR 0x22 # r) = Some ([c], esc_string s @ CHR 0x22 # r)"
    by (rule unquote_item_esc [OF c(1)])
  with Cons d c k show ?case by simp
qed

lemma length_esc_string: "ascii s \<Longrightarrow> length s \<le> length (esc_string s)"
proof (induction s)
  case (Cons c s)
  obtain d ds where "esc_byte c = d # ds" using esc_byte_head by blast
  with Cons show ?case by (simp add: ascii_def)
qed simp

lemma read_string_esc: "ascii s \<Longrightarrow> read_string (esc_string s @ CHR 0x22 # r) = Some (s, r)"
  unfolding read_string_def using length_esc_string [of s] by (intro unquote_esc) auto

fun jfuel :: "json \<Rightarrow> nat" where
  "jfuel (JArr xs) = 2 + sum_list (map (\<lambda>x. Suc (jfuel x)) xs)"
| "jfuel (JObj kvs) = 2 + sum_list (map (\<lambda>kv. Suc (jfuel (snd kv))) kvs)"
| "jfuel _ = 1"

lemma Marshal_head: "json_ok v \<Longrightarrow> \<exists>c cs. Marshal v = c # cs \<and> c \<notin> {CHR '']'', CHR ''}'', CHR '' '', CHR 0x09, CHR 0x0A, CHR 0x0D}"
  by (cases v) (auto simp: quote_str_def)

lemma skip_ws_nonspace: "c \<notin> {CHR '' '', CHR 0x09, CHR 0x0A, CHR 0x0D} \<Longrightarrow> skip_ws (c # cs) = c # cs"
  by (simp add: skip_ws_def is_space_def)

lemma skip_ws_Marshal: "json_ok v \<Longrightarrow> skip_ws (Marshal v @ r) = Marshal v @ r"
  using Marshal_head [of v] by (auto simp: skip_ws_nonspace)

lemma HasPrefix_char: "HasPrefix (c # cs) [d] \<longleftrightarrow> c = d"
  by (auto simp: HasPrefix_def)

lemma parse_elems_Marshal:
  assumes "\<And>x n r. x \<in> set (x0 # xs) \<Longrightarrow> jfuel x \<le> n \<Longrightarrow> parse_value n (Marshal x @ r) = Some (x, r)"
    and "sum_list (map (\<lambda>x. Suc (jfuel x)) (x0 # xs)) \<le> n"
  shows "parse_elems n (Join (map Marshal (x0 # xs)) '','' @ CHR '']'' # r) = Some (x0 # xs, r)"
  using assms
proof (induction xs arbitrary: x0 n)
  case Nil
  then obtain m where "n = Suc m" by (cases n) auto
  with Nil.prems(1) [of x0 m "CHR '']'' # r"] Nil.prems(2) show ?case
    by (simp add: skip_ws_nonspace)
next
  case (Cons x1 xs)
  then obtain m where n: "n = Suc m" by (cases n) auto
  have "parse_elems m (Join (map Marshal (x1 # xs)) '','' @ CHR '']'' # r) = Some (x1 # xs, r)"
    by (rule Cons.IH) (use Cons.prems n in auto)
  moreover have "parse_value m (Marshal x0 @ CHR '','' # Join (map Marshal (x1 # xs)) '','' @ CHR '']'' # r) =
      Some (x0, CHR '','' # Join (map Marshal (x1 # xs)) '','' @ CHR '']'' # r)"
    by (rule Cons.prems(1)) (use Cons.prems(2) n in auto)
  ultimately show ?case using n by (simp add: skip_ws_nonspace)
qed

definition member_text :: "string \<times> json \<Rightarrow> string" where
  "member_text kv = quote_str (fst kv) @ CHR '':'' # Marshal (snd kv)"

lemma member_text_eq:
  "member_text kv = CHR 0x22 # esc_string (fst kv) @ CHR 0x22 # CHR '':'' # Marshal (snd kv)"
  by (simp add: member_text_def quote_str_def)

lemma parse_members_Marshal:
  assumes "\<And>kv n r. kv \<in> set (x0 # xs) \<Longrightarrow> jfuel (snd kv) \<le> n \<Longrightarrow> parse_value n (Marshal (snd kv) @ r) = Some (snd kv, r)"
    and "\<And>kv. kv \<in> set (x0 # xs) \<Longrightarrow> ascii (fst kv)"
    and "sum_list (map (\<lambda>kv. Suc (jfuel (snd kv))) (x0 # xs)) \<le> n"
  shows "parse_members n (Join (map member_text (x0 # xs)) '','' @ CHR ''}'' # r) = Some (x0 # xs, r)"
  using assms
proof (induction xs arbitrary: x0 n)
  case Nil
  then obtain m where "n = Suc m" by (cases n) auto
  with Nil.prems(1) [of x0 m "CHR ''}'' # r"] Nil.prems(2) [of x0] Nil.prems(3) show ?case
    by (simp add: skip_ws_nonspace member_text_def quote_str_def read_string_esc HasPrefix_char)
next
  case (Cons x1 xs)
  then obtain m where n: "n = Suc m" by (cases n) auto
  let ?r = "CHR '','' # Join (map member_text (x1 # xs)) '','' @ CHR ''}'' # r"
  have "parse_members m (Join (map member_text (x1 # xs)) '','' @ CHR ''}'' # r) = Some (x1 # xs, r)"
    by (rule Cons.IH) (use Cons.prems n in auto)
  moreover have "parse_value m (Marshal (snd x0) @ ?r) = Some (snd x0, ?r)"
    by (rule Cons.prems(1)) (use Cons.prems(3) n in auto)
  ultimately show ?case using n Cons.prems(2) [of x0]
    by (simp add: skip_ws_nonspace member_text_eq [of x0] read_string_esc HasPrefix_char)
qed


lemma parse_value_Marshal:
  "json_ok v \<Longrightarrow> jfuel v \<le> n \<Longrightarrow> parse_value n (Marshal v @ r) = Some (v, r)"
proof (induction v arbitrary: n r)
  case JNull
  then show ?case by (cases n) (auto simp: skip_ws_nonspace parse_lit_def HasPrefix_def)
next
  case (JBool b)
  then show ?case by (cases n; cases b) (auto simp: skip_ws_nonspace parse_lit_def HasPrefix_def)
next
  case (JNum i)
  then show ?case by simp
next
  case (JStr s)
  then show ?case by (cases n) (auto simp: quote_str_def skip_ws_nonspace read_string_esc)
next
  case (JArr xs)
  then obtain m where n: "n = Suc m" "1 + sum_list (map (\<lambda>x. Suc (jfuel x)) xs) \<le> m" by (cases n) auto
  show ?case
  proof (cases xs)
    case Nil
    with n show ?thesis by (simp add: skip_ws_nonspace HasPrefix_char)
  next
    case (Cons x ys)
    have "parse_elems m (Join (map Marshal (x # ys)) '','' @ CHR '']'' # r) = Some (x # ys, r)"
      by (rule parse_elems_Marshal) (use JArr Cons n(2) in \<open>auto simp: list_all_iff\<close>)
    moreover obtain c cs where "Join (map Marshal (x # ys)) '','' = c # cs" "c \<noteq> CHR '']''"
      "c \<notin> {CHR '' '', CHR 0x09, CHR 0x0A, CHR 0x0D}"
      using Marshal_head [of x] JArr.prems Cons by (cases ys) auto
    ultimately show ?thesis using n Cons by (simp add: skip_ws_nonspace HasPrefix_char)
  qed
next
  case (JObj kvs)
  then obtain m where n: "n = Suc m" "1 + sum_list (map (\<lambda>kv. Suc (jfuel (snd kv))) kvs) \<le> m" by (cases n) auto
  have M: "Marshal (JObj kvs) = CHR ''{'' # Join (map member_text kvs) '','' @ ''}''"
    by (simp add: member_text_def [abs_def])
  show ?case
  proof (cases kvs)
    case Nil
    with n show ?thesis by (simp add: skip_ws_nonspace HasPrefix_char)
  next
    case (Cons x ys)
    have "parse_members m (Join (map member_text (x # ys)) '','' @ CHR ''}'' # r) = Some (x # ys, r)"
    proof (rule parse_members_Marshal)
      fix kv n' r' assume kv: "kv \<in> set (x # ys)" "jfuel (snd kv) \<le> n'"
      have "json_ok (snd kv)" using kv(1) JObj.prems(1) Cons by (auto simp: list_all_iff)
      moreover have "snd kv \<in> Basic_BNFs.snds kv" by (cases kv) simp
      ultimately show "parse_value n' (Marshal (snd kv) @ r') = Some (snd kv, r')"
        using JObj.IH kv Cons by blast
    qed (use JObj.prems Cons n(2) in \<open>auto simp: list_all_iff\<close>)
    moreover obtain cs where j: "Join (map member_text (x # ys)) '','' = CHR 0x22 # cs"
      by (cases ys) (auto simp: member_text_eq)
    ultimately have "parse_members m (CHR 0x22 # cs @ CHR ''}'' # r) = Some (x # ys, r)" by (simp add: j)
    moreover have "Marshal (JObj kvs) = CHR ''{'' # CHR 0x22 # cs @ ''}''" unfolding M using Cons j by simp
    ultimately show ?thesis using n Cons by (simp add: skip_ws_nonspace HasPrefix_char del: Marshal.simps)
  qed
qed

lemma sum_fuel_le:
  assumes "\<And>x. x \<in> set xs \<Longrightarrow> g x < 2 * length (f x)"
  shows "sum_list (map (\<lambda>x. Suc (g x)) xs) \<le> 2 * length (Join (map f xs) [c]) + (if xs = [] then 0 else 1)"
  using assms
proof (induction "map f xs" "[c]" arbitrary: xs rule: Join.induct)
  case (3 x y ys)
  then obtain a b zs where xs: "xs = a # b # zs" "x = f a" "y = f b" "ys = map f zs" by auto
  have "sum_list (map (\<lambda>x. Suc (g x)) (b # zs)) \<le> 2 * length (Join (map f (b # zs)) [c]) + 1"
    using 3(1) [of "b # zs"] 3(3) xs by auto
  moreover have "g a < 2 * length (f a)" using 3(3) xs by simp
  ultimately show ?case using xs by simp
qed auto

lemma jfuel_le: "json_ok v \<Longrightarrow> jfuel v < 2 * length (Marshal v)"
proof (induction v)
  case (JArr xs)
  have "sum_list (map (\<lambda>x. Suc (jfuel x)) xs) \<le> 2 * length (Join (map Marshal xs) '','') + (if xs = [] then 0 else 1)"
    by (rule sum_fuel_le) (use JArr in \<open>auto simp: list_all_iff\<close>)
  then show ?case by (auto split: if_splits)
next
  case (JObj kvs)
  have "sum_list (map (\<lambda>kv. Suc (jfuel (snd kv))) kvs) \<le> 2 * length (Join (map member_text kvs) '','') + (if kvs = [] then 0 else 1)"
  proof (rule sum_fuel_le)
    fix kv assume kv: "kv \<in> set kvs"
    have "json_ok (snd kv)" using kv JObj.prems by (auto simp: list_all_iff)
    moreover have "snd kv \<in> Basic_BNFs.snds kv" by (cases kv) simp
    ultimately have "jfuel (snd kv) < 2 * length (Marshal (snd kv))" using JObj.IH kv by blast
    then show "jfuel (snd kv) < 2 * length (member_text kv)" by (simp add: member_text_def)
  qed
  then show ?case by (auto simp: member_text_def [abs_def] split: if_splits)
qed (auto simp: quote_str_def)

lemma Unmarshal_Marshal: "json_ok v \<Longrightarrow> Unmarshal (Marshal v) = Inr v"
  using parse_value_Marshal [of v "2 * length (Marshal v) + 2" "[]"] jfuel_le [of v]
  by (simp add: Unmarshal_def skip_ws_def)

section \<open>Base64 facts\<close>

definition b64_val :: "char \<Rightarrow> nat option" where
  "b64_val c =
     (let n = of_char c :: nat in
      if 65 \<le> n \<and> n \<le> 90 then Some (n - 65) else if 97 \<le> n \<and> n \<le> 122 then Some (n - 71)
      else if 48 \<le> n \<and> n \<le> 57 then Some (n + 4) else if c = CHR ''+'' then Some 62
      else if c = CHR ''/'' then Some 63 else None)"

lemma b64_char_table:
  "v < 64 \<Longrightarrow> b64_val (b64_char v) = Some v \<and> cont_in 0 0x7F (b64_char v) \<and>
     b64_char v \<notin> {CHR '' '', CHR 0x0A, CHR 0x0D, CHR ''='', CHR 0x22, CHR 0x5C}"
proof -
  have "\<forall>v \<in> set [0..<64]. b64_val (b64_char v) = Some v \<and> cont_in 0 0x7F (b64_char v) \<and>
     b64_char v \<notin> {CHR '' '', CHR 0x0A, CHR 0x0D, CHR ''='', CHR 0x22, CHR 0x5C}" by code_simp
  moreover assume "v < 64"
  ultimately show ?thesis by simp
qed

text \<open>
  \<open>StdEncoding.DecodeString\<close>: newlines are skipped; then groups of four characters, the last of which may
  be padded. A group that is not of this form is an error, with what was decoded before it.
\<close>

fun b64_groups :: "string \<Rightarrow> byte list \<times> bool" where
  "b64_groups [] = ([], True)"
| "b64_groups (a # b # c # d # r) =
     (case (b64_val a, b64_val b) of
        (Some x, Some y) \<Rightarrow>
          (if c = CHR ''='' then
             (if d = CHR ''='' \<and> r = [] then ([of_nat (x * 4 + y div 16)], True)
              else ([], False))
           else (case b64_val c of
             None \<Rightarrow> ([], False)
           | Some z \<Rightarrow>
               if d = CHR ''='' then
                 (if r = [] then ([of_nat (x * 4 + y div 16), of_nat (y mod 16 * 16 + z div 4)], True) else ([], False))
               else (case b64_val d of
                 None \<Rightarrow> ([], False)
               | Some w \<Rightarrow>
                   let (bs, ok) = b64_groups r in
                   (of_nat (x * 4 + y div 16) # of_nat (y mod 16 * 16 + z div 4) # of_nat (z mod 4 * 64 + w) # bs, ok))))
      | _ \<Rightarrow> ([], False))"
| "b64_groups _ = ([], False)"

definition b64_decode :: "string \<Rightarrow> byte list result" where
  "b64_decode s =
     (let (bs, ok) = b64_groups (filter (\<lambda>c. c \<noteq> CHR 0x0A \<and> c \<noteq> CHR 0x0D) s)
      in if ok then Inr bs else Inl (ErrNew ''illegal base64 data''))"

lemma unat_byte: "unat (b :: byte) < 256"
  using unsigned_less [of b] by simp

lemma b64_val_char: "v < 64 \<Longrightarrow> b64_val (b64_char v) = Some v"
  using b64_char_table by blast

lemma b64_char_ne: "v < 64 \<Longrightarrow> b64_char v \<noteq> CHR ''=''"
  using b64_char_table by blast

lemma b64_arith:
  assumes "a < 256" "b < (256 :: nat)"
  shows "a div 4 < 64" "a mod 4 * 16 < 64" "a mod 4 * 16 + b div 16 < 64" "a mod 16 * 4 < 64"
    "a mod 16 * 4 + b div 64 < 64" "a mod 64 < 64"
    "a div 4 * 4 + a mod 4 * 16 div 16 = a"
    "a div 4 * 4 + (a mod 4 * 16 + b div 16) div 16 = a"
    "(b mod 4 * 16 + a div 16) mod 16 * 16 + a mod 16 * 4 div 4 = a"
    "(b mod 4 * 16 + a div 16) mod 16 * 16 + (a mod 16 * 4 + b div 64) div 4 = a"
    "(b mod 16 * 4 + a div 64) mod 4 * 64 + a mod 64 = a"
  using assms by auto

lemma b64_mid:
  assumes "b < 256" "c < (256 :: nat)"
  shows "(a mod 4 * 16 + b div 16) mod 16 * 16 + (b mod 16 * 4 + c div 64) div 4 = b"
  using assms by auto

lemma b64_group1:
  assumes "x < 64" "y < 64"
  shows "b64_groups [b64_char x, b64_char y, CHR ''='', CHR ''=''] = ([of_nat (x * 4 + y div 16)], True)"
  by (simp add: b64_val_char [OF assms(1)] b64_val_char [OF assms(2)])

lemma b64_group2:
  assumes "x < 64" "y < 64" "z < 64"
  shows "b64_groups [b64_char x, b64_char y, b64_char z, CHR ''=''] =
    ([of_nat (x * 4 + y div 16), of_nat (y mod 16 * 16 + z div 4)], True)"
  by (simp add: b64_val_char [OF assms(1)] b64_val_char [OF assms(2)] b64_val_char [OF assms(3)] b64_char_ne [OF assms(3)])

lemma b64_group3:
  assumes "x < 64" "y < 64" "z < 64" "w < 64" "b64_groups r = (bs, True)"
  shows "b64_groups ([b64_char x, b64_char y, b64_char z, b64_char w] @ r) =
    (of_nat (x * 4 + y div 16) # of_nat (y mod 16 * 16 + z div 4) # of_nat (z mod 4 * 64 + w) # bs, True)"
  by (simp add: b64_val_char [OF assms(1)] b64_val_char [OF assms(2)] b64_val_char [OF assms(3)]
      b64_val_char [OF assms(4)] b64_char_ne [OF assms(3)] b64_char_ne [OF assms(4)] assms(5))

lemma b64_groups_encode: "b64_groups (b64_encode bs) = (bs, True)"
proof (induction bs rule: b64_encode.induct)
  case (2 a)
  note A = b64_arith [of "unat a" "unat a", OF unat_byte unat_byte]
  show ?case unfolding b64_encode.simps b64_group1 [OF A(1,2)] A(7) by simp
next
  case (3 a b)
  note A = b64_arith [of "unat a" "unat b", OF unat_byte unat_byte] and B = b64_arith [of "unat b" "unat a", OF unat_byte unat_byte]
  show ?case unfolding b64_encode.simps b64_group2 [OF A(1,3) B(4)] A(8) B(9) by simp
next
  case (4 a b c r)
  note A = b64_arith [of "unat a" "unat b", OF unat_byte unat_byte] and B = b64_arith [of "unat b" "unat a", OF unat_byte unat_byte]
    and C = b64_arith [of "unat c" "unat b", OF unat_byte unat_byte] and D = b64_arith [of "unat b" "unat c", OF unat_byte unat_byte]
  have m: "(unat a mod 4 * 16 + unat b div 16) mod 16 * 16 + (unat b mod 16 * 4 + unat c div 64) div 4 = unat b"
    by (rule b64_mid [OF unat_byte unat_byte])
  show ?case unfolding b64_encode.simps b64_group3 [OF A(1,3) D(5) C(6) 4] A(8) m C(11) by simp
qed simp

lemma b64_encode_chars: "c \<in> set (b64_encode bs) \<Longrightarrow> cont_in 0 0x7F c \<and> c \<notin> {CHR '' '', CHR 0x0A, CHR 0x0D}"
proof (induction bs rule: b64_encode.induct)
  case (2 a)
  note A = b64_arith [of "unat a" "unat a", OF unat_byte unat_byte]
  from 2 b64_char_table [OF A(1)] b64_char_table [OF A(2)] show ?case by (auto simp: cont_in_def)
next
  case (3 a b)
  note A = b64_arith [of "unat a" "unat b", OF unat_byte unat_byte] and B = b64_arith [of "unat b" "unat a", OF unat_byte unat_byte]
  from 3 b64_char_table [OF A(1)] b64_char_table [OF A(3)] b64_char_table [OF B(4)] show ?case
    by (auto simp: cont_in_def)
next
  case (4 a b c' r)
  note A = b64_arith [of "unat a" "unat b", OF unat_byte unat_byte] and C = b64_arith [of "unat c'" "unat b", OF unat_byte unat_byte]
    and D = b64_arith [of "unat b" "unat c'", OF unat_byte unat_byte]
  from 4 b64_char_table [OF A(1)] b64_char_table [OF A(3)] b64_char_table [OF D(5)] b64_char_table [OF C(6)] show ?case
    by auto
qed simp

lemma b64_decode_encode: "b64_decode (b64_encode bs) = Inr bs"
proof -
  have "filter (\<lambda>c. c \<noteq> CHR 0x0A \<and> c \<noteq> CHR 0x0D) (b64_encode bs) = b64_encode bs"
    by (rule filter_True) (use b64_encode_chars in auto)
  then show ?thesis by (simp add: b64_decode_def b64_groups_encode)
qed

lemma b64_encode_inj: "b64_encode a = b64_encode b \<Longrightarrow> a = b"
  by (metis b64_decode_encode sum.inject(2))

lemma b64_encode_ascii: "ascii (b64_encode bs)"
  using b64_encode_chars by (auto simp: ascii_def list_all_iff)

end
