(* ===== verification/Silo.thy ===== *)
theory Silo
  imports Interfaces CGroups Util Bases Json
begin

text \<open>
  The silo (\<open>controller/controller.go\<close>, \<open>controller/options.go\<close> and the invocation file of
  \<open>controller/reexec.go\<close>): its options, its states, and the operations that build, initialise, start,
  await, measure and close it. A method is a function of the silo and the trace of host calls; the
  address pool is passed to the one method that changes it.
\<close>

section \<open>Options\<close>

record LiteralAccountMapping =
  UIDMappings :: "SysProcIDMap list"
  GIDMappings :: "SysProcIDMap list"

text \<open>\<open>UserIDMaps\<close> and \<open>GroupIDMaps\<close> of the only implementation of \<open>accountMappers\<close>; neither fails.\<close>

definition UserIDMaps :: "LiteralAccountMapping \<Rightarrow> SysProcIDMap list result" where
  "UserIDMaps l = Inr (UIDMappings l)"

definition GroupIDMaps :: "LiteralAccountMapping \<Rightarrow> SysProcIDMap list result" where
  "GroupIDMaps l = Inr (GIDMappings l)"

record Options =
  o_Class :: string
  o_Tags :: "string list"
  o_Grant :: "(string \<times> bool) list"
  o_Bases :: "base list"
  o_Root :: string
  o_MakeFromFolder :: string
  o_accountMappers :: "LiteralAccountMapping list"
  o_DisableAcctNamespace :: bool
  o_Hostname :: string
  o_Interfaces :: "interf list"
  o_Nameservers :: "string list"
  o_HostMap :: "(string \<times> string) list option"
  o_CPUSharePercent :: int
  o_MaxMemoryBytes :: int
  o_Cmd :: string
  o_Args :: "string list"
  o_Env :: "string list"

text \<open>\<open>os.Getuid\<close> and \<open>os.Getgid\<close> are constants of the process.\<close>

definition ParentToRootMapping :: "host \<Rightarrow> LiteralAccountMapping" where
  "ParentToRootMapping h =
     \<lparr>UIDMappings = [MapUser (h_int h [] (Proc Getuid)) 0],
      GIDMappings = [MapGroup (h_int h [] (Proc Getgid)) 0]\<rparr>"

definition localhost_map :: "(string \<times> string) list option \<Rightarrow> (string \<times> string) list option" where
  "localhost_map m =
     (case m of
        None \<Rightarrow> Some [(''localhost'', ''127.0.0.1'')]
      | Some hm \<Rightarrow> if map_of hm ''localhost'' = None \<or> map_of hm ''localhost'' = Some []
                   then Some (AList.update ''localhost'' ''127.0.0.1'' hm) else Some hm)"

definition Finalize :: "host \<Rightarrow> Options \<Rightarrow> Options" where
  "Finalize h opts =
     opts\<lparr>o_accountMappers :=
           (if o_accountMappers opts = [] \<and> \<not> o_DisableAcctNamespace opts
            then o_accountMappers opts @ [ParentToRootMapping h] else o_accountMappers opts),
         o_Env := o_Env opts @ [''PS1='' @ [CHR 0x5C] @ ''u@'' @ [CHR 0x5C] @ ''h:'' @ [CHR 0x5C] @ ''w> '',
                                ''CLASS='' @ o_Class opts],
         o_Bases := o_Bases opts @ [DevNodesBase],
         o_Nameservers := (if o_Nameservers opts = [] then [''8.8.8.8''] else o_Nameservers opts),
         o_HostMap := localhost_map (o_HostMap opts)\<rparr>"

definition AddFS :: "base \<Rightarrow> Options \<Rightarrow> Options" where
  "AddFS b opts = opts\<lparr>o_Bases := o_Bases opts @ [b]\<rparr>"

section \<open>The silo\<close>

definition ErrAlreadyRunning :: gerr where "ErrAlreadyRunning = ErrSentinel ''silo already running''"
definition ErrNotRunning :: gerr where "ErrNotRunning = ErrSentinel ''silo not running''"
definition ErrNotPending :: gerr where "ErrNotPending = ErrSentinel ''silo not pending''"

datatype State = StateSetup | StateInternalError | StatePending | StateRunning | StateFinished

text \<open>
  The child \<open>exec.Cmd\<close>: the root it is given, its clone flags and identity mappings, the process once
  it is started, and, once it has been awaited, whether it exited by itself (\<open>ProcessState.Exited\<close>).
\<close>

record Cmd =
  cmd_Root :: string
  Cloneflags :: "64 word"
  UidMappings :: "SysProcIDMap list"
  GidMappings :: "SysProcIDMap list"
  Process :: "int option"
  ProcessState :: "bool option"

record Silo =
  s_ID :: "byte list"
  s_IDHex :: string
  s_State :: State
  s_Root :: string
  s_child :: "Cmd option"
  s_Class :: string
  s_Tags :: "string list"
  s_Name :: string
  s_Grant :: "(string \<times> bool) list"
  s_Cmd :: string
  s_Args :: "string list"
  s_Env :: "string list"
  s_Hostname :: string
  s_Interfaces :: "interf list"
  s_Nameservers :: "string list"
  s_HostMap :: "(string \<times> string) list"
  s_cgroupConfig :: "CGroupConfig option"
  s_cgroupSet :: "CGroupSet option"
  s_bases :: "base list"
  s_userMappings :: "LiteralAccountMapping list"
  s_binds :: "bindMntInfo list"
  s_shouldDeleteRoot :: bool

definition sizeID :: nat where "sizeID = 4"

text \<open>A value of Go's \<open>int64\<close>, and of \<open>int\<close> on a 64-bit machine.\<close>

definition wrap64 :: "int \<Rightarrow> int" where
  "wrap64 x = (x + 2 ^ 63) mod 2 ^ 64 - 2 ^ 63"

definition silo_limits :: "Options \<Rightarrow> CGroupConfig option" where
  "silo_limits opts =
     (if o_CPUSharePercent opts > 0 \<or> o_MaxMemoryBytes opts > 0 then
        let second = 1000000; refreshHertz = 20 in
        Some \<lparr>CPUTimeBetweenPeriodsUS = (if o_CPUSharePercent opts > 0 then second div refreshHertz else 0),
              CPUTimePerPeriodUS = (if o_CPUSharePercent opts > 0
                then wrap64 (second div refreshHertz div 100 * o_CPUSharePercent opts) else 0),
              MemoryMaxBytes = (if o_MaxMemoryBytes opts > 0 then o_MaxMemoryBytes opts else 0)\<rparr>
      else None)"

text \<open>
  \<open>NewSilo\<close>. The error of \<open>os.Mkdir\<close> is not looked at (the code tests the earlier, nil, error). The
  two maps are copied; their order is that of the iteration.
\<close>

definition new_silo :: "string \<Rightarrow> Options \<Rightarrow> byte list \<Rightarrow> Silo" where
  "new_silo name opts idb =
     \<lparr>s_ID = idb, s_IDHex = hexString idb, s_State = StateSetup, s_Root = o_Root opts, s_child = None,
      s_Class = o_Class opts, s_Tags = o_Tags opts, s_Name = name, s_Grant = o_Grant opts,
      s_Cmd = o_Cmd opts, s_Args = o_Args opts, s_Env = o_Env opts,
      s_Hostname = (if o_Hostname opts = [] then hexString idb else o_Hostname opts),
      s_Interfaces = o_Interfaces opts, s_Nameservers = o_Nameservers opts,
      s_HostMap = (case o_HostMap opts of None \<Rightarrow> [] | Some m \<Rightarrow> m),
      s_cgroupConfig = silo_limits opts, s_cgroupSet = None,
      s_bases = o_Bases opts, s_userMappings = o_accountMappers opts, s_binds = [],
      s_shouldDeleteRoot = False\<rparr>"

definition NewSilo :: "host \<Rightarrow> string \<Rightarrow> Options \<Rightarrow> Silo io" where
  "NewSilo h name opts =
     bind_io (RandBytes h sizeID) (\<lambda>idb.
       let s = new_silo name opts idb in
       if o_MakeFromFolder opts \<noteq> [] \<and> o_Root opts \<noteq> []
       then fail (ErrNew ''cannot set both Root and MakeFromFolder'')
       else if o_MakeFromFolder opts \<noteq> [] then
         let root = path_Join [o_MakeFromFolder opts, ''s'' @ s_IDHex s] in
         then_io (ignore_io (do_call h (Fs (Mkdir root (oct 750)))))
                 (ret (s\<lparr>s_Root := root, s_shouldDeleteRoot := True\<rparr>))
       else ret s)"

section \<open>The invocation file\<close>

record invocationInfo =
  i_ID :: "byte list"
  i_IDHex :: string
  i_Hostname :: string
  i_OnStartCommands :: "StartupCommand list"
  i_Binds :: "bindMntInfo list"
  i_Cmd :: string
  i_Args :: "string list"
  i_Env :: "string list"

definition invocationInfoFile :: string where "invocationInfoFile = ''invocation.json''"

definition command_json :: "StartupCommand \<Rightarrow> json" where
  "command_json c =
     JObj [(''Cmd'', JStr (sc_Cmd c)), (''Args'', json_strings (sc_Args c)),
           (''WaitForInterface'', JStr (sc_WaitForInterface c))]"

definition bind_json :: "bindMntInfo \<Rightarrow> json" where
  "bind_json b =
     JObj [(''SysPath'', JStr (bind_SysPath b)), (''SiloPath'', JStr (bind_SiloPath b)),
           (''IsFile'', JBool (bind_IsFile b))]"

definition info_json :: "invocationInfo \<Rightarrow> json" where
  "info_json d =
     JObj [(''ID'', JStr (b64_encode (i_ID d))), (''IDHex'', JStr (i_IDHex d)),
           (''Hostname'', JStr (i_Hostname d)),
           (''OnStartCommands'', json_slice command_json (i_OnStartCommands d)),
           (''Binds'', json_slice bind_json (i_Binds d)),
           (''Cmd'', JStr (i_Cmd d)), (''Args'', json_strings (i_Args d)), (''Env'', json_strings (i_Env d))]"

text \<open>The commands of the interfaces, each asked with its position.\<close>

fun start_commands :: "string \<Rightarrow> nat \<Rightarrow> interf list \<Rightarrow> StartupCommand list" where
  "start_commands idHex k [] = []"
| "start_commands idHex k (i # is) = SiloSetup idHex k i @ start_commands idHex (Suc k) is"

definition silo_info :: "Silo \<Rightarrow> invocationInfo" where
  "silo_info s =
     \<lparr>i_ID = s_ID s, i_IDHex = s_IDHex s, i_Hostname = s_Hostname s,
      i_OnStartCommands = start_commands (s_IDHex s) 0 (s_Interfaces s), i_Binds = s_binds s,
      i_Cmd = s_Cmd s, i_Args = s_Args s, i_Env = s_Env s\<rparr>"

definition writeInvocationInfo :: "host \<Rightarrow> Silo \<Rightarrow> unit io" where
  "writeInvocationInfo h s =
     do_call h (Fs (WriteFile (path_Join [s_Root s, invocationInfoFile]) (Marshal (info_json (silo_info s))) (oct 755)))"

section \<open>Initialisation\<close>

fun collect_maps :: "('a \<Rightarrow> 'b list result) \<Rightarrow> 'a list \<Rightarrow> 'b list result" where
  "collect_maps f [] = Inr []"
| "collect_maps f (p # ps) = bindR (f p) (\<lambda>m. bindR (collect_maps f ps) (\<lambda>out. Inr (m @ out)))"

definition userMaps :: "Silo \<Rightarrow> SysProcIDMap list result" where
  "userMaps s = collect_maps UserIDMaps (s_userMappings s)"

definition groupMaps :: "Silo \<Rightarrow> SysProcIDMap list result" where
  "groupMaps s = collect_maps GroupIDMaps (s_userMappings s)"

definition init_root :: "host \<Rightarrow> Silo \<Rightarrow> Silo io" where
  "init_root h s =
     (if s_Root s = []
      then bind_io (perform h (Fs (TempDir [] (''s'' @ s_IDHex s))) (h_str h))
             (\<lambda>root. ret (s\<lparr>s_Root := root, s_shouldDeleteRoot := True\<rparr>))
      else ret s)"

definition write_lines :: "host \<Rightarrow> string \<Rightarrow> string list \<Rightarrow> unit io" where
  "write_lines h p ls = each_io (\<lambda>l. ignore_io (do_call h (Fs (FWrite p l)))) ls"

definition silo_flags :: "64 word" where
  "silo_flags = or (or (or (or NamespaceDomains NamespaceIPC) NamespaceProcess) NamespaceFS) NamespaceNet"

text \<open>The last part of \<open>Init\<close>: the identity mappings, and the command that becomes the child.\<close>

definition init_child :: "Silo \<Rightarrow> unit res \<times> Silo" where
  "init_child s =
     (let cmd = \<lparr>cmd_Root = s_Root s, Cloneflags = silo_flags, UidMappings = [], GidMappings = [],
                 Process = None, ProcessState = None\<rparr> in
      if s_userMappings s \<noteq> [] then
        (case userMaps s of
           Inl e \<Rightarrow> (Err e, s\<lparr>s_State := StateInternalError\<rparr>)
         | Inr userMap \<Rightarrow>
           (case groupMaps s of
              Inl e \<Rightarrow> (Err e, s\<lparr>s_State := StateInternalError\<rparr>)
            | Inr groupMap \<Rightarrow>
                (Ok (), s\<lparr>s_child := Some (cmd\<lparr>UidMappings := userMap, GidMappings := groupMap,
                              Cloneflags := or silo_flags NamespaceUser\<rparr>),
                          s_State := StatePending\<rparr>)))
      else (Ok (), s\<lparr>s_child := Some cmd, s_State := StatePending\<rparr>))"

definition init_invocation :: "host \<Rightarrow> Silo \<Rightarrow> trace \<Rightarrow> unit res \<times> Silo \<times> trace" where
  "init_invocation h s t =
     (case writeInvocationInfo h s t of
        (Ok _, t1) \<Rightarrow> (let (r, s') = init_child s in (r, s', t1))
      | (Err e, t1) \<Rightarrow> (Err e, s\<lparr>s_State := StateInternalError\<rparr>, t1)
      | (Crash x, t1) \<Rightarrow> (Crash x, s, t1))"

definition resolv_path :: "Silo \<Rightarrow> string" where
  "resolv_path s = path_Join [s_Root s, ''etc'', ''resolv.conf'']"

definition hosts_path :: "Silo \<Rightarrow> string" where
  "hosts_path s = path_Join [s_Root s, ''etc'', ''hosts'']"

definition resolv_lines :: "Silo \<Rightarrow> string list" where
  "resolv_lines s = map (\<lambda>n. ''nameserver '' @ n @ [CHR 0x0A]) (s_Nameservers s)"

definition hosts_lines :: "Silo \<Rightarrow> string list" where
  "hosts_lines s = map (\<lambda>(host, addr). addr @ '' '' @ host @ [CHR 0x0A]) (s_HostMap s)"

text \<open>The files are closed by \<open>defer\<close>, when \<open>Init\<close> returns, the one opened last first.\<close>

definition close_file :: "host \<Rightarrow> string \<Rightarrow> trace \<Rightarrow> trace" where
  "close_file h p t = snd (ignore_io (do_call h (Fs (FClose p))) t)"

definition init_hosts :: "host \<Rightarrow> Silo \<Rightarrow> trace \<Rightarrow> unit res \<times> Silo \<times> trace" where
  "init_hosts h s t =
     (case do_call h (Fs (OpenTrunc (hosts_path s) (oct 755))) t of
        (Ok _, t1) \<Rightarrow>
          (let (r, s', t2) = init_invocation h s (snd (write_lines h (hosts_path s) (hosts_lines s) t1))
           in (r, s', close_file h (hosts_path s) t2))
      | (Err e, t1) \<Rightarrow> (Err e, s, t1)
      | (Crash x, t1) \<Rightarrow> (Crash x, s, t1))"

definition init_files :: "host \<Rightarrow> Silo \<Rightarrow> trace \<Rightarrow> unit res \<times> Silo \<times> trace" where
  "init_files h s t =
     (case do_call h (Fs (OpenTrunc (resolv_path s) (oct 755))) t of
        (Ok _, t1) \<Rightarrow>
          (let (r, s', t2) = init_hosts h s (snd (write_lines h (resolv_path s) (resolv_lines s) t1))
           in (r, s', close_file h (resolv_path s) t2))
      | (Err e, t1) \<Rightarrow> (Err e, s, t1)
      | (Crash x, t1) \<Rightarrow> (Crash x, s, t1))"

definition Init :: "host \<Rightarrow> Silo \<Rightarrow> trace \<Rightarrow> unit res \<times> Silo \<times> trace" where
  "Init h s t =
     (if s_State s \<noteq> StateSetup then (Err ErrAlreadyRunning, s, t)
      else case init_root h s t of
        (Err e, t1) \<Rightarrow> (Err e, s, t1)
      | (Crash x, t1) \<Rightarrow> (Crash x, s, t1)
      | (Ok s1, t1) \<Rightarrow>
        (case bases_loop h (s_Root s1) (s_bases s1) (s_binds s1) t1 of
           (Err e, bs, bi, t2) \<Rightarrow> (Err e, s1\<lparr>s_bases := bs, s_binds := bi, s_State := StateInternalError\<rparr>, t2)
         | (Crash x, bs, bi, t2) \<Rightarrow> (Crash x, s1\<lparr>s_bases := bs, s_binds := bi\<rparr>, t2)
         | (Ok _, bs, bi, t2) \<Rightarrow> init_files h (s1\<lparr>s_bases := bs, s_binds := bi\<rparr>) t2))"

section \<open>Starting, awaiting, measuring, closing\<close>

definition start_cgroups :: "host \<Rightarrow> int \<Rightarrow> Silo \<Rightarrow> trace \<Rightarrow> unit res \<times> Silo \<times> trace" where
  "start_cgroups h pid s t =
     (case s_cgroupConfig s of
        None \<Rightarrow> (Ok (), s, t)
      | Some c \<Rightarrow>
        (case NewCGroupSet h (s_IDHex s) pid c t of
           (Ok cset, t1) \<Rightarrow> (Ok (), s\<lparr>s_cgroupSet := Some cset\<rparr>, t1)
         | (Err e, t1) \<Rightarrow> (Err e, s\<lparr>s_cgroupSet := None\<rparr>, t1)
         | (Crash x, t1) \<Rightarrow> (Crash x, s, t1)))"

text \<open>The state is set before the child is started, and stays whatever happens after.\<close>

definition Start :: "host \<Rightarrow> Silo \<Rightarrow> trace \<Rightarrow> unit res \<times> Silo \<times> trace" where
  "Start h s t =
     (if s_State s \<noteq> StatePending then (Err ErrNotPending, s, t)
      else let s1 = s\<lparr>s_State := StateRunning\<rparr> in
      case s_child s1 of
        None \<Rightarrow> (Crash ''nil pointer dereference'', s1, t)
      | Some cmd \<Rightarrow>
        (case perform h (Proc (StartChild ''colexControllerContainerInit'' [cmd_Root cmd] (unat (Cloneflags cmd)))) (h_int h) t of
           (Err e, t1) \<Rightarrow> (Err e, s1, t1)
         | (Crash x, t1) \<Rightarrow> (Crash x, s1, t1)
         | (Ok pid, t1) \<Rightarrow>
           (let s2 = s1\<lparr>s_child := Some (cmd\<lparr>Process := Some pid\<rparr>)\<rparr> in
            case setup_loop (Setup h pid (s_IDHex s2)) 0 (s_Interfaces s2) t1 of
              (Ok _, ifs, t2) \<Rightarrow> start_cgroups h pid (s2\<lparr>s_Interfaces := ifs\<rparr>) t2
            | (Err e, ifs, t2) \<Rightarrow> (Err e, s2\<lparr>s_Interfaces := ifs\<rparr>, t2)
            | (Crash x, ifs, t2) \<Rightarrow> (Crash x, s2\<lparr>s_Interfaces := ifs\<rparr>, t2))))"

text \<open>
  \<open>exec.Cmd.Wait\<close>: an error if there is no process or it has been awaited already. A child that fails
  is an error too (\<open>*exec.ExitError\<close>), with its state recorded.
\<close>

definition exit_error :: gerr where "exit_error = ErrSentinel ''exit status''"

definition cmd_Wait :: "host \<Rightarrow> Cmd \<Rightarrow> trace \<Rightarrow> unit res \<times> Cmd \<times> trace" where
  "cmd_Wait h cmd t =
     (case Process cmd of
        None \<Rightarrow> (Err (ErrNew ''exec: not started''), cmd, t)
      | Some pid \<Rightarrow>
        if ProcessState cmd \<noteq> None then (Err (ErrNew ''exec: Wait was already called''), cmd, t)
        else let c = Proc (WaitChild pid); done = cmd\<lparr>ProcessState := Some (h_flag h t c)\<rparr> in
          (case h_err h t c of
             None \<Rightarrow> (Ok (), done, t @ [(c, None)])
           | Some e \<Rightarrow> (Err e, if e = exit_error then done else cmd, t @ [(c, Some e)])))"

definition Wait :: "host \<Rightarrow> Silo \<Rightarrow> trace \<Rightarrow> unit res \<times> Silo \<times> trace" where
  "Wait h s t =
     (if s_State s \<noteq> StateRunning then (Err ErrNotRunning, s, t)
      else case s_child s of
        None \<Rightarrow> (Crash ''nil pointer dereference'', s, t)
      | Some cmd \<Rightarrow> (let (r, cmd', t') = cmd_Wait h cmd t in (r, s\<lparr>s_child := Some cmd'\<rparr>, t')))"

definition IsRunning :: "Silo \<Rightarrow> bool res" where
  "IsRunning s =
     (case s_child s of
        None \<Rightarrow> Crash ''nil pointer dereference''
      | Some cmd \<Rightarrow> Ok (case ProcessState cmd of None \<Rightarrow> False | Some exited \<Rightarrow> \<not> exited))"

definition mem_zero :: ProcMem where
  "mem_zero = \<lparr>mem_Size = 0, mem_Resident = 0, mem_Share = 0, mem_MinorFaults = 0,
               mem_MajorFaults = 0, mem_PageFaults = 0\<rparr>"

definition mem_add :: "ProcMem \<Rightarrow> ProcMem \<Rightarrow> ProcMem" where
  "mem_add a b =
     \<lparr>mem_Size = mem_Size a + mem_Size b, mem_Resident = mem_Resident a + mem_Resident b,
      mem_Share = mem_Share a + mem_Share b, mem_MinorFaults = mem_MinorFaults a + mem_MinorFaults b,
      mem_MajorFaults = mem_MajorFaults a + mem_MajorFaults b,
      mem_PageFaults = mem_PageFaults a + mem_PageFaults b\<rparr>"

fun mem_loop :: "host \<Rightarrow> int list \<Rightarrow> ProcMem \<Rightarrow> ProcMem io" where
  "mem_loop h [] out = ret out"
| "mem_loop h (pid # pids) out =
     bind_io (perform h (Proc (ProcMemGet pid)) (h_mem h)) (\<lambda>stat. mem_loop h pids (mem_add out stat))"

definition MemStats :: "host \<Rightarrow> Silo \<Rightarrow> ProcMem io" where
  "MemStats h s =
     (if s_State s \<noteq> StateRunning then fail ErrNotRunning
      else case s_child s of
        Some cmd \<Rightarrow>
          (case Process cmd of
             Some pid \<Rightarrow> bind_io (FindProcessesInNamespace h pid) (\<lambda>pids. mem_loop h pids mem_zero)
           | None \<Rightarrow> crash ''nil pointer dereference'')
      | None \<Rightarrow> crash ''nil pointer dereference'')"

text \<open>\<open>Close\<close>: the signal 0 tells whether the child is alive; then the teardown, in order.\<close>

definition close_kill :: "host \<Rightarrow> int \<Rightarrow> unit io" where
  "close_kill h pid =
     bind_io (try_io (do_call h (Proc (Signal pid 0)))) (\<lambda>sigErr.
       if sigErr = None \<or> sigErr = Some EPERM then do_call h (Proc (KillProcess pid)) else ret ())"

definition close_root :: "host \<Rightarrow> Silo \<Rightarrow> unit io" where
  "close_root h s = (if s_shouldDeleteRoot s then do_call h (Fs (RemoveAll (s_Root s))) else ret ())"

definition close_cgroups :: "host \<Rightarrow> Silo \<Rightarrow> unit io" where
  "close_cgroups h s = (case s_cgroupSet s of None \<Rightarrow> ret () | Some cset \<Rightarrow> cg_Close h cset)"

definition close_parts :: "host \<Rightarrow> Silo \<Rightarrow> IPPool \<Rightarrow> trace \<Rightarrow> unit res \<times> IPPool \<times> trace" where
  "close_parts h s p t =
     (case each_io base_Teardown (s_bases s) t of
        (Ok _, t1) \<Rightarrow>
          (case teardown_loop (Teardown h) (s_Interfaces s) p t1 of
             (Ok _, p2, t2) \<Rightarrow>
               (let (r, t3) = then_io (close_cgroups h s) (close_root h s) t2 in (r, p2, t3))
           | (Err e, p2, t2) \<Rightarrow> (Err e, p2, t2)
           | (Crash x, p2, t2) \<Rightarrow> (Crash x, p2, t2))
      | (Err e, t1) \<Rightarrow> (Err e, p, t1)
      | (Crash x, t1) \<Rightarrow> (Crash x, p, t1))"

definition Close :: "host \<Rightarrow> Silo \<Rightarrow> IPPool \<Rightarrow> trace \<Rightarrow> unit res \<times> Silo \<times> IPPool \<times> trace" where
  "Close h s p t =
     (case (s_State s, s_child s) of
        (StateRunning, None) \<Rightarrow> (Crash ''nil pointer dereference'', s, p, t)
      | (StateRunning, Some cmd) \<Rightarrow>
        (case Process cmd of
           None \<Rightarrow> (let (r, t1) = close_root h s t in (r, s, p, t1))
         | Some pid \<Rightarrow>
           (case close_kill h pid t of
              (Ok _, t1) \<Rightarrow>
                (let s1 = s\<lparr>s_State := StateFinished\<rparr>; (r, p', t2) = close_parts h s1 p t1 in (r, s1, p', t2))
            | (Err e, t1) \<Rightarrow> (Err e, s, p, t1)
            | (Crash x, t1) \<Rightarrow> (Crash x, s, p, t1)))
      | _ \<Rightarrow> (let (r, t1) = close_root h s t in (r, s, p, t1)))"


section \<open>Facts\<close>

subsection \<open>Initialisation\<close>

lemma collect_maps_Inr: "(\<And>x. f x = Inr (g x)) \<Longrightarrow> collect_maps f xs = Inr (concat (map g xs))"
  by (induction xs) simp_all

lemma maps_of_silo:
  "userMaps s = Inr (concat (map UIDMappings (s_userMappings s)))"
  "groupMaps s = Inr (concat (map GIDMappings (s_userMappings s)))"
  unfolding userMaps_def groupMaps_def by (rule collect_maps_Inr; simp add: UserIDMaps_def GroupIDMaps_def)+

definition silo_cmd :: "Silo \<Rightarrow> Cmd" where
  "silo_cmd s =
     \<lparr>cmd_Root = s_Root s,
      Cloneflags = (if s_userMappings s = [] then silo_flags else or silo_flags NamespaceUser),
      UidMappings = concat (map UIDMappings (s_userMappings s)),
      GidMappings = concat (map GIDMappings (s_userMappings s)),
      Process = None, ProcessState = None\<rparr>"

lemma init_child_ok: "init_child s = (Ok (), s\<lparr>s_child := Some (silo_cmd s), s_State := StatePending\<rparr>)"
  by (simp add: init_child_def Let_def maps_of_silo silo_cmd_def)

text \<open>
  The outcomes of the parts of \<open>Init\<close>: the silo becomes pending with its child, or an internal error,
  or is left as it was.
\<close>

definition init_outcome :: "unit res \<Rightarrow> Silo \<Rightarrow> Silo \<Rightarrow> bool" where
  "init_outcome r s s' \<longleftrightarrow>
     (r = Ok () \<and> s' = s\<lparr>s_child := Some (silo_cmd s), s_State := StatePending\<rparr>) \<or>
     (\<exists>e. r = Err e \<and> (s' = s \<or> s' = s\<lparr>s_State := StateInternalError\<rparr>))"

lemma init_invocation_outcome: "init_invocation h s t = (r, s', t') \<Longrightarrow> init_outcome r s s'"
  by (auto simp: init_invocation_def init_outcome_def init_child_ok writeInvocationInfo_def io_ok
           split: prod.splits res.splits)

lemma init_hosts_outcome: "init_hosts h s t = (r, s', t') \<Longrightarrow> init_outcome r s s'"
  by (auto simp: init_hosts_def Let_def io_ok dest!: init_invocation_outcome split: prod.splits res.splits)
     (auto simp: init_outcome_def)

lemma init_files_outcome: "init_files h s t = (r, s', t') \<Longrightarrow> init_outcome r s s'"
  by (auto simp: init_files_def Let_def io_ok dest!: init_hosts_outcome split: prod.splits res.splits)
     (auto simp: init_outcome_def)

lemma init_root_cases:
  assumes "init_root h s t = (r, t')"
  shows "(\<exists>s1. r = Ok s1 \<and> (s1 = s \<or> (\<exists>root. s1 = s\<lparr>s_Root := root, s_shouldDeleteRoot := True\<rparr>))) \<or> (\<exists>e. r = Err e)"
  using assms by (auto simp: init_root_def io_defs split: if_splits option.splits)

text \<open>What \<open>Init\<close> may change.\<close>

definition init_frame :: "Silo \<Rightarrow> Silo \<Rightarrow> bool" where
  "init_frame s s' \<longleftrightarrow> s_ID s' = s_ID s \<and> s_IDHex s' = s_IDHex s \<and> s_Interfaces s' = s_Interfaces s \<and>
     s_cgroupConfig s' = s_cgroupConfig s \<and> s_cgroupSet s' = s_cgroupSet s \<and> s_Name s' = s_Name s \<and>
     s_Hostname s' = s_Hostname s \<and> s_Cmd s' = s_Cmd s \<and> s_Args s' = s_Args s \<and> s_Env s' = s_Env s \<and>
     s_Class s' = s_Class s \<and> s_Tags s' = s_Tags s \<and> s_Grant s' = s_Grant s"

lemma Init_cases:
  assumes "Init h s t = (r, s', t')"
  shows "(s' = s \<and> (\<exists>e. r = Err e)) \<or>
    (s_State s = StateSetup \<and> init_frame s s' \<and>
      (r = Ok () \<and> s_State s' = StatePending \<and> s_child s' = Some (silo_cmd s') \<or>
       (\<exists>e. r = Err e) \<and> s_State s' \<in> {StateSetup, StateInternalError} \<and> s_child s' = s_child s \<or>
       (\<exists>x. r = Crash x) \<and> s_State s' = StateSetup \<and> s_child s' = s_child s))"
proof (cases "s_State s = StateSetup")
  case False
  with assms show ?thesis by (auto simp: Init_def)
next
  case True
  obtain r1 t1 where i: "init_root h s t = (r1, t1)" by fastforce
  from init_root_cases [OF i] consider e where "r1 = Err e"
    | s1 where "r1 = Ok s1" "s1 = s \<or> (\<exists>root. s1 = s\<lparr>s_Root := root, s_shouldDeleteRoot := True\<rparr>)" by blast
  then show ?thesis
  proof cases
    case 1
    with assms True i show ?thesis by (auto simp: Init_def)
  next
    case (2 s1)
    note r1 = 2(1)
    from 2 have s1: "init_frame s s1" "s_State s1 = StateSetup" "s_child s1 = s_child s"
      using True by (auto simp: init_frame_def)
    obtain r2 bs bi t2 where b: "bases_loop h (s_Root s1) (s_bases s1) (s_binds s1) t1 = (r2, bs, bi, t2)"
      by (cases "bases_loop h (s_Root s1) (s_bases s1) (s_binds s1) t1")
    let ?s2 = "s1\<lparr>s_bases := bs, s_binds := bi\<rparr>"
    show ?thesis
    proof (cases r2)
      case (Ok x)
      with assms True i r1 b have "init_files h ?s2 t2 = (r, s', t')" by (simp add: Init_def)
      from init_files_outcome [OF this] True s1 show ?thesis
        unfolding init_outcome_def by (elim disjE exE conjE) (simp_all add: init_frame_def silo_cmd_def)
    qed (use assms True i r1 b s1 in \<open>auto simp: Init_def init_frame_def\<close>)
  qed
qed

subsection \<open>Start, Wait and Close\<close>

lemma cgroupSet_self: "\<exists>cs. s = s\<lparr>s_cgroupSet := cs\<rparr>"
  by (rule exI [of _ "s_cgroupSet s"]) simp

lemma ProcessState_self: "\<exists>ps. c = c\<lparr>ProcessState := ps\<rparr>"
  by (rule exI [of _ "ProcessState c"]) simp

lemma start_cgroups_frame:
  assumes "start_cgroups h pid s t = (r, s', t')"
  shows "\<exists>cs. s' = s\<lparr>s_cgroupSet := cs\<rparr>"
  using assms cgroupSet_self [of s]
  by (auto simp: start_cgroups_def split: option.splits prod.splits res.splits)

definition started_silo :: "Silo \<Rightarrow> Cmd \<Rightarrow> int \<Rightarrow> interf list \<Rightarrow> CGroupSet option \<Rightarrow> Silo" where
  "started_silo s cmd pid ifs cs =
     s\<lparr>s_State := StateRunning, s_child := Some (cmd\<lparr>Process := Some pid\<rparr>), s_Interfaces := ifs, s_cgroupSet := cs\<rparr>"

lemma Start_cases:
  assumes "Start h s t = (r, s', t')"
  shows "(s_State s \<noteq> StatePending \<and> s' = s \<and> r = Err ErrNotPending \<and> t' = t) \<or>
    (s_State s = StatePending \<and> s_child s = None \<and> (\<exists>x. r = Crash x) \<and> s' = s\<lparr>s_State := StateRunning\<rparr>) \<or>
    (\<exists>cmd e. s_State s = StatePending \<and> s_child s = Some cmd \<and> r = Err e \<and> s' = s\<lparr>s_State := StateRunning\<rparr>) \<or>
    (\<exists>cmd pid r1 ifs t1 t2 cs. s_State s = StatePending \<and> s_child s = Some cmd \<and>
       setup_loop (Setup h pid (s_IDHex s)) 0 (s_Interfaces s) t1 = (r1, ifs, t2) \<and> (r = Ok () \<longrightarrow> r1 = Ok ()) \<and>
       s' = started_silo s cmd pid ifs cs)"
proof -
  consider "s_State s \<noteq> StatePending" | "s_State s = StatePending" "s_child s = None"
    | cmd where "s_State s = StatePending" "s_child s = Some cmd" by (cases "s_child s") auto
  then show ?thesis
  proof cases
    case (3 cmd)
    let ?c = "Proc (StartChild ''colexControllerContainerInit'' [cmd_Root cmd] (unat (Cloneflags cmd)))"
    show ?thesis
    proof (cases "h_err h t ?c")
      case (Some e)
      with 3 assms show ?thesis by (auto simp: Start_def perform_def)
    next
      case None
      let ?pid = "h_int h t ?c"
      obtain r1 ifs t2 where l: "setup_loop (Setup h ?pid (s_IDHex s)) 0 (s_Interfaces s) (t @ [(?c, None)]) = (r1, ifs, t2)"
        by (cases "setup_loop (Setup h ?pid (s_IDHex s)) 0 (s_Interfaces s) (t @ [(?c, None)])")
      let ?s2 = "s\<lparr>s_State := StateRunning, s_child := Some (cmd\<lparr>Process := Some ?pid\<rparr>), s_Interfaces := ifs\<rparr>"
      have "(\<exists>cs. s' = started_silo s cmd ?pid ifs cs) \<and> (r = Ok () \<longrightarrow> r1 = Ok ())"
      proof (cases r1)
        case (Ok x)
        with 3 None l assms have "start_cgroups h ?pid ?s2 t2 = (r, s', t')" by (simp add: Start_def perform_def)
        from start_cgroups_frame [OF this] Ok show ?thesis by (auto simp: started_silo_def)
      next
        case (Err e)
        with 3 None l assms have "s' = ?s2" "r = Err e" by (simp_all add: Start_def perform_def)
        then show ?thesis unfolding started_silo_def using cgroupSet_self [of ?s2] by blast
      next
        case (Crash e)
        with 3 None l assms have "s' = ?s2" "r = Crash e" by (simp_all add: Start_def perform_def)
        then show ?thesis unfolding started_silo_def using cgroupSet_self [of ?s2] by blast
      qed
      with 3 l show ?thesis by blast
    qed
  qed (use assms in \<open>auto simp: Start_def\<close>)
qed

lemma Wait_cases:
  assumes "Wait h s t = (r, s', t')"
  shows "s' = s \<or> (\<exists>cmd ps. s_State s = StateRunning \<and> s_child s = Some cmd \<and> s' = s\<lparr>s_child := Some (cmd\<lparr>ProcessState := ps\<rparr>)\<rparr>)"
proof -
  have cmd: "\<exists>ps. cmd' = cmd\<lparr>ProcessState := ps\<rparr>" if "cmd_Wait h cmd t = (r', cmd', t2)" for cmd r' cmd' t2
    using that ProcessState_self [of cmd] by (auto simp: cmd_Wait_def Let_def split: option.splits if_splits)
  show ?thesis
    using assms by (auto simp: Wait_def dest!: cmd split: if_splits option.splits prod.splits)
qed

lemma close_parts_frees:
  assumes "close_parts h s p t = (r, p', t')"
  shows "\<exists>n \<le> length (s_Interfaces s). p' = FreeAssignment (concat (map if_owes (take n (s_Interfaces s)))) p \<and>
    (r = Ok () \<longrightarrow> n = length (s_Interfaces s))"
proof -
  have b: "each_io base_Teardown bs t = (Ok (), t)" for bs
    by (induction bs) (simp_all add: base_Teardown_def io_defs)
  obtain r1 p1 t1 where l: "teardown_loop (Teardown h) (s_Interfaces s) p t = (r1, p1, t1)"
    by (cases "teardown_loop (Teardown h) (s_Interfaces s) p t")
  from si.teardown_loop_frees [OF l] obtain n where n: "n \<le> length (s_Interfaces s)"
    "r1 = Ok () \<longleftrightarrow> n = length (s_Interfaces s)" "p1 = FreeAssignment (concat (map if_owes (take n (s_Interfaces s)))) p"
    by blast
  moreover have "p' = p1" "r = Ok () \<longrightarrow> r1 = Ok ()"
    using assms l by (auto simp: close_parts_def b Let_def split: res.splits prod.splits)
  ultimately show ?thesis by blast
qed

lemma Close_cases:
  assumes "Close h s p t = (r, s', p', t')"
  shows "(s' = s \<and> p' = p) \<or>
    (\<exists>cmd pid n. s_State s = StateRunning \<and> s_child s = Some cmd \<and> Process cmd = Some pid \<and>
       s' = s\<lparr>s_State := StateFinished\<rparr> \<and> n \<le> length (s_Interfaces s) \<and>
       (r = Ok () \<longrightarrow> n = length (s_Interfaces s)) \<and>
       p' = FreeAssignment (concat (map if_owes (take n (s_Interfaces s)))) p)"
proof (cases "\<exists>cmd pid x t1. s_State s = StateRunning \<and> s_child s = Some cmd \<and> Process cmd = Some pid \<and> close_kill h pid t = (Ok x, t1)")
  case False
  with assms show ?thesis
    by (auto simp: Close_def Let_def split: State.splits option.splits prod.splits res.splits)
next
  case True
  then obtain cmd pid x t1 where c: "s_State s = StateRunning" "s_child s = Some cmd" "Process cmd = Some pid"
    "close_kill h pid t = (Ok x, t1)" by blast
  let ?s1 = "s\<lparr>s_State := StateFinished\<rparr>"
  obtain r1 p1 t2 where d: "close_parts h ?s1 p t1 = (r1, p1, t2)" by (cases "close_parts h ?s1 p t1")
  from assms c d have "r = r1" "s' = ?s1" "p' = p1" by (auto simp: Close_def)
  with close_parts_frees [OF d] c show ?thesis by auto
qed


subsection \<open>Histories of a silo\<close>

text \<open>
  A silo from its creation on, under any sequence of its methods with any answers of the host, while
  others use the pool as they like. The last component collects what \<open>Close\<close> has put back into the
  pool.
\<close>

inductive silo_reach :: "Silo \<Rightarrow> Silo \<Rightarrow> IPPool \<Rightarrow> ip list \<Rightarrow> bool" for s0 where
  new: "silo_reach s0 s0 p []"
| others: "silo_reach s0 s p given \<Longrightarrow> silo_reach s0 s q given"
| init: "silo_reach s0 s p given \<Longrightarrow> Init h s t = (r, s', t') \<Longrightarrow> silo_reach s0 s' p given"
| start: "silo_reach s0 s p given \<Longrightarrow> Start h s t = (r, s', t') \<Longrightarrow> silo_reach s0 s' p given"
| wait: "silo_reach s0 s p given \<Longrightarrow> Wait h s t = (r, s', t') \<Longrightarrow> silo_reach s0 s' p given"
| close: "silo_reach s0 s p given \<Longrightarrow> Close h s p t = (r, s', p', t') \<Longrightarrow>
    pool_free p' = pool_free p @ bck \<Longrightarrow> silo_reach s0 s' p' (given @ bck)"

text \<open>What the state says about the child.\<close>

fun child_ok :: "State \<Rightarrow> Cmd option \<Rightarrow> bool" where
  "child_ok StateSetup c = (c = None)"
| "child_ok StateInternalError c = (c = None)"
| "child_ok StatePending c = (case c of Some cmd \<Rightarrow> Process cmd = None | None \<Rightarrow> False)"
| "child_ok StateRunning c = (c \<noteq> None)"
| "child_ok StateFinished c = (case c of Some cmd \<Rightarrow> Process cmd \<noteq> None | None \<Rightarrow> False)"

text \<open>The transitions between states.\<close>

fun state_next :: "State \<Rightarrow> State \<Rightarrow> bool" where
  "state_next StateSetup s' = (s' \<in> {StateSetup, StateInternalError, StatePending})"
| "state_next StateInternalError s' = (s' = StateInternalError)"
| "state_next StatePending s' = (s' \<in> {StatePending, StateRunning})"
| "state_next StateRunning s' = (s' \<in> {StateRunning, StateFinished})"
| "state_next StateFinished s' = (s' = StateFinished)"

definition silo_inv :: "interf list \<Rightarrow> Silo \<Rightarrow> bool" where
  "silo_inv ifs s \<longleftrightarrow> child_ok (s_State s) (s_child s) \<and> map if_owes (s_Interfaces s) = map if_owes ifs"

lemma state_next_refl [simp]: "state_next x x"
  by (cases x) auto

lemma Init_inv:
  assumes "silo_inv ifs s" "Init h s t = (r, s', t')"
  shows "silo_inv ifs s' \<and> state_next (s_State s) (s_State s')"
  using assms(1) Init_cases [OF assms(2)]
  by (auto simp: silo_inv_def init_frame_def silo_cmd_def)

lemma Start_inv:
  assumes "silo_inv ifs s" "Start h s t = (r, s', t')"
  shows "silo_inv ifs s' \<and> state_next (s_State s) (s_State s')"
  using assms(1) Start_cases [OF assms(2)]
  by (auto simp: silo_inv_def started_silo_def dest: si.setup_loop_owes)

lemma Wait_inv:
  assumes "silo_inv ifs s" "Wait h s t = (r, s', t')"
  shows "silo_inv ifs s' \<and> state_next (s_State s) (s_State s')"
  using assms(1) Wait_cases [OF assms(2)] by (auto simp: silo_inv_def)

lemma Close_inv:
  assumes "silo_inv ifs s" "Close h s p t = (r, s', p', t')"
  shows "silo_inv ifs s' \<and> state_next (s_State s) (s_State s')"
  using assms(1) Close_cases [OF assms(2)] by (auto simp: silo_inv_def)

lemma owed_prefix:
  assumes "map if_owes xs = map if_owes ys" "n \<le> length xs"
  shows "n \<le> length ys" "concat (map if_owes (take n xs)) = concat (map if_owes (take n ys))"
  using assms map_eq_imp_length_eq [OF assms(1)] by (simp_all add: take_map [symmetric])

lemma silo_reach_inv:
  assumes "silo_reach s0 s p given" "s_State s0 = StateSetup" "s_child s0 = None"
  shows "silo_inv (s_Interfaces s0) s \<and>
    (\<exists>n \<le> length (s_Interfaces s0). given = concat (map if_owes (take n (s_Interfaces s0)))) \<and>
    (s_State s \<noteq> StateFinished \<longrightarrow> given = [])"
  using assms
proof induction
  case (new p)
  then show ?case by (auto simp: silo_inv_def)
next
  case (init s p given h t r s' t')
  then show ?case using Init_inv [of "s_Interfaces s0" s h t r s' t'] by (cases "s_State s") auto
next
  case (start s p given h t r s' t')
  then show ?case using Start_inv [of "s_Interfaces s0" s h t r s' t'] by (cases "s_State s") auto
next
  case (wait s p given h t r s' t')
  then show ?case using Wait_inv [of "s_Interfaces s0" s h t r s' t'] by (cases "s_State s") auto
next
  case (close s p given h t r s' p' t' bck)
  have inv: "silo_inv (s_Interfaces s0) s'" using close Close_inv by blast
  from Close_cases [OF close.hyps(2)] show ?case
  proof (elim disjE exE conjE)
    assume "s' = s" "p' = p"
    then show ?thesis using close by simp
  next
    fix cmd pid n
    assume c: "s_State s = StateRunning" "s' = s\<lparr>s_State := StateFinished\<rparr>" "n \<le> length (s_Interfaces s)"
      "p' = FreeAssignment (concat (map if_owes (take n (s_Interfaces s)))) p"
    have "given = []" using close c by simp
    moreover have "bck = concat (map if_owes (take n (s_Interfaces s)))"
      using c(4) close.hyps(3) by (simp add: FreeAssignment_def)
    moreover have "map if_owes (s_Interfaces s) = map if_owes (s_Interfaces s0)"
      using close by (simp add: silo_inv_def)
    ultimately show ?thesis using inv c owed_prefix [of "s_Interfaces s" "s_Interfaces s0" n] by auto
  qed
qed auto

lemma NewSilo_ok:
  assumes "NewSilo h name opts t = (Ok s, t')"
  shows "s_State s = StateSetup" "s_child s = None" "s_Interfaces s = o_Interfaces opts"
    "s_cgroupConfig s = silo_limits opts" "s_IDHex s = hexString (s_ID s)" "length (s_ID s) = 4" "s_Name s = name"
  using assms
  by (auto simp: NewSilo_def new_silo_def io_ok Let_def ignore_io_def sizeID_def dest!: RandBytes_ok split: if_splits)

subsection \<open>The calls of a successful initialisation\<close>

lemma calls_write_lines:
  "map fst (snd (write_lines h p ls t)) = map fst t @ map (\<lambda>l. Fs (FWrite p l)) ls"
proof (induction ls arbitrary: t)
  case Nil
  then show ?case by (simp add: write_lines_def ret_def)
next
  case (Cons l ls)
  have "\<exists>e. ignore_io (do_call h (Fs (FWrite p l))) t = (Ok (), t @ [(Fs (FWrite p l), e)])"
    by (cases "h_err h t (Fs (FWrite p l))") (simp_all add: io_defs)
  then obtain e where "ignore_io (do_call h (Fs (FWrite p l))) t = (Ok (), t @ [(Fs (FWrite p l), e)])" by blast
  then have "write_lines h p (l # ls) t = write_lines h p ls (t @ [(Fs (FWrite p l), e)])"
    by (simp add: write_lines_def then_io_def bind_io_def)
  then show ?case using Cons by simp
qed

lemma calls_close_file: "map fst (close_file h p t) = map fst t @ [Fs (FClose p)]"
  using ignore_do_call [of h "Fs (FClose p)" t] by (auto simp: close_file_def)

definition init_calls :: "Silo \<Rightarrow> call list" where
  "init_calls s =
     [Fs (OpenTrunc (resolv_path s) (oct 755))] @ map (\<lambda>l. Fs (FWrite (resolv_path s) l)) (resolv_lines s) @
     [Fs (OpenTrunc (hosts_path s) (oct 755))] @ map (\<lambda>l. Fs (FWrite (hosts_path s) l)) (hosts_lines s) @
     [Fs (WriteFile (path_Join [s_Root s, invocationInfoFile]) (Marshal (info_json (silo_info s))) (oct 755)),
      Fs (FClose (hosts_path s)), Fs (FClose (resolv_path s))]"

lemma init_files_calls:
  assumes "init_files h s t = (Ok (), s', t')"
  shows "map fst t' = map fst t @ init_calls s"
proof -
  from assms obtain t1 t2 t3 where
    "do_call h (Fs (OpenTrunc (resolv_path s) (oct 755))) t = (Ok (), t1)"
    "init_hosts h s (snd (write_lines h (resolv_path s) (resolv_lines s) t1)) = (Ok (), s', t2)"
    "t' = close_file h (resolv_path s) t2"
    by (auto simp: init_files_def Let_def split: prod.splits res.splits)
  moreover from this(2) obtain t4 t5 t6 where
    "do_call h (Fs (OpenTrunc (hosts_path s) (oct 755))) (snd (write_lines h (resolv_path s) (resolv_lines s) t1)) = (Ok (), t4)"
    "init_invocation h s (snd (write_lines h (hosts_path s) (hosts_lines s) t4)) = (Ok (), s', t5)"
    "t2 = close_file h (hosts_path s) t5"
    by (auto simp: init_hosts_def Let_def split: prod.splits res.splits)
  moreover from this(2) have
    "map fst t5 = map fst (snd (write_lines h (hosts_path s) (hosts_lines s) t4)) @
       [Fs (WriteFile (path_Join [s_Root s, invocationInfoFile]) (Marshal (info_json (silo_info s))) (oct 755))]"
    by (auto simp: init_invocation_def writeInvocationInfo_def io_ok Let_def split: prod.splits res.splits)
  ultimately show ?thesis
    by (simp add: calls_close_file calls_write_lines init_calls_def io_ok)
qed

lemma same_for_child:
  "init_calls (s\<lparr>s_child := c, s_State := x\<rparr>) = init_calls s"
  by (simp add: init_calls_def resolv_path_def hosts_path_def resolv_lines_def hosts_lines_def silo_info_def)

lemma Init_ok:
  assumes "Init h s t = (Ok (), s', t')"
  shows "s_State s = StateSetup" "s_State s' = StatePending" "s_child s' = Some (silo_cmd s')"
    "s_binds s' = s_binds s @ concat (map bind_of (s_bases s))"
    "\<exists>pre. map fst t' = pre @ init_calls s'"
proof -
  from assms obtain s1 t1 bs bi t2 where i: "s_State s = StateSetup" "init_root h s t = (Ok s1, t1)"
    "bases_loop h (s_Root s1) (s_bases s1) (s_binds s1) t1 = (Ok (), bs, bi, t2)"
    "init_files h (s1\<lparr>s_bases := bs, s_binds := bi\<rparr>) t2 = (Ok (), s', t')"
    by (auto simp: Init_def split: if_splits prod.splits res.splits)
  show "s_State s = StateSetup" by (rule i(1))
  have s1: "s_bases s1 = s_bases s" "s_binds s1 = s_binds s"
    using init_root_cases [OF i(2)] by auto
  from init_files_outcome [OF i(4)] have s': "s' = (s1\<lparr>s_bases := bs, s_binds := bi\<rparr>)\<lparr>s_child :=
      Some (silo_cmd (s1\<lparr>s_bases := bs, s_binds := bi\<rparr>)), s_State := StatePending\<rparr>"
    by (simp add: init_outcome_def)
  then show "s_State s' = StatePending" "s_child s' = Some (silo_cmd s')"
    by (simp_all add: silo_cmd_def)
  from s' bases_loop_binds [OF i(3)] s1 show "s_binds s' = s_binds s @ concat (map bind_of (s_bases s))" by simp
  from init_files_calls [OF i(4)] show "\<exists>pre. map fst t' = pre @ init_calls s'"
    unfolding s' same_for_child by blast
qed


subsection \<open>The interfaces of a silo are well formed\<close>

text \<open>An interface that nothing has set up yet.\<close>

fun fresh_if :: "interf \<Rightarrow> bool" where
  "fresh_if LoopbackInterface = True"
| "fresh_if (IPInterf i) = (\<not> isSetup i)"

fun wf_if :: "interf \<Rightarrow> bool" where
  "wf_if LoopbackInterface = True"
| "wf_if (IPInterf i) = if_wf i"

lemma fresh_wf: "fresh_if i \<Longrightarrow> wf_if i"
  by (cases i) (auto simp: if_wf_def)

lemma Setup_wf: "fresh_if i \<Longrightarrow> Setup h pid x k i t = (r, i', t') \<Longrightarrow> wf_if i'"
  by (cases i) (auto dest: ip_Setup_isSetup split: prod.splits)

lemma setup_loop_wf:
  "list_all fresh_if is \<Longrightarrow> setup_loop (Setup h pid x) k is t = (r, is', t') \<Longrightarrow> list_all wf_if is'"
proof (induction "is" arbitrary: k t is')
  case (Cons i "is")
  have w: "list_all wf_if is" using Cons.prems(1) fresh_wf by (auto simp: list_all_iff)
  obtain r1 i1 t1 where s: "Setup h pid x k i t = (r1, i1, t1)" by (cases "Setup h pid x k i t")
  then have "wf_if i1" using Cons.prems(1) Setup_wf by auto
  then show ?case
    using Cons s w by (cases r1) (auto simp: Let_def split: prod.splits)
qed simp

definition ifs_ok :: "State \<Rightarrow> interf list \<Rightarrow> bool" where
  "ifs_ok st is \<longleftrightarrow> (if st \<in> {StateRunning, StateFinished} then list_all wf_if is else list_all fresh_if is)"

lemma silo_reach_ifs:
  assumes "silo_reach s0 s p given" "s_State s0 = StateSetup" "list_all fresh_if (s_Interfaces s0)"
  shows "ifs_ok (s_State s) (s_Interfaces s)"
  using assms
proof induction
  case (new p)
  then show ?case by (simp add: ifs_ok_def)
next
  case (init s p given h t r s' t')
  then show ?case using Init_cases [OF init.hyps(2)] by (auto simp: ifs_ok_def init_frame_def)
next
  case (start s p given h t r s' t')
  have w: "list_all wf_if xs" if "list_all fresh_if xs" for xs using that fresh_wf by (auto simp: list_all_iff)
  from start show ?case
    using Start_cases [OF start.hyps(2)] by (auto simp: ifs_ok_def started_silo_def dest: setup_loop_wf w)
next
  case (wait s p given h t r s' t')
  then show ?case using Wait_cases [OF wait.hyps(2)] by (auto simp: ifs_ok_def)
next
  case (close s p given h t r s' p' t' bck)
  then show ?case using Close_cases [OF close.hyps(2)] by (auto simp: ifs_ok_def)
qed auto

text \<open>Tearing down well-formed interfaces does not panic, and neither does the rest of \<open>Close\<close>.\<close>

lemma no_crash_close_kill: "no_crash (close_kill h pid)"
  unfolding close_kill_def try_io_def
  by (intro no_crash_bind no_crash_catch no_crash_ops) (auto intro: no_crash_ops)

lemma no_crash_close_cgroups: "no_crash (close_cgroups h s)"
  unfolding close_cgroups_def cg_Close_def ignore_io_def
  by (auto intro!: no_crash_each no_crash_then no_crash_catch no_crash_ops split: option.splits)

lemma no_crash_close_root: "no_crash (close_root h s)"
  unfolding close_root_def by (auto intro: no_crash_ops)

lemma Teardown_no_crash: "wf_if i \<Longrightarrow> fst (Teardown h i p t) \<noteq> Crash x"
proof (cases i)
  case (IPInterf j)
  assume "wf_if i"
  then have "isSetup j \<Longrightarrow> no_crash (if_remove h j)"
    using IPInterf unfolding if_remove_def DeleteNetBridge_def
    by (auto simp: if_wf_def intro!: no_crash_then no_crash_ops)
  then show ?thesis
    using IPInterf by (auto simp: ip_Teardown_def no_crash_def split: prod.splits res.splits) (metis fst_conv)
qed simp

lemma teardown_loop_no_crash: "list_all wf_if is \<Longrightarrow> fst (teardown_loop (Teardown h) is p t) \<noteq> Crash x"
proof (induction "is" arbitrary: p t)
  case (Cons i "is")
  then have "fst (Teardown h i p t) \<noteq> Crash x" using Teardown_no_crash by simp
  with Cons show ?case
    by (auto split: prod.splits res.splits)
qed simp

lemma close_parts_no_crash:
  assumes "list_all wf_if (s_Interfaces s)"
  shows "fst (close_parts h s p t) \<noteq> Crash x"
proof -
  have b: "each_io base_Teardown bs t = (Ok (), t)" for bs
    by (induction bs) (simp_all add: base_Teardown_def io_defs)
  have "no_crash (then_io (close_cgroups h s) (close_root h s))"
    by (intro no_crash_then no_crash_close_cgroups no_crash_close_root)
  then have n: "fst (then_io (close_cgroups h s) (close_root h s) t') \<noteq> Crash x" for t'
    by (simp add: no_crash_def)
  obtain r1 p1 t1 where l: "teardown_loop (Teardown h) (s_Interfaces s) p t = (r1, p1, t1)"
    by (cases "teardown_loop (Teardown h) (s_Interfaces s) p t")
  with teardown_loop_no_crash [OF assms, of h p t x] n [of t1] show ?thesis
    by (cases r1) (auto simp: close_parts_def b split: prod.splits)
qed

lemma Close_no_crash:
  assumes "child_ok (s_State s) (s_child s)" "ifs_ok (s_State s) (s_Interfaces s)"
  shows "fst (Close h s p t) \<noteq> Crash x"
proof -
  have r: "fst (close_root h s t) \<noteq> Crash x" using no_crash_close_root by (simp add: no_crash_def)
  show ?thesis
  proof (cases "\<exists>cmd pid. s_State s = StateRunning \<and> s_child s = Some cmd \<and> Process cmd = Some pid")
    case False
    with assms r show ?thesis
      by (auto simp: Close_def split: State.splits option.splits prod.splits)
  next
    case True
    then obtain cmd pid where c: "s_State s = StateRunning" "s_child s = Some cmd" "Process cmd = Some pid" by blast
    let ?s1 = "s\<lparr>s_State := StateFinished\<rparr>"
    obtain r1 t1 where k: "close_kill h pid t = (r1, t1)" by fastforce
    have "r1 \<noteq> Crash x" using no_crash_close_kill k unfolding no_crash_def by (metis fst_conv)
    moreover have "fst (close_parts h ?s1 p t1) \<noteq> Crash x"
      by (rule close_parts_no_crash) (use assms(2) c in \<open>simp add: ifs_ok_def\<close>)
    ultimately show ?thesis using c k by (cases r1) (auto simp: Close_def Let_def split: prod.splits)
  qed
qed

lemma mem_loop_sum:
  assumes m: "\<And>t c. h_mem h t c = h_mem h [] c" and "mem_loop h pids out t = (Ok r, t')"
  shows "mem_Size r = mem_Size out + sum_list (map (\<lambda>q. mem_Size (h_mem h [] (Proc (ProcMemGet q)))) pids) \<and>
    mem_Resident r = mem_Resident out + sum_list (map (\<lambda>q. mem_Resident (h_mem h [] (Proc (ProcMemGet q)))) pids) \<and>
    mem_Share r = mem_Share out + sum_list (map (\<lambda>q. mem_Share (h_mem h [] (Proc (ProcMemGet q)))) pids) \<and>
    mem_MinorFaults r = mem_MinorFaults out + sum_list (map (\<lambda>q. mem_MinorFaults (h_mem h [] (Proc (ProcMemGet q)))) pids) \<and>
    mem_MajorFaults r = mem_MajorFaults out + sum_list (map (\<lambda>q. mem_MajorFaults (h_mem h [] (Proc (ProcMemGet q)))) pids) \<and>
    mem_PageFaults r = mem_PageFaults out + sum_list (map (\<lambda>q. mem_PageFaults (h_mem h [] (Proc (ProcMemGet q)))) pids)"
  using assms(2)
proof (induction pids arbitrary: out t)
  case Nil
  then show ?case by (simp add: io_ok)
next
  case (Cons p ps)
  from Cons.prems obtain t1 where
    "mem_loop h ps (mem_add out (h_mem h t (Proc (ProcMemGet p)))) t1 = (Ok r, t')"
    by (auto simp: io_ok)
  from Cons.IH [OF this] m [of t "Proc (ProcMemGet p)"] show ?case by (simp add: mem_add_def add.assoc)
qed

section \<open>Properties\<close>

text \<open>
  C8. The life of a silo. From its creation with interfaces that are not set up yet, whatever methods
  are called in whatever order and whatever the host answers, its state follows setup, pending,
  running, finished, with internal error as the only other end: no method goes back and none
  leaves the two end states. The child exists exactly from pending on, has no process before
  the silo runs and has one when it is finished; and \<open>Close\<close> never panics.
\<close>

theorem silo_lifecycle:
  assumes "NewSilo h0 name opts t0 = (Ok s0, t1)" and "list_all fresh_if (o_Interfaces opts)"
    and "silo_reach s0 s p given"
  shows "child_ok (s_State s) (s_child s) \<and>
    state_next (s_State s) (s_State (fst (snd (Init h s t)))) \<and>
    state_next (s_State s) (s_State (fst (snd (Start h s t)))) \<and>
    state_next (s_State s) (s_State (fst (snd (Wait h s t)))) \<and>
    state_next (s_State s) (s_State (fst (snd (Close h s p t)))) \<and>
    (\<forall>x. fst (Close h s p t) \<noteq> Crash x)"
proof -
  note n = NewSilo_ok [OF assms(1)]
  have i: "silo_inv (s_Interfaces s0) s" using silo_reach_inv [OF assms(3) n(1,2)] by blast
  have f: "ifs_ok (s_State s) (s_Interfaces s)" using silo_reach_ifs [OF assms(3) n(1)] n(3) assms(2) by simp
  have c: "child_ok (s_State s) (s_child s)" using i by (simp add: silo_inv_def)
  show ?thesis
    using c Init_inv [OF i, of h t] Start_inv [OF i, of h t] Wait_inv [OF i, of h t] Close_inv [OF i, of h p t]
      Close_no_crash [OF c f, of h p t]
    by (metis prod.collapse)
qed

text \<open>
  C9. A silo gives its addresses back at most once. Along every history of a silo, what its calls of
  \<open>Close\<close> have put on the free list of the pool is, in order and each once, the addresses of its
  first \<open>n\<close> interfaces for some \<open>n\<close>; nothing before the silo is finished. A \<open>Close\<close> of a running silo whose
  child has a process, if it succeeds, gives back the addresses of all of them; any other \<open>Close\<close>, that of a
  running silo whose child has no process included, changes neither the silo nor the pool.
\<close>

theorem silo_returns_addresses_once:
  assumes "NewSilo h0 name opts t0 = (Ok s0, t1)" and "silo_reach s0 s p given"
  shows "(\<exists>n \<le> length (o_Interfaces opts). given = concat (map if_owes (take n (o_Interfaces opts)))) \<and>
    (s_State s \<noteq> StateFinished \<longrightarrow> given = []) \<and>
    (\<forall>cmd pid s' p' t'. s_State s = StateRunning \<longrightarrow> s_child s = Some cmd \<longrightarrow> Process cmd = Some pid \<longrightarrow>
       Close h s p t = (Ok (), s', p', t') \<longrightarrow>
       s_State s' = StateFinished \<and> pool_free p' = pool_free p @ concat (map if_owes (o_Interfaces opts))) \<and>
    (\<not> (\<exists>cmd pid. s_State s = StateRunning \<and> s_child s = Some cmd \<and> Process cmd = Some pid) \<longrightarrow>
       fst (snd (Close h s p t)) = s \<and> fst (snd (snd (Close h s p t))) = p)"
proof -
  note n = NewSilo_ok [OF assms(1)]
  note i = silo_reach_inv [OF assms(2) n(1,2), unfolded n(3)]
  have o: "concat (map if_owes (s_Interfaces s)) = concat (map if_owes (o_Interfaces opts))"
    using i by (simp add: silo_inv_def)
  have "s_State s' = StateFinished \<and> pool_free p' = pool_free p @ concat (map if_owes (o_Interfaces opts))"
    if a: "s_State s = StateRunning" "s_child s = Some cmd" "Process cmd = Some pid"
      and c: "Close h s p t = (Ok (), s', p', t')" for cmd pid s' p' t'
  proof -
    have "s_State s' = StateFinished" using c a by (auto simp: Close_def Let_def split: prod.splits res.splits)
    with a(1) Close_cases [OF c] o show ?thesis by (auto simp: FreeAssignment_def)
  qed
  moreover have "\<not> (\<exists>cmd pid. s_State s = StateRunning \<and> s_child s = Some cmd \<and> Process cmd = Some pid) \<longrightarrow>
       fst (snd (Close h s p t)) = s \<and> fst (snd (snd (Close h s p t))) = p"
    by (auto simp: Close_def Let_def split: prod.splits option.splits State.splits)
  ultimately show ?thesis using i by blast
qed

text \<open>
  A child that cannot be started loses the addresses of its silo. When starting the child fails,
  \<open>Start\<close> has already set the state to running; \<open>Close\<close> then finds a running silo without a process,
  skips the teardown of its interfaces and returns nothing to the pool, and the silo stays running
  for ever.
\<close>

theorem failed_child_start_keeps_addresses:
  assumes "s_State s = StatePending" and "s_child s = Some cmd" and "Process cmd = None"
    and "h_err h t (Proc (StartChild ''colexControllerContainerInit'' [cmd_Root cmd] (unat (Cloneflags cmd)))) = Some e"
    and "Start h s t = (r, s1, t1)" and "Close h2 s1 p t2 = (r2, s2, p2, t3)"
  shows "r = Err e \<and> p2 = p \<and> s2 = s1 \<and> s_State s2 = StateRunning"
proof -
  have s1: "r = Err e" "s1 = s\<lparr>s_State := StateRunning\<rparr>"
    using assms by (auto simp: Start_def perform_def)
  then have "p2 = p" "s2 = s1"
    using assms by (auto simp: Close_def Let_def split: prod.splits)
  with s1 show ?thesis by simp
qed

text \<open>
  C28. What \<open>Init\<close> prepares. When it succeeds the silo is pending, its child has the root and the
  identity mappings of the silo, the clone flags of the five namespaces and that of the user
  namespace exactly if there are mappings; the recorded binds are those of the bind providers; and the last
  calls write the name servers, then the host names, one line each, then the invocation file with
  the information of the silo as it is now, and close the two files.
\<close>

theorem init_prepares_child:
  assumes "Init h s t = (Ok (), s', t')"
  shows "s_State s' = StatePending \<and> s_binds s' = s_binds s @ concat (map bind_of (s_bases s)) \<and>
    (\<exists>pre. map fst t' = pre @ init_calls s') \<and>
    (\<exists>cmd. s_child s' = Some cmd \<and> cmd_Root cmd = s_Root s' \<and> Process cmd = None \<and>
       UidMappings cmd = concat (map UIDMappings (s_userMappings s')) \<and>
       GidMappings cmd = concat (map GIDMappings (s_userMappings s')) \<and>
       (\<forall>f \<in> set [NamespaceDomains, NamespaceIPC, NamespaceProcess, NamespaceFS, NamespaceNet].
          and (Cloneflags cmd) f = f) \<and>
       (and (Cloneflags cmd) NamespaceUser = NamespaceUser \<longleftrightarrow> s_userMappings s' \<noteq> []))"
proof -
  have "\<forall>f \<in> set [NamespaceDomains, NamespaceIPC, NamespaceProcess, NamespaceFS, NamespaceNet].
      and silo_flags f = f \<and> and (or silo_flags NamespaceUser) f = f"
    "and silo_flags NamespaceUser \<noteq> NamespaceUser" "and (or silo_flags NamespaceUser) NamespaceUser = NamespaceUser"
    by code_simp+
  with Init_ok [OF assms] show ?thesis by (auto simp: silo_cmd_def)
qed

text \<open>
  C34. The CPU limit is the requested share. For a share of \<open>p\<close> percent, with \<open>500 p\<close> in the range of
  64-bit integers, the quota written for each period of 50 ms is exactly \<open>p\<close> percent of it; it stays
  within one period exactly for at most 100 percent, and a request for none sets no limit.
\<close>

theorem cpu_quota_is_share:
  assumes "500 * o_CPUSharePercent opts < 2 ^ 63"
  shows "case silo_limits opts of
      None \<Rightarrow> o_CPUSharePercent opts \<le> 0 \<and> o_MaxMemoryBytes opts \<le> 0
    | Some c \<Rightarrow>
        MemoryMaxBytes c = max 0 (o_MaxMemoryBytes opts) \<and>
        (if o_CPUSharePercent opts > 0
         then CPUTimeBetweenPeriodsUS c = 50000 \<and>
              100 * CPUTimePerPeriodUS c = o_CPUSharePercent opts * CPUTimeBetweenPeriodsUS c \<and>
              (CPUTimePerPeriodUS c \<le> CPUTimeBetweenPeriodsUS c \<longleftrightarrow> o_CPUSharePercent opts \<le> 100)
         else CPUTimeBetweenPeriodsUS c = 0 \<and> CPUTimePerPeriodUS c = 0)"
proof -
  have "wrap64 (500 * o_CPUSharePercent opts) = 500 * o_CPUSharePercent opts" if "o_CPUSharePercent opts > 0"
    using that assms by (simp add: wrap64_def)
  then show ?thesis by (auto simp: silo_limits_def Let_def)
qed

text \<open>
  C37. The memory of a silo is the sum over its processes. On a host whose answers do not change while
  they are read, \<open>MemStats\<close> of a running silo adds up, in 64-bit arithmetic, the statistics of the
  processes listed in \<open>/proc\<close> that are in the process namespace of the child, each once per listing.
\<close>

theorem mem_stats_sums_namespace:
  assumes "steady h" and "\<And>t c. h_mem h t c = h_mem h [] c" and "s_child s = Some cmd" and "Process cmd = Some pid"
    and "MemStats h s t = (Ok m, t')"
  shows "s_State s = StateRunning \<and>
    (\<exists>ns. ns_name h pid = Some ns \<and>
       (let pids = filter (\<lambda>q. ns_name h q = Some ns) (listed_pids h); stat = (\<lambda>q. h_mem h [] (Proc (ProcMemGet q)))
        in mem_Size m = sum_list (map (\<lambda>q. mem_Size (stat q)) pids) \<and>
           mem_Resident m = sum_list (map (\<lambda>q. mem_Resident (stat q)) pids) \<and>
           mem_Share m = sum_list (map (\<lambda>q. mem_Share (stat q)) pids) \<and>
           mem_MinorFaults m = sum_list (map (\<lambda>q. mem_MinorFaults (stat q)) pids) \<and>
           mem_MajorFaults m = sum_list (map (\<lambda>q. mem_MajorFaults (stat q)) pids) \<and>
           mem_PageFaults m = sum_list (map (\<lambda>q. mem_PageFaults (stat q)) pids)))"
proof -
  from assms(3-5) obtain pids t1 where f: "s_State s = StateRunning" "FindProcessesInNamespace h pid t = (Ok pids, t1)"
    "mem_loop h pids mem_zero t1 = (Ok m, t')"
    by (auto simp: MemStats_def io_ok split: if_splits)
  from FindProcessesInNamespace_steady [OF assms(1) f(2)] mem_loop_sum [OF assms(2) f(3)] f(1)
  show ?thesis by (auto simp: Let_def mem_zero_def)
qed

text \<open>
  \<open>IsRunning\<close> answers the wrong question. For a silo that has just been initialised and
  started it returns false, since the child has no exit state yet; after a child has been awaited it
  returns true exactly when the child did not exit by itself, that is, when a signal ended it.
\<close>

theorem is_running_false_while_running:
  assumes "Init h s t = (Ok (), s1, t1)" and "Start h1 s1 t2 = (Ok (), s2, t3)" and "Wait h2 s2 t4 = (Ok (), s3, t5)"
  shows "IsRunning s2 = Ok False \<and>
    (\<exists>cmd. s_child s2 = Some cmd \<and> IsRunning s3 = Ok (\<not> h_flag h2 t4 (Proc (WaitChild (the (Process cmd))))))"
proof -
  from Init_ok(2,3) [OF assms(1)] have c: "s_State s1 = StatePending" "s_child s1 = Some (silo_cmd s1)" by simp_all
  from Start_cases [OF assms(2)] c obtain pid ifs cs where "s2 = started_silo s1 (silo_cmd s1) pid ifs cs" by auto
  with assms(3) show ?thesis
    by (auto simp: IsRunning_def started_silo_def silo_cmd_def Wait_def cmd_Wait_def Let_def
             split: option.splits if_splits)
qed

subsection \<open>Witnesses\<close>

definition ex_opts :: Options where
  "ex_opts = \<lparr>o_Class = ''test'', o_Tags = [], o_Grant = [], o_Bases = [FileLoaderBase ''/bin/x'' ''abc''], o_Root = [],
     o_MakeFromFolder = ''/srv'', o_accountMappers = [], o_DisableAcctNamespace = False, o_Hostname = [],
     o_Interfaces = [LoopbackInterface, IPInterf ex_if], o_Nameservers = [], o_HostMap = None,
     o_CPUSharePercent = 25, o_MaxMemoryBytes = 0, o_Cmd = ''/bin/x'', o_Args = [''a''], o_Env = []\<rparr>"

definition ex_silo :: Silo where
  "ex_silo = (case fst (NewSilo calm ''web'' (Finalize calm ex_opts) []) of Ok s \<Rightarrow> s)"

lemma ex_silo_new: "NewSilo calm ''web'' (Finalize calm ex_opts) [] =
    (Ok ex_silo, snd (NewSilo calm ''web'' (Finalize calm ex_opts) []))"
proof -
  have "fst (NewSilo calm ''web'' (Finalize calm ex_opts) []) = Ok ex_silo" by code_simp
  then show ?thesis by (simp add: prod_eq_iff)
qed

theorem silo_lifecycle_witness: "state_next StateSetup (s_State (fst (snd (Init calm ex_silo []))))"
proof -
  have "list_all fresh_if (o_Interfaces (Finalize calm ex_opts))" by code_simp
  from silo_lifecycle [OF ex_silo_new this silo_reach.new] show ?thesis
    using NewSilo_ok(1) [OF ex_silo_new] by metis
qed

definition ex_init :: "unit res \<times> Silo \<times> trace" where "ex_init = Init calm ex_silo []"

text \<open>A name is free until a device of that name is made.\<close>

definition ex_made :: "string \<Rightarrow> trace \<Rightarrow> bool" where
  "ex_made d t = list_ex (\<lambda>(c, e). case c of Net (LinkAddBridge x) \<Rightarrow> x = d
     | Net (LinkAddVeth x y) \<Rightarrow> d = x \<or> d = y | _ \<Rightarrow> False) t"

definition ex_start_host :: host where
  "ex_start_host = calm\<lparr>h_err := (\<lambda>t c. case c of
     Net (InterfaceByName d) \<Rightarrow> if ex_made d t then None else Some ENOENT | _ \<Rightarrow> None), h_str := (\<lambda>t c. ex_mounts)\<rparr>"

definition ex_start :: "unit res \<times> Silo \<times> trace" where "ex_start = Start ex_start_host (fst (snd ex_init)) []"

lemma ex_init_ok: "Init calm ex_silo [] = (Ok (), fst (snd ex_init), snd (snd ex_init))"
proof -
  have "fst ex_init = Ok ()" by code_simp
  then show ?thesis by (simp add: ex_init_def prod_eq_iff)
qed

lemma ex_start_ok: "Start ex_start_host (fst (snd ex_init)) [] = (Ok (), fst (snd ex_start), snd (snd ex_start))"
proof -
  have "fst ex_start = Ok ()" by code_simp
  then show ?thesis by (simp add: ex_start_def prod_eq_iff)
qed

theorem silo_returns_addresses_once_witness:
  "pool_free (fst (snd (snd (Close calm (fst (snd ex_start)) ex_bare_pool [])))) = Slice ex_if"
proof -
  have r: "silo_reach ex_silo (fst (snd ex_start)) ex_bare_pool []"
    by (rule silo_reach.start [OF silo_reach.init [OF silo_reach.new ex_init_ok] ex_start_ok])
  have c: "fst (Close calm (fst (snd ex_start)) ex_bare_pool []) = Ok ()" by code_simp
  from Start_cases [OF ex_start_ok] Init_ok(2) [OF ex_init_ok] obtain cmd pid ifs cs where
    "fst (snd ex_start) = started_silo (fst (snd ex_init)) cmd pid ifs cs" by auto
  then have "s_State (fst (snd ex_start)) = StateRunning"
    "s_child (fst (snd ex_start)) = Some (cmd\<lparr>Process := Some pid\<rparr>)" "Process (cmd\<lparr>Process := Some pid\<rparr>) = Some pid"
    by (simp_all add: started_silo_def)
  with silo_returns_addresses_once [OF ex_silo_new r, of calm "[]"] c
  have "pool_free (fst (snd (snd (Close calm (fst (snd ex_start)) ex_bare_pool [])))) =
      pool_free ex_bare_pool @ concat (map if_owes (o_Interfaces (Finalize calm ex_opts)))"
    by (metis prod.collapse)
  moreover have "pool_free ex_bare_pool @ concat (map if_owes (o_Interfaces (Finalize calm ex_opts))) = Slice ex_if"
    by code_simp
  ultimately show ?thesis by simp
qed

theorem failed_child_start_keeps_addresses_witness:
  "let h = calm\<lparr>h_err := (\<lambda>t c. case c of Proc (StartChild _ _ _) \<Rightarrow> Some EPERM | _ \<Rightarrow> None)\<rparr>;
       s1 = fst (snd (Start h (fst (snd ex_init)) []))
   in fst (snd (snd (Close calm s1 ex_bare_pool []))) = ex_bare_pool"
proof -
  let ?h = "calm\<lparr>h_err := (\<lambda>t c. case c of Proc (StartChild _ _ _) \<Rightarrow> Some EPERM | _ \<Rightarrow> None)\<rparr>"
  let ?s = "fst (snd ex_init)"
  have s: "s_State ?s = StatePending" "s_child ?s = Some (silo_cmd ?s)" "Process (silo_cmd ?s) = None"
    using Init_ok(2,3) [OF ex_init_ok] by (simp_all add: silo_cmd_def)
  show ?thesis
    unfolding Let_def
    using failed_child_start_keeps_addresses [OF s, of ?h "[]" EPERM] by (auto simp: prod_eq_iff)
qed

theorem init_prepares_child_witness:
  "\<exists>pre. map fst (snd (snd ex_init)) = pre @ init_calls (fst (snd ex_init))"
  using init_prepares_child [OF ex_init_ok] by blast

theorem cpu_quota_is_share_witness:
  "map_option CPUTimePerPeriodUS (silo_limits ex_opts) = Some 12500"
  using cpu_quota_is_share [of ex_opts] by (simp add: ex_opts_def silo_limits_def Let_def)

theorem is_running_false_while_running_witness: "IsRunning (fst (snd ex_start)) = Ok False"
proof -
  have "fst (Wait calm (fst (snd ex_start)) []) = Ok ()" by code_simp
  then have "Wait calm (fst (snd ex_start)) [] = (Ok (), snd (Wait calm (fst (snd ex_start)) []))"
    by (simp add: prod_eq_iff)
  with is_running_false_while_running [OF ex_init_ok ex_start_ok] show ?thesis by (metis prod.collapse)
qed

definition ex_proc_host :: host where
  "ex_proc_host = calm\<lparr>h_dir := (\<lambda>_ _. [(''1'', True), (''self'', True), (''9'', True)]), h_str := (\<lambda>_ _. ''pid:[4026531836]'')\<rparr>"

definition ex_running :: Silo where
  "ex_running = ex_silo\<lparr>s_State := StateRunning, s_child := Some ((silo_cmd ex_silo)\<lparr>Process := Some 1\<rparr>)\<rparr>"

theorem mem_stats_sums_namespace_witness: "\<exists>m. fst (MemStats ex_proc_host ex_running []) = Ok m \<and> mem_Size m = 2"
proof -
  have "fst (MemStats ex_proc_host ex_running []) = Ok (mem_add mem_zero (mem_add (h_mem calm [] (Proc Now)) (h_mem calm [] (Proc Now))))"
    by code_simp
  then obtain m where m: "MemStats ex_proc_host ex_running [] = (Ok m, snd (MemStats ex_proc_host ex_running []))"
    by (metis prod.collapse)
  have "steady ex_proc_host" "h_mem ex_proc_host t c = h_mem ex_proc_host [] c" for t c
    by (simp_all add: steady_def ex_proc_host_def calm_def)
  moreover have "s_child ex_running = Some ((silo_cmd ex_silo)\<lparr>Process := Some 1\<rparr>)" by (simp add: ex_running_def)
  moreover have "listed_pids ex_proc_host = [1, 9]" by code_simp
  ultimately have "mem_Size m = 2"
    using mem_stats_sums_namespace [of ex_proc_host ex_running "(silo_cmd ex_silo)\<lparr>Process := Some 1\<rparr>" 1 "[]" m] m
    by (auto simp: ns_name_def ex_proc_host_def calm_def Let_def)
  with m show ?thesis by (metis fst_conv)
qed

end
