(* ===== verification/Reexec.thy ===== *)
theory Reexec
  imports Silo
begin

text \<open>
  The inside of a silo (\<open>controller/reexec.go\<close>): the entry point of the child process, which reads the
  invocation file, mounts, changes its root, sets its host name, runs the commands of the
  interfaces and then the command of the silo. The lemmas show that no command runs before the
  host's filesystem is out of reach, and that the child runs what the silo asked for.
\<close>

section \<open>Reading the invocation file\<close>

definition empty_info :: invocationInfo where
  "empty_info = \<lparr>i_ID = [], i_IDHex = [], i_Hostname = [], i_OnStartCommands = [], i_Binds = [],
                 i_Cmd = [], i_Args = [], i_Env = []\<rparr>"

fun as_bytes :: "json \<Rightarrow> byte list option" where
  "as_bytes (JStr s) = (case b64_decode s of Inr b \<Rightarrow> Some b | Inl _ \<Rightarrow> None)"
| "as_bytes _ = None"

definition strings_field :: "string \<Rightarrow> (string \<times> json) list \<Rightarrow> string list result" where
  "strings_field k kvs = get_field (as_list as_str []) k [] kvs"

definition decode_command :: "(string \<times> json) list \<Rightarrow> StartupCommand result" where
  "decode_command kvs =
     bindR (get_field as_str ''Cmd'' [] kvs) (\<lambda>cmd.
     bindR (strings_field ''Args'' kvs) (\<lambda>args.
     bindR (get_field as_str ''WaitForInterface'' [] kvs) (\<lambda>wt.
       Inr \<lparr>sc_Cmd = cmd, sc_Args = args, sc_WaitForInterface = wt\<rparr>)))"

definition decode_bind :: "(string \<times> json) list \<Rightarrow> bindMntInfo result" where
  "decode_bind kvs =
     bindR (get_field as_str ''SysPath'' [] kvs) (\<lambda>sys.
     bindR (get_field as_str ''SiloPath'' [] kvs) (\<lambda>silo.
     bindR (get_field as_bool ''IsFile'' False kvs) (\<lambda>isFile.
       Inr \<lparr>bind_SysPath = sys, bind_SiloPath = silo, bind_IsFile = isFile\<rparr>)))"

fun as_struct :: "((string \<times> json) list \<Rightarrow> 'a result) \<Rightarrow> json \<Rightarrow> 'a option" where
  "as_struct f (JObj kvs) = (case f kvs of Inr x \<Rightarrow> Some x | Inl _ \<Rightarrow> None)"
| "as_struct f _ = None"

definition empty_command :: StartupCommand where
  "empty_command = \<lparr>sc_Cmd = [], sc_Args = [], sc_WaitForInterface = []\<rparr>"

definition empty_bind :: bindMntInfo where
  "empty_bind = \<lparr>bind_SysPath = [], bind_SiloPath = [], bind_IsFile = False\<rparr>"

definition decode_fields :: "(string \<times> json) list \<Rightarrow> invocationInfo result" where
  "decode_fields kvs =
     bindR (get_field as_bytes ''ID'' [] kvs) (\<lambda>idb.
     bindR (get_field as_str ''IDHex'' [] kvs) (\<lambda>idHex.
     bindR (get_field as_str ''Hostname'' [] kvs) (\<lambda>hostname.
     bindR (get_field (as_list (as_struct decode_command) empty_command) ''OnStartCommands'' [] kvs) (\<lambda>cmds.
     bindR (get_field (as_list (as_struct decode_bind) empty_bind) ''Binds'' [] kvs) (\<lambda>binds.
     bindR (get_field as_str ''Cmd'' [] kvs) (\<lambda>cmd.
     bindR (strings_field ''Args'' kvs) (\<lambda>args.
     bindR (strings_field ''Env'' kvs) (\<lambda>env.
       Inr \<lparr>i_ID = idb, i_IDHex = idHex, i_Hostname = hostname, i_OnStartCommands = cmds,
            i_Binds = binds, i_Cmd = cmd, i_Args = args, i_Env = env\<rparr>))))))))"

fun decode_info :: "json \<Rightarrow> invocationInfo result" where
  "decode_info (JObj kvs) = decode_fields kvs"
| "decode_info JNull = Inr empty_info"
| "decode_info _ = Inl (ErrNew ''json: cannot unmarshal into Go value of type controller.invocationInfo'')"

definition read_info :: "string \<Rightarrow> invocationInfo result" where
  "read_info b = bindR (Unmarshal b) decode_info"

section \<open>The entry point\<close>

text \<open>A directory or file is made only when it is reported missing; another error is ignored.\<close>

definition unless_exists :: "host \<Rightarrow> string \<Rightarrow> unit io \<Rightarrow> unit io" where
  "unless_exists h p m =
     bind_io (try_io (do_call h (Fs (Stat p)))) (\<lambda>err. if err = Some ENOENT then m else ret ())"

definition setup_bind :: "host \<Rightarrow> string \<Rightarrow> nat \<Rightarrow> bindMntInfo \<Rightarrow> unit io" where
  "setup_bind h root i b =
     (let mntPath = path_Join [root, bind_SiloPath b]; n = FormatInt (int i) in
      then_io
        (if bind_IsFile b then
           then_io (unless_exists h (path_Dir mntPath)
                      (wrap_io (''mkdirall for bind file #'' @ n @ '' failed: '')
                         (do_call h (Fs (MkdirAll (path_Dir mntPath) (oct 750))))))
                   (unless_exists h mntPath
                      (wrap_io (''touch for bind file #'' @ n @ '' failed: '')
                         (do_call h (Fs (WriteFile mntPath [] (oct 750))))))
         else unless_exists h mntPath
                (wrap_io (''mkdirall for bind #'' @ n @ '' failed: '')
                   (do_call h (Fs (MkdirAll mntPath (oct 750))))))
        (wrap_io (''bind #'' @ n @ '' failed: '')
           (do_call h (Fs (Mount (bind_SysPath b) mntPath [] MS_BIND)))))"

fun setupBindMounts :: "host \<Rightarrow> string \<Rightarrow> nat \<Rightarrow> bindMntInfo list \<Rightarrow> unit io" where
  "setupBindMounts h root i [] = ret ()"
| "setupBindMounts h root i (b # bs) =
     then_io (setup_bind h root i b) (setupBindMounts h root (Suc i) bs)"

text \<open>
  The wait for a device of the silo: at most a thousand attempts, ten milliseconds apart. It is there
  when it is up and has an address.
\<close>

fun wait_interface :: "host \<Rightarrow> string \<Rightarrow> nat \<Rightarrow> unit io" where
  "wait_interface h d 0 = fail (ErrNew ''Wait for interface timed out'')"
| "wait_interface h d (Suc x) =
     (\<lambda>t. let c = Net (InterfaceByName d); t1 = t @ [(c, h_err h t c)];
              ca = Net (InterfaceAddrs d); t2 = t1 @ [(ca, h_err h t1 ca)];
              again = then_io (ignore_io (do_call h (Proc (Sleep 10)))) (wait_interface h d x) in
          if h_err h t c = None \<and> h_flag h t c
          then if h_err h t1 ca = None \<and> h_flag h t1 ca then (Ok (), t2) else again t2
          else again t1)"

definition start_command :: "host \<Rightarrow> StartupCommand \<Rightarrow> unit io" where
  "start_command h c =
     then_io (if sc_WaitForInterface c \<noteq> [] then wait_interface h (sc_WaitForInterface c) 1000 else ret ())
             (do_call h (Proc (RunCmd (sc_Cmd c) (sc_Args c) [])))"

text \<open>
  \<open>isolatedMain\<close>, given the root of its first argument: \<open>Ok\<close> is a normal exit, \<open>Err\<close> an exit with
  status 1. The branch that would delete the invocation file is off by a constant. A command that is
  given an environment runs as \<open>RunEnv\<close>; an empty list is a nil slice, which leaves it the parent's.
\<close>

definition inside :: "host \<Rightarrow> invocationInfo \<Rightarrow> unit io" where
  "inside h info =
     then_io (if i_Hostname info \<noteq> [] then do_call h (Fs (Sethostname (i_Hostname info))) else ret ())
    (then_io (each_io (start_command h) (i_OnStartCommands info))
             (do_call h (Proc (RunEnv (i_Cmd info) (i_Args info) (i_Env info)))))"

definition isolatedMain :: "host \<Rightarrow> string \<Rightarrow> unit io" where
  "isolatedMain h fsRootPath =
     bind_io (catch_io (perform h (Fs (ReadFile (path_Join [fsRootPath, invocationInfoFile]))) (h_str h))
                (\<lambda>e. crash ''panic: read of the invocation file'')) (\<lambda>b.
       case read_info b of
         Inl e \<Rightarrow> fail e
       | Inr info \<Rightarrow>
           then_io (MountProc h (path_Join [fsRootPath, ''proc'']))
          (then_io (setupBindMounts h fsRootPath 0 (i_Binds info))
          (then_io (SetRootFS h fsRootPath)
                   (inside h info))))"

section \<open>What the process sees\<close>

text \<open>
  The view of the filesystem of the process after a trace: its root (\<open>None\<close> for the host's), whether
  the old root is still mounted below it, and whether its working directory is inside.
\<close>

record view =
  v_root :: "string option"
  v_old :: bool
  v_inside :: bool

definition host_view :: view where
  "host_view = \<lparr>v_root = None, v_old = False, v_inside = False\<rparr>"

fun view_step :: "view \<Rightarrow> call \<times> gerr option \<Rightarrow> view" where
  "view_step v (Fs (PivotRoot n p), None) = \<lparr>v_root = Some n, v_old = True, v_inside = False\<rparr>"
| "view_step v (Fs (Chdir p), None) = v\<lparr>v_inside := (p = ''/'')\<rparr>"
| "view_step v (Fs (Unmount p f), None) = (if p = ''/.temp_old'' then v\<lparr>v_old := False\<rparr> else v)"
| "view_step v _ = v"

definition view_of :: "trace \<Rightarrow> view" where
  "view_of t = foldl view_step host_view t"

lemma view_of_snoc [simp]: "view_of (t @ [e]) = view_step (view_of t) e"
  by (simp add: view_of_def)

definition confined :: "string \<Rightarrow> view" where
  "confined root = \<lparr>v_root = Some root, v_old = False, v_inside = True\<rparr>"

text \<open>Every command of the trace was run with the view confined to the root.\<close>

fun is_run :: "call \<Rightarrow> bool" where
  "is_run (Proc (RunCmd p a d)) = True"
| "is_run (Proc (RunEnv p a e)) = True"
| "is_run _ = False"

definition runs_confined :: "string \<Rightarrow> trace \<Rightarrow> bool" where
  "runs_confined root t \<longleftrightarrow>
     (\<forall>pre c e post. t = pre @ (c, e) # post \<longrightarrow> is_run c \<longrightarrow> view_of pre = confined root)"

lemma runs_confined_snoc:
  "runs_confined root (t @ [(c, e)]) \<longleftrightarrow> runs_confined root t \<and> (is_run c \<longrightarrow> view_of t = confined root)"
proof
  assume r: "runs_confined root (t @ [(c, e)])"
  have "runs_confined root t"
    unfolding runs_confined_def
  proof (intro allI impI)
    fix pre c' e' post assume "t = pre @ (c', e') # post" "is_run c'"
    then show "view_of pre = confined root"
      using r unfolding runs_confined_def by (metis append.assoc append_Cons)
  qed
  then show "runs_confined root t \<and> (is_run c \<longrightarrow> view_of t = confined root)"
    using r unfolding runs_confined_def by blast
next
  assume a: "runs_confined root t \<and> (is_run c \<longrightarrow> view_of t = confined root)"
  show "runs_confined root (t @ [(c, e)])"
    unfolding runs_confined_def
  proof (intro allI impI)
    fix pre c' e' post assume s: "t @ [(c, e)] = pre @ (c', e') # post" "is_run c'"
    show "view_of pre = confined root"
    proof (cases post rule: rev_cases)
      case Nil
      with s a show ?thesis by auto
    next
      case (snoc post' x)
      with s have "t = pre @ (c', e') # post'" by auto
      with a s(2) show ?thesis unfolding runs_confined_def by blast
    qed
  qed
qed

text \<open>Programs that keep a property of the trace.\<close>

definition keeps :: "(trace \<Rightarrow> bool) \<Rightarrow> 'a io \<Rightarrow> bool" where
  "keeps P m \<longleftrightarrow> (\<forall>t. P t \<longrightarrow> P (snd (m t)))"

named_theorems keeps_intros \<open>programs that keep a property of the trace\<close>

interpretation kp: trace_order "\<lambda>t t'. P t \<longrightarrow> P t'" for P
  by unfold_locales simp_all

lemma keeps_follows: "keeps P m \<longleftrightarrow> follows (\<lambda>t t'. P t \<longrightarrow> P t') m"
  by (simp add: keeps_def follows_def)

lemma keeps_perform [keeps_intros]: "(\<And>t e. P t \<Longrightarrow> P (t @ [(c, e)])) \<Longrightarrow> keeps P (perform h c v)"
  by (simp add: keeps_follows kp.follows_perform)

lemma keeps_do_call [keeps_intros]: "(\<And>t e. P t \<Longrightarrow> P (t @ [(c, e)])) \<Longrightarrow> keeps P (do_call h c)"
  by (simp add: do_call_def keeps_perform)

lemmas keeps_ret [keeps_intros] = kp.follows_ret [folded keeps_follows]
lemmas keeps_fail [keeps_intros] = kp.follows_fail [folded keeps_follows]
lemmas keeps_crash [keeps_intros] = kp.follows_crash [folded keeps_follows]
lemmas keeps_bind [keeps_intros] = kp.follows_bind [folded keeps_follows]
lemmas keeps_then [keeps_intros] = kp.follows_then [folded keeps_follows]
lemmas keeps_catch [keeps_intros] = kp.follows_catch [folded keeps_follows]
lemmas keeps_wrap [keeps_intros] = kp.follows_wrap [folded keeps_follows]
lemmas keeps_ignore [keeps_intros] = kp.follows_ignore [folded keeps_follows]
lemmas keeps_try [keeps_intros] = kp.follows_try [folded keeps_follows]
lemmas keeps_each [keeps_intros] = kp.follows_each [folded keeps_follows]
lemmas keeps_if [keeps_intros] = kp.follows_if [folded keeps_follows]


section \<open>Facts\<close>

definition safe_in :: "string \<Rightarrow> trace \<Rightarrow> bool" where
  "safe_in root t \<longleftrightarrow> runs_confined root t \<and> view_of t = confined root"

fun moves :: "call \<Rightarrow> bool" where
  "moves (Fs (PivotRoot n p)) = True"
| "moves (Fs (Chdir p)) = True"
| "moves (Fs (Unmount p f)) = True"
| "moves _ = False"

lemma view_step_still: "\<not> moves c \<Longrightarrow> view_step v (c, e) = v"
  by (cases "(v, c, e)" rule: view_step.cases) auto

lemma safe_in_snoc: "safe_in root t \<Longrightarrow> \<not> moves c \<Longrightarrow> safe_in root (t @ [(c, e)])"
  by (simp add: safe_in_def runs_confined_snoc view_step_still)

lemma runs_confined_quiet: "runs_confined root t \<Longrightarrow> \<not> is_run c \<Longrightarrow> runs_confined root (t @ [(c, e)])"
  by (simp add: runs_confined_snoc)

lemma keeps_wait: "(\<And>t c e. P t \<Longrightarrow> \<not> moves c \<Longrightarrow> \<not> is_run c \<Longrightarrow> P (t @ [(c, e)])) \<Longrightarrow> keeps P (wait_interface h d n)"
proof (induction n)
  case 0
  then show ?case by (simp add: keeps_fail)
next
  case (Suc n)
  have a: "keeps P (then_io (ignore_io (do_call h (Proc (Sleep 10)))) (wait_interface h d n))"
    by (intro keeps_then keeps_ignore keeps_do_call Suc) auto
  show ?case
    unfolding keeps_def
  proof (intro allI impI)
    fix t assume P: "P t"
    let ?c = "Net (InterfaceByName d)" and ?ca = "Net (InterfaceAddrs d)"
    have p1: "P (t @ [(?c, h_err h t ?c)])" using Suc.prems [OF P, of ?c] by simp
    have p2: "P ((t @ [(?c, h_err h t ?c)]) @ [(?ca, h_err h (t @ [(?c, h_err h t ?c)]) ?ca)])"
      using Suc.prems [OF p1, of ?ca] by simp
    show "P (snd (wait_interface h d (Suc n) t))"
      using p1 p2 a unfolding keeps_def wait_interface.simps Let_def by auto
  qed
qed

lemma inside_keeps: "keeps (safe_in root) (inside h info)"
  unfolding inside_def start_command_def
  by (intro keeps_then keeps_if keeps_each keeps_do_call keeps_ret keeps_wait safe_in_snoc) auto

lemma setupBindMounts_keeps: "keeps (runs_confined root) (setupBindMounts h r i bs)"
  by (induction bs arbitrary: i)
     (auto simp: setup_bind_def unless_exists_def Let_def
        intro!: keeps_then keeps_bind keeps_try keeps_wrap keeps_do_call keeps_ret runs_confined_quiet)

lemma MountProc_keeps: "keeps (runs_confined root) (MountProc h p)"
  unfolding MountProc_def by (intro keeps_then keeps_do_call runs_confined_quiet) auto

lemma SetRootFS_keeps: "keeps (runs_confined root) (SetRootFS h r)"
  unfolding SetRootFS_def Let_def by (intro keeps_then keeps_wrap keeps_do_call runs_confined_quiet) auto

lemma SetRootFS_ok:
  assumes "SetRootFS h root t = (Ok x, t')"
  shows "t' = t @ ok_events (map Fs [Mount root root [] (MS_BIND + MS_REC),
      MkdirAll (path_Join [root, ''/.temp_old'']) (oct 700), PivotRoot root (path_Join [root, ''/.temp_old'']),
      Chdir ''/'', Unmount ''/.temp_old'' MNT_DETACH, RemoveAll (path_Join [root, ''/.temp_old''])])"
  using assms by (auto simp: SetRootFS_def Let_def io_ok ok_events_def)

lemma SetRootFS_confines:
  assumes "SetRootFS h root t = (Ok x, t')"
  shows "view_of t' = confined root"
  unfolding SetRootFS_ok [OF assms] by (simp add: view_of_def ok_events_def confined_def)

text \<open>Decoding what was encoded.\<close>

lemma as_list_those: "(\<And>x. x \<in> set xs \<Longrightarrow> g x \<noteq> JNull \<and> f (g x) = Some x) \<Longrightarrow> as_list f z (JArr (map g xs)) = Some xs"
  by (induction xs) (auto simp: comp_def)

lemma strings_back: "as_list as_str [] (json_strings xs) = Some xs"
  unfolding json_strings_def by (rule as_list_those) simp

lemma json_strings_not_null: "json_strings xs \<noteq> JNull"
  by (simp add: json_strings_def)

lemma command_back: "as_struct decode_command (command_json c) = Some c"
  by (simp add: command_json_def decode_command_def strings_field_def same_key_def lower_def cont_in_def
      strings_back json_strings_not_null)

lemma bind_back: "as_struct decode_bind (bind_json b) = Some b"
  by (simp add: bind_json_def decode_bind_def same_key_def lower_def cont_in_def)

lemma slice_back:
  assumes "\<And>x. x \<in> set xs \<Longrightarrow> g x \<noteq> JNull \<and> f (g x) = Some x"
  shows "json_slice g xs = JNull \<and> xs = [] \<or> json_slice g xs \<noteq> JNull \<and> as_list f z (json_slice g xs) = Some xs"
  using as_list_those [OF assms] by (simp add: json_slice_def)

definition info_fields :: "string list" where
  "info_fields = [''ID'', ''IDHex'', ''Hostname'', ''OnStartCommands'', ''Binds'', ''Cmd'', ''Args'', ''Env'']"

lemma info_keys: "a \<in> set info_fields \<Longrightarrow> b \<in> set info_fields \<Longrightarrow> same_key a b \<longleftrightarrow> a = b"
proof -
  have "list_all (\<lambda>a. list_all (\<lambda>b. same_key a b = (a = b)) info_fields) info_fields" by code_simp
  then show "a \<in> set info_fields \<Longrightarrow> b \<in> set info_fields \<Longrightarrow> same_key a b \<longleftrightarrow> a = b" by (simp add: list_all_iff)
qed

lemma info_back: "decode_info (info_json d) = Inr d"
proof -
  have c: "json_slice command_json (i_OnStartCommands d) = JNull \<and> i_OnStartCommands d = [] \<or>
      json_slice command_json (i_OnStartCommands d) \<noteq> JNull \<and>
      as_list (as_struct decode_command) empty_command (json_slice command_json (i_OnStartCommands d)) = Some (i_OnStartCommands d)"
    by (rule slice_back) (simp add: command_back, simp add: command_json_def)
  have b: "json_slice bind_json (i_Binds d) = JNull \<and> i_Binds d = [] \<or>
      json_slice bind_json (i_Binds d) \<noteq> JNull \<and>
      as_list (as_struct decode_bind) empty_bind (json_slice bind_json (i_Binds d)) = Some (i_Binds d)"
    by (rule slice_back) (simp add: bind_back, simp add: bind_json_def)
  show ?thesis
    using b c
    by (elim disjE conjE)
       (simp_all add: info_json_def decode_fields_def info_keys info_fields_def strings_field_def strings_back
          json_strings_not_null b64_decode_encode del: as_list.simps)
qed


subsection \<open>The calls of a kind that a program makes\<close>

text \<open>\<open>emits K m cs\<close>: whenever the program succeeds, its calls of kind \<open>K\<close> are exactly \<open>cs\<close>.\<close>

definition emits :: "(call \<Rightarrow> bool) \<Rightarrow> unit io \<Rightarrow> call list \<Rightarrow> bool" where
  "emits K m cs \<longleftrightarrow>
     (\<forall>t t'. m t = (Ok (), t') \<longrightarrow> filter K (map fst t') = filter K (map fst t) @ cs)"

lemma emits_ret: "emits K (ret ()) []"
  by (simp add: emits_def io_ok)

lemma emits_call: "emits K (do_call h c) (if K c then [c] else [])"
  by (auto simp: emits_def io_ok)

lemma emits_then: "emits K m cs \<Longrightarrow> emits K k ds \<Longrightarrow> emits K (then_io m k) (cs @ ds)"
  by (fastforce simp: emits_def io_ok)

lemma emits_wrap: "emits K m cs \<Longrightarrow> emits K (wrap_io s m) cs"
  by (simp add: emits_def io_ok)

lemma emits_unless: "\<not> K (Fs (Stat p)) \<Longrightarrow> emits K m [] \<Longrightarrow> emits K (unless_exists h p m) []"
  by (auto simp: emits_def unless_exists_def bind_try_call ret_def split: if_splits)

lemma emits_each: "(\<And>x. emits K (f x) (cs x)) \<Longrightarrow> emits K (each_io f xs) (concat (map cs xs))"
  by (induction xs) (auto intro: emits_ret emits_then)

lemma emits_wait: "emits is_run (wait_interface h d n) []"
proof -
  have "keeps (\<lambda>t. filter is_run (map fst t) = cs) (wait_interface h d n)" for cs
    by (rule keeps_wait) simp
  then show ?thesis unfolding emits_def keeps_def by (metis append.right_neutral snd_conv)
qed

fun is_mount :: "call \<Rightarrow> bool" where
  "is_mount (Fs (Mount a b c d)) = True"
| "is_mount _ = False"

definition bind_mount :: "string \<Rightarrow> bindMntInfo \<Rightarrow> call" where
  "bind_mount root b = Fs (Mount (bind_SysPath b) (path_Join [root, bind_SiloPath b]) [] MS_BIND)"

lemma setup_bind_emits:
  "emits is_mount (setup_bind h root i b) [bind_mount root b]" "emits is_run (setup_bind h root i b) []"
proof -
  have q: "emits K (if bind_IsFile b then then_io (unless_exists h p m1) (unless_exists h p' m2) else unless_exists h p' m3) []"
    if "\<And>p. \<not> K (Fs (Stat p))" "emits K m1 []" "emits K m2 []" "emits K m3 []" for K p p' m1 m2 m3
  proof -
    have "emits K (then_io (unless_exists h p m1) (unless_exists h p' m2)) ([] @ [])"
      by (intro emits_then emits_unless that)
    with emits_unless [OF that(1) that(4)] show ?thesis by simp
  qed
  have c: "emits K (wrap_io s (do_call h x)) []" if "\<not> K x" for K s x
    using emits_wrap [OF emits_call [of K h x], of s] that by simp
  let ?m = "bind_mount root b"
  have m: "emits is_mount (wrap_io s (do_call h ?m)) [?m]" "emits is_run (wrap_io s (do_call h ?m)) []" for s
    using emits_wrap [OF emits_call [of is_mount h ?m], of s] emits_wrap [OF emits_call [of is_run h ?m], of s]
    by (simp_all add: bind_mount_def)
  have "emits is_mount (setup_bind h root i b) ([] @ [?m])" "emits is_run (setup_bind h root i b) ([] @ [])"
    unfolding setup_bind_def Let_def bind_mount_def [symmetric]
    by (intro emits_then q m c; simp)+
  then show "emits is_mount (setup_bind h root i b) [?m]" "emits is_run (setup_bind h root i b) []" by simp_all
qed

lemma setupBindMounts_emits:
  "emits is_mount (setupBindMounts h root i bs) (map (bind_mount root) bs)"
  "emits is_run (setupBindMounts h root i bs) []"
proof (induction bs arbitrary: i)
  case (Cons b bs)
  {
    case 1
    show ?case using emits_then [OF setup_bind_emits(1) Cons(1)] by simp
  next
    case 2
    show ?case using emits_then [OF setup_bind_emits(2) Cons(2)] by simp
  }
qed (simp_all add: emits_ret)

lemma inside_runs:
  "emits is_run (inside h info)
     (map (\<lambda>c. Proc (RunCmd (sc_Cmd c) (sc_Args c) [])) (i_OnStartCommands info) @ [Proc (RunEnv (i_Cmd info) (i_Args info) (i_Env info))])"
proof -
  have w: "emits is_run (if b then wait_interface h d 1000 else ret ()) []" for b d
    by (simp add: emits_wait emits_ret)
  have s: "emits is_run (start_command h c) [Proc (RunCmd (sc_Cmd c) (sc_Args c) [])]" for c
    unfolding start_command_def using emits_then [OF w emits_call, of _ _ h "Proc (RunCmd (sc_Cmd c) (sc_Args c) [])"] by simp
  have e: "emits is_run (each_io (start_command h) cs) (map (\<lambda>c. Proc (RunCmd (sc_Cmd c) (sc_Args c) [])) cs)" for cs
    using emits_each [where f = "start_command h", OF s, of cs] by simp
  have n: "emits is_run (if b then do_call h (Fs (Sethostname x)) else ret ()) []" for b x
    using emits_call [of is_run h "Fs (Sethostname x)"] by (simp add: emits_ret)
  show ?thesis
    unfolding inside_def
    using emits_then [OF n emits_then [OF e emits_call [of is_run h "Proc (RunEnv (i_Cmd info) (i_Args info) (i_Env info))"]]] by simp
qed

lemma SetRootFS_emits: "emits is_run (SetRootFS h root) []"
  unfolding emits_def by (auto dest!: SetRootFS_ok simp: ok_events_def)

lemma MountProc_emits: "emits is_run (MountProc h p) []"
  unfolding MountProc_def using emits_then [OF emits_call emits_call] by (auto simp: emits_def io_ok)

section \<open>Properties\<close>

lemma SetRootFS_then:
  assumes m: "keeps (safe_in root) m"
  shows "keeps (runs_confined root) (then_io (SetRootFS h root) m)"
  unfolding keeps_def
proof (intro allI impI)
  fix t assume t: "runs_confined root t"
  obtain r t1 where s: "SetRootFS h root t = (r, t1)" by fastforce
  with t SetRootFS_keeps have t1: "runs_confined root t1" unfolding keeps_def by (metis snd_conv)
  show "runs_confined root (snd (then_io (SetRootFS h root) m t))"
  proof (cases r)
    case (Ok x)
    with s SetRootFS_confines t1 have "safe_in root t1" by (simp add: safe_in_def)
    with m have "safe_in root (snd (m t1))" unfolding keeps_def by blast
    with s Ok show ?thesis by (simp add: then_io_def bind_io_def safe_in_def)
  qed (use s t1 in \<open>simp_all add: then_io_def bind_io_def\<close>)
qed

text \<open>
  C5. No command of a silo runs on the host's filesystem. In every run of the child's entry point,
  whatever the invocation file holds and the host answers, every command that is run (those of the
  interfaces and that of the silo) is run after the process has changed its root to the silo's,
  made it its working directory and unmounted the old root.
\<close>

theorem no_command_outside_root: "runs_confined root (snd (isolatedMain h root []))"
proof -
  have n: "runs_confined root []" by (simp add: runs_confined_def)
  note k = SetRootFS_then [OF inside_keeps, of root h]
  have "keeps (runs_confined root) (isolatedMain h root)"
    unfolding isolatedMain_def
    by (intro keeps_bind keeps_catch keeps_perform keeps_crash runs_confined_quiet)
       (auto split: sum.splits intro!: keeps_fail keeps_then MountProc_keeps setupBindMounts_keeps k [unfolded then_io_def] k)
  with n show ?thesis unfolding keeps_def by blast
qed

text \<open>
  C12. The invocation file carries the whole invocation. For information whose strings are ASCII,
  reading what \<open>writeInvocationInfo\<close> writes gives it back unchanged, whatever characters need to be
  escaped, whichever lists are empty (written as \<open>null\<close>) and with the identifier in base64.
\<close>

theorem invocation_round_trip:
  assumes "json_ok (info_json d)"
  shows "read_info (Marshal (info_json d)) = Inr d"
  using Unmarshal_Marshal [OF assms] info_back by (simp add: read_info_def)

text \<open>
  C11. The child runs what its silo asked for. If the child finds at its root the file that \<open>Init\<close> of
  the silo wrote (with ASCII strings) and succeeds, then the commands it ran are exactly the start
  commands of the silo's interfaces, in the order of the interfaces, and then the silo's command
  with its arguments and its environment.
\<close>

theorem child_runs_silo_command:
  assumes "json_ok (info_json (silo_info s))"
    and "h_str h t (Fs (ReadFile (path_Join [root, invocationInfoFile]))) = Marshal (info_json (silo_info s))"
    and "isolatedMain h root t = (Ok (), t')"
  shows "filter is_run (map fst t') = filter is_run (map fst t) @
     map (\<lambda>c. Proc (RunCmd (sc_Cmd c) (sc_Args c) [])) (start_commands (s_IDHex s) 0 (s_Interfaces s)) @
     [Proc (RunEnv (s_Cmd s) (s_Args s) (s_Env s))]"
proof -
  let ?c = "Fs (ReadFile (path_Join [root, invocationInfoFile]))"
  have i: "read_info (Marshal (info_json (silo_info s))) = Inr (silo_info s)"
    using Unmarshal_Marshal [OF assms(1)] info_back by (simp add: read_info_def)
  have i_eq: "i_OnStartCommands (silo_info s) = start_commands (s_IDHex s) 0 (s_Interfaces s)"
    "i_Cmd (silo_info s) = s_Cmd s" "i_Args (silo_info s) = s_Args s" "i_Env (silo_info s) = s_Env s"
    by (simp_all add: silo_info_def)
  let ?m = "then_io (MountProc h (path_Join [root, ''proc'']))
          (then_io (setupBindMounts h root 0 (s_binds s)) (then_io (SetRootFS h root) (inside h (silo_info s))))"
  from assms(3) have m: "?m (t @ [(?c, None)]) = (Ok (), t')"
    using i assms(2)
    by (cases "h_err h t ?c") (auto simp: isolatedMain_def bind_io_def catch_io_def perform_def crash_def silo_info_def)
  have "emits is_run ?m ([] @ [] @ [] @
      map (\<lambda>c. Proc (RunCmd (sc_Cmd c) (sc_Args c) [])) (start_commands (s_IDHex s) 0 (s_Interfaces s)) @
      [Proc (RunEnv (s_Cmd s) (s_Args s) (s_Env s))])"
    unfolding i_eq [symmetric]
    by (intro emits_then MountProc_emits setupBindMounts_emits(2) SetRootFS_emits inside_runs)
  with m show ?thesis unfolding emits_def by fastforce
qed

text \<open>
  C38. Where the binds of a silo are mounted. When \<open>setupBindMounts\<close> succeeds it has mounted exactly the given
  paths of the host, in order, each at the root of the silo, a clean absolute path, joined with the path asked
  for. Each of the binds whose path has no \<open>..\<close> component is mounted below the root; one whose path goes up one
  directory is mounted beside it, outside the silo.
\<close>

theorem binds_mounted_below_root:
  assumes "setupBindMounts h (abs_path cs) 0 bs t = (Ok (), t')" and "list_all plain_comp cs"
  shows "filter is_mount (map fst t') = filter is_mount (map fst t) @
      map (\<lambda>b. Fs (Mount (bind_SysPath b) (path_Join [abs_path cs, bind_SiloPath b]) [] MS_BIND)) bs \<and>
    (\<forall>b \<in> set bs. let mnt = path_Join [abs_path cs, bind_SiloPath b] in
       Fs (Mount (bind_SysPath b) mnt [] MS_BIND) \<in> set (map fst t') \<and>
       (dotdot \<notin> set (Split (bind_SiloPath b) slash) \<longrightarrow> below cs mnt) \<and>
       (\<forall>c. cs \<noteq> [] \<longrightarrow> plain_comp c \<longrightarrow> bind_SiloPath b = ''../'' @ c \<longrightarrow> mnt = abs_path (butlast cs @ [c])))"
proof -
  let ?ms = "map (\<lambda>b. Fs (Mount (bind_SysPath b) (path_Join [abs_path cs, bind_SiloPath b]) [] MS_BIND)) bs"
  have m: "filter is_mount (map fst t') = filter is_mount (map fst t) @ ?ms"
    using setupBindMounts_emits(1) [of h "abs_path cs" 0 bs] assms(1)
    unfolding emits_def bind_mount_def [abs_def] by blast
  then have "set ?ms \<subseteq> set (filter is_mount (map fst t'))" by (simp only: set_append Un_upper2)
  then have "set ?ms \<subseteq> set (map fst t')" using filter_is_subset by (rule subset_trans)
  then have i: "Fs (Mount (bind_SysPath b) (path_Join [abs_path cs, bind_SiloPath b]) [] MS_BIND) \<in> set (map fst t')"
    if "b \<in> set bs" for b
    using that by (auto simp only: set_map)
  show ?thesis
    unfolding Let_def
    by (intro conjI m ballI allI impI i path_Join_below [OF assms(2)]) (simp_all only: path_Join_beside [OF assms(2)] not_False_eq_True)
qed


subsection \<open>Witnesses\<close>

definition ex_info_silo :: Silo where
  "ex_info_silo = (fst (snd ex_init))\<lparr>s_Args := [''-c'', ''echo '' @ [CHR 0x22] @ ''<hi>'' @ [CHR 0x22, CHR 0x0A]],
     s_binds := [\<lparr>bind_SysPath = ''/data'', bind_SiloPath = ''/mnt'', bind_IsFile = False\<rparr>]\<rparr>"

lemma ex_info_ok: "json_ok (info_json (silo_info ex_info_silo))"
  by code_simp

theorem invocation_round_trip_witness:
  "read_info (Marshal (info_json (silo_info ex_info_silo))) = Inr (silo_info ex_info_silo)"
  by (rule invocation_round_trip [OF ex_info_ok])

definition ex_child_host :: host where
  "ex_child_host = calm\<lparr>h_str := (\<lambda>t c. Marshal (info_json (silo_info ex_info_silo)))\<rparr>"

definition ex_child :: "unit res \<times> trace" where
  "ex_child = isolatedMain ex_child_host ''/srv/s01020304'' []"

theorem child_runs_silo_command_witness:
  "filter is_run (map fst (snd ex_child)) =
     [Proc (RunCmd ''/bin/ifconfig'' [''lo'', ''127.0.0.1'', ''netmask'', ''255.0.0.0'', ''up''] []),
      Proc (RunEnv (s_Cmd ex_info_silo) (s_Args ex_info_silo) (s_Env ex_info_silo))]"
proof -
  have "fst ex_child = Ok ()" by code_simp
  then have c: "isolatedMain ex_child_host ''/srv/s01020304'' [] = (Ok (), snd ex_child)"
    by (simp add: ex_child_def prod_eq_iff)
  have "start_commands (s_IDHex ex_info_silo) 0 (s_Interfaces ex_info_silo) =
     [\<lparr>sc_Cmd = ''/bin/ifconfig'', sc_Args = [''lo'', ''127.0.0.1'', ''netmask'', ''255.0.0.0'', ''up''],
       sc_WaitForInterface = []\<rparr>]" by code_simp
  with child_runs_silo_command [OF ex_info_ok _ c] show ?thesis by (simp add: ex_child_host_def)
qed

theorem binds_mounted_below_root_witness:
  "filter is_mount (map fst (snd (setupBindMounts calm (abs_path [''srv'', ''s1'']) 0 (s_binds ex_info_silo) []))) =
     [Fs (Mount ''/data'' ''/srv/s1/mnt'' [] MS_BIND)]"
proof -
  let ?r = "setupBindMounts calm (abs_path [''srv'', ''s1'']) 0 (s_binds ex_info_silo) []"
  have r: "?r = (Ok (), snd ?r)"
    by (simp add: ex_info_silo_def setup_bind_def unless_exists_def io_defs calm_def Let_def)
  have l: "list_all plain_comp [''srv'', ''s1'']" by (simp add: plain_comp_def dotdot_def)
  have "map (\<lambda>b. Fs (Mount (bind_SysPath b) (path_Join [abs_path [''srv'', ''s1''], bind_SiloPath b]) [] MS_BIND))
      (s_binds ex_info_silo) = [Fs (Mount ''/data'' ''/srv/s1/mnt'' [] MS_BIND)]" by code_simp
  with conjunct1 [OF binds_mounted_below_root [OF r l]] show ?thesis by simp
qed

end
