(* ===== verification/Config.thy ===== *)
theory Config
  imports Host
begin

text \<open>
  The configuration of the daemon (\<open>colexd/config.go\<close>): its fields, the defaults and overrides applied
  when it is loaded, and the checks made before it is used. The HCL parser and decoder and the check
  of a TLS key pair are parameters.
\<close>

section \<open>Data\<close>

record Image =
  img_Type :: string
  img_Path :: string
  img_Name :: string

record BindSpec =
  bs_Path :: string
  bs_ID :: string
  bs_IsFile :: bool

record config =
  c_Name :: string
  c_Listener :: string
  c_AddressPool :: string
  c_Images :: "Image list"
  c_SiloDir :: string
  c_Binds :: "BindSpec list"
  c_DisableUserNamespaces :: bool
  c_KeySource :: string
  c_CertPEM :: string
  c_KeyPEM :: string
  c_Mode :: string
  c_BlindEnrollmentWindow :: int
  c_CertsFile :: string
  c_Hostnames :: "(string \<times> string) list option"

definition AuthModeOpen :: string where "AuthModeOpen = ''open''"
definition AuthModeCertfile :: string where "AuthModeCertfile = ''certs-file''"
definition KeySourceEphemeralKeys :: string where "KeySourceEphemeralKeys = ''ephemeral''"
definition KeySourceEmbeddedKeys :: string where "KeySourceEmbeddedKeys = ''embedded''"
definition TarballImage :: string where "TarballImage = ''tarball''"

section \<open>Operations\<close>

text \<open>
  The parameters: \<open>parse\<close> is \<open>hcl.ParseBytes\<close>, with the syntax tree and whether its root is an object
  list; \<open>decode\<close> is \<open>hcl.DecodeObject\<close>; \<open>addr\<close> and \<open>ipPool\<close> are the command-line flags.
\<close>

definition with_defaults :: "string \<Rightarrow> string \<Rightarrow> config \<Rightarrow> config" where
  "with_defaults addr ipPool c =
     (let c1 = (if addr \<noteq> [] then c\<lparr>c_Listener := addr\<rparr> else c);
          c2 = (if ipPool \<noteq> [] then c1\<lparr>c_AddressPool := ipPool\<rparr> else c1);
          c3 = (if c_KeySource c2 = [] then c2\<lparr>c_KeySource := KeySourceEphemeralKeys\<rparr> else c2);
          c4 = (if c_Mode c3 = [] then c3\<lparr>c_Mode := AuthModeOpen\<rparr> else c3)
      in if c_BlindEnrollmentWindow c4 = 0 then c4\<lparr>c_BlindEnrollmentWindow := 35\<rparr> else c4)"

definition loadConfig ::
  "(string \<Rightarrow> ('ast \<times> bool) result) \<Rightarrow> ('ast \<Rightarrow> config result) \<Rightarrow> string \<Rightarrow> string \<Rightarrow> string \<Rightarrow> config result" where
  "loadConfig parse decode addr ipPool d =
     bindR (parse d) (\<lambda>(astRoot, isObjectList).
       if \<not> isObjectList then Inl (ErrNew ''schema malformed'')
       else bindR (decode astRoot) (\<lambda>c. Inr (with_defaults addr ipPool c)))"

definition lift_result :: "'a result \<Rightarrow> 'a io" where
  "lift_result r = (case r of Inl e \<Rightarrow> fail e | Inr x \<Rightarrow> ret x)"

definition loadConfigFile ::
  "host \<Rightarrow> (string \<Rightarrow> ('ast \<times> bool) result) \<Rightarrow> ('ast \<Rightarrow> config result) \<Rightarrow> string \<Rightarrow> string \<Rightarrow> string \<Rightarrow> config io" where
  "loadConfigFile h parse decode addr ipPool fpath =
     bind_io (perform h (Fs (ReadFile fpath)) (h_str h)) (\<lambda>d.
       lift_result (loadConfig parse decode addr ipPool d))"

text \<open>\<open>keypair\<close> is the error of \<open>tls.X509KeyPair\<close> on the two PEM texts, if any.\<close>

definition check_transport :: "(string \<Rightarrow> string \<Rightarrow> gerr option) \<Rightarrow> config \<Rightarrow> unit result" where
  "check_transport keypair c =
     (if c_KeySource c = KeySourceEphemeralKeys then Inr ()
      else if c_KeySource c = KeySourceEmbeddedKeys then
        (case keypair (c_CertPEM c) (c_KeyPEM c) of
           Some e \<Rightarrow> Inl (ErrWrap ''bad embedded key: '' e)
         | None \<Rightarrow> Inr ())
      else Inl (ErrNew ''unknown key_source''))"

definition validateConfig :: "host \<Rightarrow> (string \<Rightarrow> string \<Rightarrow> gerr option) \<Rightarrow> config \<Rightarrow> unit io" where
  "validateConfig h keypair c =
     then_io (lift_result (check_transport keypair c))
       (if c_AddressPool c = [] then fail (ErrNew ''address_pool (flag --ip-pool) must be set'')
        else if c_Listener c = [] then fail (ErrNew ''listener must be set'')
        else if c_Mode c = AuthModeOpen then ret ()
        else if c_Mode c = AuthModeCertfile then do_call h (Fs (Stat (c_CertsFile c)))
        else fail (ErrNew ''unknown authentication mode''))"

section \<open>Properties\<close>

lemma lift_result_ok: "lift_result r t = (Ok x, t') \<longleftrightarrow> r = Inr x \<and> t' = t"
  by (cases r) (auto simp: lift_result_def io_ok)

lemma validateConfig_ok:
  "(\<exists>t'. validateConfig h keypair c t = (Ok (), t')) \<longleftrightarrow>
     (c_KeySource c = ''ephemeral'' \<or> c_KeySource c = ''embedded'' \<and> keypair (c_CertPEM c) (c_KeyPEM c) = None) \<and>
     c_AddressPool c \<noteq> [] \<and> c_Listener c \<noteq> [] \<and>
     (c_Mode c = ''open'' \<or> c_Mode c = ''certs-file'' \<and> h_err h t (Fs (Stat (c_CertsFile c))) = None)"
  by (auto simp: validateConfig_def check_transport_def io_ok lift_result_ok KeySourceEphemeralKeys_def
      KeySourceEmbeddedKeys_def AuthModeOpen_def AuthModeCertfile_def split: if_splits option.splits)

lemma validateConfig_trace:
  "snd (validateConfig h keypair c t) \<in>
     {t, t @ [(Fs (Stat (c_CertsFile c)), h_err h t (Fs (Stat (c_CertsFile c))))]}"
  by (auto simp: validateConfig_def check_transport_def io_defs lift_result_def split: option.splits)

text \<open>
  C26. From the file to the configuration the daemon runs with. When \<open>loadConfigFile\<close> succeeds it has read
  the file once, the text parsed to an object list that decoded to some \<open>c0\<close>, and the configuration is \<open>c0\<close>
  with exactly these changes: the listener and the address pool are the flags where those are given, an empty
  key source becomes \<open>ephemeral\<close>, an empty mode \<open>open\<close> and a window of 0 becomes 35. It then passes
  \<open>validateConfig\<close> exactly when the file leaves the key source open, or says \<open>ephemeral\<close>, or \<open>embedded\<close> with
  a pair that loads; pool and listener are set in the file or by a flag; and the file leaves the mode open,
  or says \<open>open\<close>, or \<open>certs-file\<close> with a file that can be stat'ed. Validation makes no call but that one.
\<close>

theorem loaded_config_validates_iff:
  assumes "loadConfigFile h parse decode addr ipPool fpath t = (Ok c, t')"
  shows "\<exists>a c0. h_err h t (Fs (ReadFile fpath)) = None \<and> t' = t @ [(Fs (ReadFile fpath), None)] \<and>
    parse (h_str h t (Fs (ReadFile fpath))) = Inr (a, True) \<and> decode a = Inr c0 \<and>
    c = c0\<lparr>c_Listener := if addr = [] then c_Listener c0 else addr,
           c_AddressPool := if ipPool = [] then c_AddressPool c0 else ipPool,
           c_KeySource := if c_KeySource c0 = [] then ''ephemeral'' else c_KeySource c0,
           c_Mode := if c_Mode c0 = [] then ''open'' else c_Mode c0,
           c_BlindEnrollmentWindow := if c_BlindEnrollmentWindow c0 = 0 then 35 else c_BlindEnrollmentWindow c0\<rparr> \<and>
    ((\<exists>t''. validateConfig h keypair c t' = (Ok (), t'')) \<longleftrightarrow>
       (c_KeySource c0 \<in> {[], ''ephemeral''} \<or> c_KeySource c0 = ''embedded'' \<and> keypair (c_CertPEM c0) (c_KeyPEM c0) = None) \<and>
       (c_AddressPool c0 \<noteq> [] \<or> ipPool \<noteq> []) \<and> (c_Listener c0 \<noteq> [] \<or> addr \<noteq> []) \<and>
       (c_Mode c0 \<in> {[], ''open''} \<or> c_Mode c0 = ''certs-file'' \<and> h_err h t' (Fs (Stat (c_CertsFile c0))) = None)) \<and>
    snd (validateConfig h keypair c t') \<in>
      {t', t' @ [(Fs (Stat (c_CertsFile c0)), h_err h t' (Fs (Stat (c_CertsFile c0))))]}"
proof -
  from assms obtain a c0 where l: "h_err h t (Fs (ReadFile fpath)) = None" "t' = t @ [(Fs (ReadFile fpath), None)]"
    "parse (h_str h t (Fs (ReadFile fpath))) = Inr (a, True)" "decode a = Inr c0" "c = with_defaults addr ipPool c0"
    by (auto simp: loadConfigFile_def loadConfig_def io_ok lift_result_ok result_simps split: if_splits prod.splits)
  let ?d = "c0\<lparr>c_Listener := if addr = [] then c_Listener c0 else addr,
           c_AddressPool := if ipPool = [] then c_AddressPool c0 else ipPool,
           c_KeySource := if c_KeySource c0 = [] then ''ephemeral'' else c_KeySource c0,
           c_Mode := if c_Mode c0 = [] then ''open'' else c_Mode c0,
           c_BlindEnrollmentWindow := if c_BlindEnrollmentWindow c0 = 0 then 35 else c_BlindEnrollmentWindow c0\<rparr>"
  have d: "c = ?d" unfolding l(5)
    by (cases c0) (simp add: with_defaults_def Let_def KeySourceEphemeralKeys_def AuthModeOpen_def)
  have v: "(\<exists>t''. validateConfig h keypair c t' = (Ok (), t'')) \<longleftrightarrow>
       (c_KeySource c0 \<in> {[], ''ephemeral''} \<or> c_KeySource c0 = ''embedded'' \<and> keypair (c_CertPEM c0) (c_KeyPEM c0) = None) \<and>
       (c_AddressPool c0 \<noteq> [] \<or> ipPool \<noteq> []) \<and> (c_Listener c0 \<noteq> [] \<or> addr \<noteq> []) \<and>
       (c_Mode c0 \<in> {[], ''open''} \<or> c_Mode c0 = ''certs-file'' \<and> h_err h t' (Fs (Stat (c_CertsFile c0))) = None)"
    unfolding d validateConfig_ok by auto
  have w: "snd (validateConfig h keypair c t') \<in>
      {t', t' @ [(Fs (Stat (c_CertsFile c0)), h_err h t' (Fs (Stat (c_CertsFile c0))))]}"
    using validateConfig_trace [of h keypair ?d t'] unfolding d by simp
  show ?thesis by (rule exI [of _ a], rule exI [of _ c0], intro conjI) (fact l d v w)+
qed

definition ex_config :: config where
  "ex_config = \<lparr>c_Name = ''srv'', c_Listener = '':8080'', c_AddressPool = [], c_Images = [], c_SiloDir = [], c_Binds = [],
     c_DisableUserNamespaces = False, c_KeySource = [], c_CertPEM = [], c_KeyPEM = [], c_Mode = [],
     c_BlindEnrollmentWindow = 0, c_CertsFile = [], c_Hostnames = None\<rparr>"

definition ex_file_config :: config where
  "ex_file_config = ex_config\<lparr>c_Mode := ''certs-file'', c_CertsFile := ''certs'', c_BlindEnrollmentWindow := 60\<rparr>"

theorem loaded_config_validates_iff_witness:
  "\<exists>c t' t''. loadConfigFile calm (\<lambda>d. Inr ((), True)) (\<lambda>a. Inr ex_file_config) [] ''10.21.0.1/24'' ''srv.hcl'' [] = (Ok c, t') \<and>
     c = ex_file_config\<lparr>c_AddressPool := ''10.21.0.1/24'', c_KeySource := ''ephemeral''\<rparr> \<and>
     validateConfig calm (\<lambda>_ _. None) c t' = (Ok (), t'')"
proof -
  let ?l = "loadConfigFile calm (\<lambda>d. Inr ((), True)) (\<lambda>a. Inr ex_file_config) [] ''10.21.0.1/24'' ''srv.hcl'' []"
  have l: "?l = (Ok (with_defaults [] ''10.21.0.1/24'' ex_file_config), [(Fs (ReadFile ''srv.hcl''), None)])"
    by (simp add: loadConfigFile_def loadConfig_def lift_result_def io_defs calm_def)
  have "(\<exists>t''. validateConfig calm (\<lambda>_ _. None) (with_defaults [] ''10.21.0.1/24'' ex_file_config)
          [(Fs (ReadFile ''srv.hcl''), None)] = (Ok (), t'')) \<and>
      with_defaults [] ''10.21.0.1/24'' ex_file_config =
        ex_file_config\<lparr>c_AddressPool := ''10.21.0.1/24'', c_KeySource := ''ephemeral''\<rparr>"
    using loaded_config_validates_iff [OF l, of "\<lambda>_ _. None"] by (auto simp: ex_file_config_def ex_config_def calm_def)
  with l show ?thesis by blast
qed

end
