(* ===== verification/SiloConf.thy ===== *)
theory SiloConf
  imports Config
begin

text \<open>
  Silo files (\<open>siloconf/read.go\<close>, \<open>siloconf/encode.go\<close>): parsing, with the default base, and loading
  from a path. The HCL parser and decoder are the parameters they are for the daemon's configuration.
\<close>

definition default_base :: "conf_Silo \<Rightarrow> conf_Silo" where
  "default_base s = (if cs_Base s = [] then s\<lparr>cs_Base := ''img://busybox''\<rparr> else s)"

definition ParseSiloFile ::
  "(string \<Rightarrow> ('ast \<times> bool) result) \<Rightarrow> ('ast \<Rightarrow> SiloFile result) \<Rightarrow> string \<Rightarrow> SiloFile result" where
  "ParseSiloFile parse decode d =
     bindR (parse d) (\<lambda>(astRoot, isObjectList).
       if \<not> isObjectList then Inl (ErrNew ''schema malformed'')
       else bindR (decode astRoot) (\<lambda>outSpec. Inr (outSpec\<lparr>Silos := map default_base (Silos outSpec)\<rparr>)))"

definition LoadSiloFile ::
  "host \<Rightarrow> (string \<Rightarrow> ('ast \<times> bool) result) \<Rightarrow> ('ast \<Rightarrow> SiloFile result) \<Rightarrow> string \<Rightarrow> SiloFile io" where
  "LoadSiloFile h parse decode fpath =
     bind_io (perform h (Fs (ReadFile fpath)) (h_str h)) (\<lambda>d. lift_result (ParseSiloFile parse decode d))"

text \<open>\<open>Build\<close> is announced and not written: it fails on every silo.\<close>

definition Build :: "conf_Silo \<Rightarrow> 'options result" where
  "Build c = Inl (ErrNew ''not implemented'')"

lemma ParseSiloFile_base:
  "ParseSiloFile parse decode d = Inr f \<Longrightarrow> list_all (\<lambda>s. cs_Base s \<noteq> []) (Silos f)"
  by (auto simp: ParseSiloFile_def result_simps default_base_def list_all_iff split: if_splits prod.splits)

end
