(* ===== verification/Auth.thy ===== *)
theory Auth
  imports Config Json
begin

text \<open>
  Authorisation by client certificates (\<open>colexd/auth.go\<close>): the file of authorised keys, enrolment, which
  appends a line to it, and the check of a request. A certificate is its raw bytes and its public
  key in PKIX form, or the error of encoding it.
\<close>

section \<open>Data\<close>

record cert =
  cert_Raw :: "byte list"
  cert_PublicKey :: "byte list result"

record authorizedUser =
  u_Name :: string
  u_CreatedAtEpoch :: int
  u_RoleEncoded :: string
  u_PubkeyRaw :: string

definition roleRoot :: string where "roleRoot = ''root''"

definition errNotAuthorized :: gerr where "errNotAuthorized = ErrSentinel ''not authorized''"

text \<open>The bytes of a string, and back.\<close>

definition bytes_of :: "string \<Rightarrow> byte list" where
  "bytes_of s = map (\<lambda>c. of_nat (of_char c)) s"

definition string_of :: "byte list \<Rightarrow> string" where
  "string_of b = map (\<lambda>w. char_of (unat w)) b"

section \<open>Operations\<close>

definition role_json :: "string \<Rightarrow> json" where
  "role_json role = JObj [(''Role'', JStr role)]"

text \<open>
  \<open>GetRole\<close>: the error of the base64 decoder is dropped, with what it decoded so far; text that is not
  valid JSON leaves the default, and so does a role that is not a string.
\<close>

definition GetRole :: "authorizedUser \<Rightarrow> string" where
  "GetRole u =
     (let d = string_of (fst (b64_groups (filter (\<lambda>c. c \<noteq> CHR 0x0A \<and> c \<noteq> CHR 0x0D) (u_RoleEncoded u)))) in
      case Unmarshal d of
        Inr (JObj kvs) \<Rightarrow> (case get_field as_str ''Role'' ''UNKNOWN'' kvs of Inr r \<Rightarrow> r | Inl _ \<Rightarrow> ''UNKNOWN'')
      | _ \<Rightarrow> ''UNKNOWN'')"

definition parseCertAuthorizedLine :: "string \<Rightarrow> authorizedUser result" where
  "parseCertAuthorizedLine line =
     (case Split line (CHR '' '') of
        [name, role, epoch, key] \<Rightarrow>
          bindR (Atoi epoch) (\<lambda>e.
            Inr \<lparr>u_Name = name, u_CreatedAtEpoch = e, u_RoleEncoded = role, u_PubkeyRaw = key\<rparr>)
      | _ \<Rightarrow> Inl (ErrNew ''line split failed''))"

definition sanitize :: "string \<Rightarrow> string" where
  "sanitize s = ReplaceBytes [(CHR 0x0A, []), (CHR '' '', [])] s"

definition enroll_line :: "string \<Rightarrow> string \<Rightarrow> int \<Rightarrow> byte list \<Rightarrow> string" where
  "enroll_line name role now pkey =
     CHR 0x0A # sanitize name @ '' '' @ b64_encode (bytes_of (Marshal (role_json (sanitize role)))) @ '' '' @
     FormatInt now @ '' '' @ b64_encode pkey"

definition enrollCertificate ::
  "host \<Rightarrow> string \<Rightarrow> string \<Rightarrow> config \<Rightarrow> cert list option \<Rightarrow> unit io" where
  "enrollCertificate h name role c conn =
     (case conn of
        Some (cert # _) \<Rightarrow>
          bind_io (lift_result (cert_PublicKey cert)) (\<lambda>pkey.
          then_io (do_call h (Fs (OpenAppend (c_CertsFile c))))
         (bind_io (now_io h) (\<lambda>now.
          then_io
            (catch_io (do_call h (Fs (FWrite (c_CertsFile c) (enroll_line name role (Unix now) pkey))))
               (\<lambda>e. then_io (ignore_io (do_call h (Fs (FClose (c_CertsFile c))))) (fail e)))
            (do_call h (Fs (FClose (c_CertsFile c)))))))
      | _ \<Rightarrow> fail (ErrNew ''expected certificate''))"

text \<open>The loop over the lines: an empty one is skipped, one that does not parse ends the check.\<close>

fun auth_scan :: "string \<Rightarrow> string list \<Rightarrow> authorizedUser result option" where
  "auth_scan pkeyb64 [] = None"
| "auth_scan pkeyb64 (l # ls) =
     (if l = [] then auth_scan pkeyb64 ls
      else case parseCertAuthorizedLine l of
        Inl e \<Rightarrow> Some (Inl e)
      | Inr row \<Rightarrow> if u_PubkeyRaw row = pkeyb64 then Some (Inr row) else auth_scan pkeyb64 ls)"

definition auth_result :: "byte list \<Rightarrow> string \<times> gerr option \<Rightarrow> authorizedUser result" where
  "auth_result pkey d =
     (let (ls, err) = Scan d in
      case auth_scan (b64_encode pkey) ls of
        Some r \<Rightarrow> r
      | None \<Rightarrow> (case err of Some e \<Rightarrow> Inl e | None \<Rightarrow> Inl errNotAuthorized))"

definition checkCertificateAuthorized :: "host \<Rightarrow> config \<Rightarrow> cert \<Rightarrow> authorizedUser io" where
  "checkCertificateAuthorized h c cert =
     bind_io (lift_result (cert_PublicKey cert)) (\<lambda>pkey.
     then_io (do_call h (Fs (OpenRead (c_CertsFile c))))
       (defer_io (do_call h (Fs (FClose (c_CertsFile c))))
          (bind_io (read_io h (c_CertsFile c)) (\<lambda>d. lift_result (auth_result pkey d)))))"

text \<open>
  \<open>checkAuthorized\<close> on the path of a request and its peer certificates, if it came by TLS. The user is
  nil where no authorisation is needed.
\<close>

definition checkAuthorized ::
  "host \<Rightarrow> config \<Rightarrow> string \<Rightarrow> cert list option \<Rightarrow> authorizedUser option io" where
  "checkAuthorized h c path tls =
     (if c_Mode c = AuthModeOpen then ret None
      else if path = ''/enroll'' then ret None
      else case tls of
        Some (cert # _) \<Rightarrow>
          if c_Mode c = AuthModeCertfile
          then bind_io (checkCertificateAuthorized h c cert) (\<lambda>u. ret (Some u))
          else fail (ErrNew (''don't know how to handle auth mode '' @ c_Mode c))
      | _ \<Rightarrow> fail (ErrNew ''no tls certificate''))"

section \<open>Facts\<close>

lemma string_of_bytes_of: "ascii s \<Longrightarrow> string_of (bytes_of s) = s"
proof (induction s)
  case (Cons c s)
  then have "(of_char c :: nat) < 128" by (simp add: ascii_def cont_in_def)
  then have "unat (of_nat (of_char c) :: byte) = of_char c" by (simp add: unat_of_nat)
  with Cons show ?case by (simp add: ascii_def string_of_def bytes_of_def)
qed (simp add: string_of_def bytes_of_def)

lemma sanitize_eq: "sanitize s = filter (\<lambda>c. c \<noteq> CHR 0x0A \<and> c \<noteq> CHR '' '') s"
  by (induction s) (auto simp: sanitize_def ReplaceBytes_def)

text \<open>What the scanner delivers, but for empty lines, if no line is too long.\<close>

lemma scan_split_ok:
  assumes "list_all (\<lambda>l. length l < scan_limit) xs"
  shows "\<exists>toks. scan_split xs = (toks, None) \<and> filter (\<lambda>l. l \<noteq> []) toks = filter (\<lambda>l. l \<noteq> []) (map drop_cr xs)"
  using assms
proof (induction xs rule: scan_split.induct)
  case (2 l)
  then show ?case by (auto simp: drop_cr_def)
next
  case (3 l l' ls)
  then obtain toks where "scan_split (l' # ls) = (toks, None)"
    "filter (\<lambda>l. l \<noteq> []) toks = filter (\<lambda>l. l \<noteq> []) (map drop_cr (l' # ls))" by auto
  with 3 show ?case by auto
qed simp

lemma auth_scan_filter: "auth_scan k ls = auth_scan k (filter (\<lambda>l. l \<noteq> []) ls)"
  by (induction ls) (auto split: sum.splits)

lemma auth_scan_append:
  "auth_scan k (xs @ ys) = (case auth_scan k xs of Some r \<Rightarrow> Some r | None \<Rightarrow> auth_scan k ys)"
  by (induction xs) (auto split: sum.splits)

text \<open>If some line is too long, what is scanned before it does not depend on what follows it.\<close>

lemma scan_split_long:
  assumes "\<not> list_all (\<lambda>l. length l < scan_limit) xs"
  shows "\<exists>toks e. scan_split (xs @ ys) = (toks, Some e) \<and> scan_split xs = (toks, Some e)"
  using assms
proof (induction xs rule: scan_split.induct)
  case (2 l)
  then show ?case by (cases ys) auto
next
  case (3 l l' ls)
  then show ?case by (cases "length l < scan_limit") (auto simp: not_less split: prod.splits)
qed simp

lemma auth_result_append:
  assumes l: "CHR 0x0A \<notin> set l" "length l < scan_limit" "drop_cr l \<noteq> []" "drop_cr l = l"
    and p: "parseCertAuthorizedLine l = Inr row"
  shows "auth_result k (old @ CHR 0x0A # l, None) =
    (case auth_result k (old, None) of
       Inr u \<Rightarrow> Inr u
     | Inl e \<Rightarrow> if e = errNotAuthorized \<and> auth_scan (b64_encode k) (fst (Scan (old, None))) = None \<and> snd (Scan (old, None)) = None
                then if u_PubkeyRaw row = b64_encode k then Inr row else Inl errNotAuthorized
                else Inl e)"
proof -
  have s: "Split (old @ CHR 0x0A # l) (CHR 0x0A) = Split old (CHR 0x0A) @ [l]"
    using l(1) by (simp add: Split_append_slash Split_no_sep)
  show ?thesis
  proof (cases "list_all (\<lambda>l. length l < scan_limit) (Split old (CHR 0x0A))")
    case True
    obtain t1 where t1: "scan_split (Split old (CHR 0x0A)) = (t1, None)"
      "filter (\<lambda>l. l \<noteq> []) t1 = filter (\<lambda>l. l \<noteq> []) (map drop_cr (Split old (CHR 0x0A)))"
      using scan_split_ok [OF True] by blast
    have "list_all (\<lambda>l. length l < scan_limit) (Split old (CHR 0x0A) @ [l])" using True l(2) by simp
    then obtain t2 where t2: "scan_split (Split old (CHR 0x0A) @ [l]) = (t2, None)"
      "filter (\<lambda>l. l \<noteq> []) t2 = filter (\<lambda>l. l \<noteq> []) (map drop_cr (Split old (CHR 0x0A) @ [l]))"
      using scan_split_ok by blast
    have "auth_scan (b64_encode k) t2 = auth_scan (b64_encode k) (t1 @ [l])"
      using t1(2) t2(2) l(3,4) auth_scan_filter [of _ t2] auth_scan_filter [of _ "t1 @ [l]"] by simp
    then show ?thesis
      using t1(1) t2(1) p l(3,4)
      by (auto simp: auth_result_def Scan_def s auth_scan_append split: option.splits sum.splits)
  next
    case False
    then obtain toks e where "scan_split (Split old (CHR 0x0A) @ [l]) = (toks, Some e)"
      "scan_split (Split old (CHR 0x0A)) = (toks, Some e)"
      using scan_split_long by blast
    then show ?thesis
      by (auto simp: auth_result_def Scan_def s split: option.splits sum.splits)
  qed
qed


lemma parse_err: "parseCertAuthorizedLine l = Inl e \<Longrightarrow> e \<noteq> errNotAuthorized"
  by (auto simp: parseCertAuthorizedLine_def errNotAuthorized_def Atoi_def Let_def split: list.splits if_splits prod.splits)

lemma auth_scan_err: "auth_scan k ls = Some (Inl e) \<Longrightarrow> e \<noteq> errNotAuthorized"
  by (induction ls) (auto split: if_splits sum.splits dest: parse_err)

lemma scan_split_err: "snd (scan_split xs) \<noteq> Some errNotAuthorized"
  by (induction xs rule: scan_split.induct) (auto simp: errNotAuthorized_def split: prod.splits)

lemma not_authorized_cases:
  assumes "auth_result k (old, None) = Inl errNotAuthorized"
  shows "auth_scan (b64_encode k) (fst (Scan (old, None))) = None \<and> snd (Scan (old, None)) = None"
  using assms scan_split_err [of "Split old (CHR 0x0A)"]
  by (auto simp: auth_result_def Scan_def split: prod.splits option.splits dest: auth_scan_err)

lemma enroll_fields:
  assumes now: "- (2 ^ 63) \<le> now" "now < 2 ^ 63"
  shows "parseCertAuthorizedLine (tl (enroll_line name role now pk)) =
    Inr \<lparr>u_Name = sanitize name, u_CreatedAtEpoch = now,
         u_RoleEncoded = b64_encode (bytes_of (Marshal (role_json (sanitize role)))), u_PubkeyRaw = b64_encode pk\<rparr>"
proof -
  have n: "CHR '' '' \<notin> set (sanitize name)" by (auto simp: sanitize_eq)
  have b: "CHR '' '' \<notin> set (b64_encode x)" for x using b64_encode_chars by blast
  have f: "CHR '' '' \<notin> set (FormatInt now)" using FormatInt_chars digit_not_special by fastforce
  have "Split (tl (enroll_line name role now pk)) (CHR '' '') =
      [sanitize name, b64_encode (bytes_of (Marshal (role_json (sanitize role)))), FormatInt now, b64_encode pk]"
    by (simp add: enroll_line_def Split_append_sep n b f Split_no_sep)
  then show ?thesis using Atoi_FormatInt [OF now] by (simp add: parseCertAuthorizedLine_def)
qed

lemma drop_cr_last: "l \<noteq> [] \<Longrightarrow> last l \<noteq> CHR 0x0D \<Longrightarrow> drop_cr l = l"
  by (simp add: drop_cr_def)

lemma enroll_no_newline: "CHR 0x0A \<notin> set (tl (enroll_line name role now pk))"
proof -
  have "CHR 0x0A \<notin> set (sanitize name)" by (auto simp: sanitize_eq)
  moreover have "CHR 0x0A \<notin> set (b64_encode x)" for x using b64_encode_chars by blast
  moreover have "CHR 0x0A \<notin> set (FormatInt now)" using FormatInt_chars [of "CHR 0x0A" now] by (auto simp: is_digit_def)
  ultimately show ?thesis by (simp add: enroll_line_def)
qed

lemma Split_prefix: "c \<notin> set l \<Longrightarrow> \<exists>x ys. Split (l @ m) c = (l @ x) # ys"
proof (induction l)
  case Nil
  then show ?case by (cases "Split m c") (use Split_not_Nil in auto)
next
  case (Cons a l)
  then obtain x ys where "Split (l @ m) c = (l @ x) # ys" by auto
  with Cons.prems show ?case by auto
qed

lemma Split_four: "Split l c = [w, x, y, z] \<Longrightarrow> l = w @ [c] @ x @ [c] @ y @ [c] @ z"
  using Join_Split [of l c] by simp

lemma scan_split_stop:
  assumes "list_all (\<lambda>l. length l < scan_limit) xs" "scan_limit \<le> length l"
  shows "scan_split (xs @ l # ys) = (map drop_cr xs, Some (ErrSentinel ''bufio.Scanner: token too long''))"
  using assms(1)
proof (induction xs)
  case Nil
  then show ?case using assms(2) by (cases ys) auto
next
  case (Cons x xs)
  then show ?case by (cases xs) auto
qed

lemma enroll_drop_cr: "drop_cr (tl (enroll_line name role now pk)) = tl (enroll_line name role now pk)"
proof (rule drop_cr_last)
  show "tl (enroll_line name role now pk) \<noteq> []" by (simp add: enroll_line_def)
  show "last (tl (enroll_line name role now pk)) \<noteq> CHR 0x0D"
  proof (cases "b64_encode pk = []")
    case True
    then show ?thesis by (simp add: enroll_line_def)
  next
    case False
    then have "last (b64_encode pk) \<in> set (b64_encode pk)" by simp
    then have "last (b64_encode pk) \<noteq> CHR 0x0D" using b64_encode_chars by blast
    with False show ?thesis by (simp add: enroll_line_def)
  qed
qed

lemma hex_char_ascii: "n < 16 \<Longrightarrow> cont_in 0 0x7F (hex_char n)"
proof -
  have "\<forall>n \<in> set [0..<16]. cont_in 0 0x7F (hex_char n)" by code_simp
  moreover assume "n < 16"
  ultimately show ?thesis by simp
qed

lemma esc_byte_ascii:
  assumes "cont_in 0 0x7F c"
  shows "ascii (esc_byte c)"
proof -
  have "of_char c div 16 < (16 :: nat)" "of_char c mod 16 < (16 :: nat)" using assms by (auto simp: cont_in_def)
  then have h: "ascii (hex2 c)" by (simp add: ascii_def hex2_def hex_char_ascii)
  have k: "cont_in 0 0x7F (CHR 0x5C)" "ascii ''u00''" "ascii ''n''" "ascii ''r''" "ascii ''t''" by code_simp+
  with assms h show ?thesis by (simp add: esc_byte_def ascii_def)
qed

lemma esc_string_ascii: "ascii s \<Longrightarrow> ascii (esc_string s)"
proof (induction s)
  case (Cons c s)
  then have "ascii (esc_byte c)" "ascii (esc_string s)" by (auto simp: ascii_def intro: esc_byte_ascii [unfolded ascii_def])
  with Cons.prems show ?case by (simp add: ascii_def)
qed simp

lemma role_text_ascii: "ascii role \<Longrightarrow> ascii (Marshal (role_json role))"
proof -
  assume "ascii role"
  then have e: "ascii (esc_string role)" by (rule esc_string_ascii)
  have k: "ascii (CHR ''{'' # quote_str ''Role'' @ [CHR '':'', CHR 0x22])" "ascii ([CHR 0x22] @ ''}'')" by code_simp+
  have "Marshal (role_json role) = (CHR ''{'' # quote_str ''Role'' @ [CHR '':'', CHR 0x22]) @ esc_string role @ [CHR 0x22] @ ''}''"
    by (simp add: role_json_def quote_str_def)
  with e k show ?thesis by (simp add: ascii_def)
qed

lemma GetRole_enrolled:
  assumes "ascii role" "u_RoleEncoded u = b64_encode (bytes_of (Marshal (role_json role)))"
  shows "GetRole u = role"
proof -
  have k: "same_key ''Role'' ''Role''" by (simp add: same_key_def)
  have j: "json_ok (role_json role)" using assms(1) by (simp add: role_json_def ascii_def cont_in_def)
  have f: "filter (\<lambda>c. c \<noteq> CHR 0x0A \<and> c \<noteq> CHR 0x0D) (b64_encode x) = b64_encode x" for x
    by (rule filter_True) (use b64_encode_chars in auto)
  have "ascii (Marshal (role_json role))" by (rule role_text_ascii [OF assms(1)])
  then show ?thesis
    using Unmarshal_Marshal [OF j] k
    by (simp add: GetRole_def assms(2) f b64_groups_encode string_of_bytes_of) (simp add: role_json_def)
qed

text \<open>The text appended by an enrolment: a newline and one line that parses.\<close>

lemma enroll_line_shape:
  assumes "- (2 ^ 63) \<le> now" "now < 2 ^ 63"
  obtains l where "enroll_line name role now pk = CHR 0x0A # l" "CHR 0x0A \<notin> set l" "drop_cr l = l" "l \<noteq> []"
    "parseCertAuthorizedLine l = Inr \<lparr>u_Name = sanitize name, u_CreatedAtEpoch = now,
         u_RoleEncoded = b64_encode (bytes_of (Marshal (role_json (sanitize role)))), u_PubkeyRaw = b64_encode pk\<rparr>"
proof (rule that [of "tl (enroll_line name role now pk)"])
  show "enroll_line name role now pk = CHR 0x0A # tl (enroll_line name role now pk)"
    "tl (enroll_line name role now pk) \<noteq> []"
    unfolding enroll_line_def by simp_all
qed (rule enroll_no_newline enroll_drop_cr enroll_fields [OF assms])+

section \<open>Properties\<close>

text \<open>
  C25. Enrolment adds exactly one user. When \<open>enrollCertificate\<close> succeeds it has appended one text to the
  file. If the line is at most the scanner's limit of 64 KiB and the time fits 64 bits, then, whatever the file
  held before and for every key, the check on the extended file gives what it gave before, except for the enrolled
  key: if the check of it said not authorised (and not, say, that a line does not parse), it is now authorised as
  the user with the given name, without spaces and newlines. So no such name or role can authorise another key,
  change another user or break the file. A role of ASCII characters, without spaces and newlines, is the role the
  user has.
\<close>

theorem enroll_adds_exactly_one_user:
  assumes "enrollCertificate h name role c (Some (crt # rest)) t = (Ok (), t')"
    and "Unix (h_int h (t @ [(Fs (OpenAppend (c_CertsFile c)), None)]) (Proc Now)) = now"
    and "- (2 ^ 63) \<le> now" and "now < 2 ^ 63"
    and "\<And>pkey. cert_PublicKey crt = Inr pkey \<Longrightarrow> length (enroll_line name role now pkey) \<le> 65536"
  shows "\<exists>pkey d u. cert_PublicKey crt = Inr pkey \<and>
    t' = t @ [(Fs (OpenAppend (c_CertsFile c)), None), (Proc Now, None),
             (Fs (FWrite (c_CertsFile c) d), None), (Fs (FClose (c_CertsFile c)), None)] \<and>
    u_Name u = filter (\<lambda>x. x \<noteq> CHR 0x0A \<and> x \<noteq> CHR '' '') name \<and> u_CreatedAtEpoch u = now \<and>
    (ascii (sanitize role) \<longrightarrow> GetRole u = sanitize role) \<and>
    (\<forall>old k. auth_result k (old @ d, None) =
       (if k = pkey \<and> auth_result k (old, None) = Inl errNotAuthorized then Inr u else auth_result k (old, None)))"
proof -
  from assms(1,2) obtain pkey where pk: "cert_PublicKey crt = Inr pkey" and
    t': "t' = t @ [(Fs (OpenAppend (c_CertsFile c)), None), (Proc Now, None),
       (Fs (FWrite (c_CertsFile c) (enroll_line name role now pkey)), None), (Fs (FClose (c_CertsFile c)), None)]"
    by (auto simp: enrollCertificate_def io_ok lift_result_ok catch_cleanup_ok)
  let ?d = "enroll_line name role now pkey"
  let ?u = "\<lparr>u_Name = sanitize name, u_CreatedAtEpoch = now,
         u_RoleEncoded = b64_encode (bytes_of (Marshal (role_json (sanitize role)))), u_PubkeyRaw = b64_encode pkey\<rparr>"
  obtain l where l: "?d = CHR 0x0A # l" "CHR 0x0A \<notin> set l" "drop_cr l = l" "l \<noteq> []"
    "parseCertAuthorizedLine l = Inr ?u"
    using enroll_line_shape [OF assms(3,4)] by blast
  have len: "length l < scan_limit" using assms(5) [OF pk] l(1) by (simp add: scan_limit_def)
  have "auth_result k (old @ ?d, None) =
       (if k = pkey \<and> auth_result k (old, None) = Inl errNotAuthorized then Inr ?u else auth_result k (old, None))" for old k
  proof -
    have ap: "auth_result k (old @ ?d, None) =
      (case auth_result k (old, None) of
         Inr u \<Rightarrow> Inr u
       | Inl e \<Rightarrow> if e = errNotAuthorized then if b64_encode pkey = b64_encode k then Inr ?u else Inl errNotAuthorized
                  else Inl e)"
      using auth_result_append [OF l(2) len _ l(3) l(5), of k old] not_authorized_cases [of k old] l(1,3,4)
      by (auto split: sum.splits)
    show ?thesis unfolding ap using b64_encode_inj [of pkey k] by (cases "auth_result k (old, None)") auto
  qed
  moreover have "u_Name ?u = filter (\<lambda>x. x \<noteq> CHR 0x0A \<and> x \<noteq> CHR '' '') name" by (simp add: sanitize_eq)
  moreover have "ascii (sanitize role) \<longrightarrow> GetRole ?u = sanitize role" using GetRole_enrolled [of "sanitize role" ?u] by simp
  ultimately show ?thesis using pk t' by (intro exI [of _ pkey] exI [of _ ?d] exI [of _ ?u]) simp
qed

text \<open>
  The file as it is meant to be read. A line lists the user whose name, role, time of creation and key are its
  four fields. A key is authorised as the user of the first line that lists it, if every line before that one
  is empty or lists another key: a line that lists nobody ends the search.
\<close>

definition line_lists :: "string \<Rightarrow> authorizedUser \<Rightarrow> bool" where
  "line_lists l u \<longleftrightarrow> (\<exists>epoch. l = u_Name u @ '' '' @ u_RoleEncoded u @ '' '' @ epoch @ '' '' @ u_PubkeyRaw u \<and>
     CHR '' '' \<notin> set (u_Name u) \<and> CHR '' '' \<notin> set (u_RoleEncoded u) \<and> CHR '' '' \<notin> set epoch \<and>
     CHR '' '' \<notin> set (u_PubkeyRaw u) \<and> Atoi epoch = Inr (u_CreatedAtEpoch u))"

definition listed_as :: "string list \<Rightarrow> byte list \<Rightarrow> authorizedUser \<Rightarrow> bool" where
  "listed_as lines pkey u \<longleftrightarrow> (\<exists>pre l post. lines = pre @ l # post \<and> line_lists l u \<and> u_PubkeyRaw u = b64_encode pkey \<and>
     (\<forall>m \<in> set pre. m = [] \<or> (\<exists>v. line_lists m v \<and> u_PubkeyRaw v \<noteq> b64_encode pkey)))"

lemma line_lists_iff: "parseCertAuthorizedLine l = Inr u \<longleftrightarrow> line_lists l u"
proof
  assume "parseCertAuthorizedLine l = Inr u"
  then obtain epoch where s: "Split l (CHR '' '') = [u_Name u, u_RoleEncoded u, epoch, u_PubkeyRaw u]"
    and e: "Atoi epoch = Inr (u_CreatedAtEpoch u)"
    by (auto simp: parseCertAuthorizedLine_def result_simps split: list.splits)
  from Split_four [OF s] Split_parts_no_sep [of _ l "CHR '' ''"] s e show "line_lists l u"
    unfolding line_lists_def by (intro exI [of _ epoch]) auto
next
  assume "line_lists l u"
  then obtain epoch where "l = u_Name u @ '' '' @ u_RoleEncoded u @ '' '' @ epoch @ '' '' @ u_PubkeyRaw u"
    "CHR '' '' \<notin> set (u_Name u)" "CHR '' '' \<notin> set (u_RoleEncoded u)" "CHR '' '' \<notin> set epoch"
    "CHR '' '' \<notin> set (u_PubkeyRaw u)" "Atoi epoch = Inr (u_CreatedAtEpoch u)"
    unfolding line_lists_def by blast
  then show "parseCertAuthorizedLine l = Inr u"
    by (simp add: parseCertAuthorizedLine_def Split_append_sep Split_no_sep)
qed

lemma not_line_lists_empty: "\<not> line_lists [] u"
  by (simp add: line_lists_def)

lemma first_such_Cons:
  "(\<exists>pre x post. a # xs = pre @ x # post \<and> P x \<and> (\<forall>m \<in> set pre. Q m)) \<longleftrightarrow>
   P a \<or> Q a \<and> (\<exists>pre x post. xs = pre @ x # post \<and> P x \<and> (\<forall>m \<in> set pre. Q m))" (is "?l \<longleftrightarrow> ?r")
proof
  assume ?l
  then obtain pre x post where "a # xs = pre @ x # post" "P x" "\<forall>m \<in> set pre. Q m" by blast
  then show ?r by (cases pre) auto
next
  assume ?r
  then show ?l
  proof (elim disjE conjE exE)
    assume "P a"
    then show ?l by (intro exI [of _ "[]"] exI [of _ a] exI [of _ xs]) simp
  next
    fix pre x post assume "Q a" "xs = pre @ x # post" "P x" "\<forall>m \<in> set pre. Q m"
    then show ?l by (intro exI [of _ "a # pre"] exI [of _ x] exI [of _ post]) simp
  qed
qed

lemma auth_scan_iff: "auth_scan (b64_encode pkey) ls = Some (Inr u) \<longleftrightarrow> listed_as ls pkey u"
proof (induction ls)
  case Nil
  then show ?case by (simp add: listed_as_def)
next
  case (Cons l ls)
  have step: "listed_as (l # ls) pkey u \<longleftrightarrow> line_lists l u \<and> u_PubkeyRaw u = b64_encode pkey \<or>
      (l = [] \<or> (\<exists>v. line_lists l v \<and> u_PubkeyRaw v \<noteq> b64_encode pkey)) \<and> listed_as ls pkey u"
    unfolding listed_as_def
    using first_such_Cons [of l ls "\<lambda>x. line_lists x u \<and> u_PubkeyRaw u = b64_encode pkey"
        "\<lambda>m. m = [] \<or> (\<exists>v. line_lists m v \<and> u_PubkeyRaw v \<noteq> b64_encode pkey)"]
    by (simp only: conj_assoc)
  show ?case
  proof (cases "parseCertAuthorizedLine l")
    case (Inl e)
    then have "\<not> line_lists l v" for v by (metis line_lists_iff sum.distinct(1))
    with Inl step Cons.IH show ?thesis by simp
  next
    case (Inr row)
    then have "line_lists l v \<longleftrightarrow> v = row" for v by (metis line_lists_iff sum.inject(2))
    with Inr step Cons.IH not_line_lists_empty show ?thesis by auto
  qed
qed

lemma auth_result_iff: "auth_result pkey d = Inr u \<longleftrightarrow> listed_as (fst (Scan d)) pkey u"
  unfolding auth_scan_iff [symmetric] auth_result_def by (auto split: prod.splits option.splits)

text \<open>
  C24. Who may talk to the daemon. In open mode, and for the enrolment path in any mode, every
  request is let through without a user. In certificate mode any other request is let through
  exactly if it comes with a certificate, its public key can be encoded, the file opens, and among the lines
  scanned from it the first one that lists this key comes before any line that is neither empty nor the entry
  of a user; the user is that line's. In an unknown mode none is let through.
\<close>

theorem check_authorized_iff:
  "(\<exists>t'. checkAuthorized h c path tls t = (Ok r, t')) \<longleftrightarrow>
     (if c_Mode c = ''open'' \<or> path = ''/enroll'' then r = None
      else c_Mode c = ''certs-file'' \<and>
        (\<exists>crt rest pkey u. tls = Some (crt # rest) \<and> cert_PublicKey crt = Inr pkey \<and> r = Some u \<and>
           h_err h t (Fs (OpenRead (c_CertsFile c))) = None \<and>
           (let t1 = t @ [(Fs (OpenRead (c_CertsFile c)), None)]; f = Fs (FRead (c_CertsFile c))
            in listed_as (fst (Scan (h_str h t1 f, h_err h t1 f))) pkey u)))"
proof -
  have c: "(\<exists>t'. checkCertificateAuthorized h c crt t = (Ok u, t')) \<longleftrightarrow>
      (\<exists>pkey. cert_PublicKey crt = Inr pkey \<and> h_err h t (Fs (OpenRead (c_CertsFile c))) = None \<and>
        auth_result pkey (h_str h (t @ [(Fs (OpenRead (c_CertsFile c)), None)]) (Fs (FRead (c_CertsFile c))),
          h_err h (t @ [(Fs (OpenRead (c_CertsFile c)), None)]) (Fs (FRead (c_CertsFile c)))) = Inr u)" for crt u
    unfolding checkCertificateAuthorized_def
    by (auto simp: io_ok lift_result_ok defer_ok read_io_def Let_def)
  show ?thesis unfolding auth_result_iff [symmetric]
    by (auto simp: checkAuthorized_def AuthModeOpen_def AuthModeCertfile_def io_ok Let_def
        dest: iffD1 [OF c, OF exI] split: option.splits list.splits) (use c in blast)
qed

text \<open>
  A long name locks everybody out that comes later. If the line of an enrolment reaches the
  scanner's limit, then on the extended file no key that was not authorised before it can be
  checked any more: the check fails with the scanner's error, and so it does for every key enrolled
  after it.
\<close>

theorem long_enrolment_locks_out:
  assumes "65536 < length (enroll_line name role now pkey)" and "auth_result k (old, None) = Inl errNotAuthorized"
  shows "auth_result k (old @ enroll_line name role now pkey @ later, None) =
     Inl (ErrSentinel ''bufio.Scanner: token too long'')"
proof -
  obtain l where d: "enroll_line name role now pkey = CHR 0x0A # l" "CHR 0x0A \<notin> set l"
    using enroll_no_newline [of name role now pkey] by (simp add: enroll_line_def)
  obtain x ys where s: "Split (l @ later) (CHR 0x0A) = (l @ x) # ys"
    using Split_prefix [OF d(2)] by blast
  have sp: "Split (old @ enroll_line name role now pkey @ later) (CHR 0x0A) = Split old (CHR 0x0A) @ (l @ x) # ys"
    unfolding d(1) by (simp add: Split_append_slash s del: Split.simps)
  have long: "scan_limit \<le> length (l @ x)" using assms(1) d(1) by (simp add: scan_limit_def)
  note n = not_authorized_cases [OF assms(2)]
  have a: "list_all (\<lambda>l. length l < scan_limit) (Split old (CHR 0x0A))"
    using n scan_split_long [of "Split old (CHR 0x0A)" "[]"] by (fastforce simp: Scan_def)
  obtain t1 where t1: "scan_split (Split old (CHR 0x0A)) = (t1, None)"
      "filter (\<lambda>l. l \<noteq> []) t1 = filter (\<lambda>l. l \<noteq> []) (map drop_cr (Split old (CHR 0x0A)))"
      using scan_split_ok [OF a] by blast
  have "scan_split (Split old (CHR 0x0A) @ (l @ x) # ys) =
      (map drop_cr (Split old (CHR 0x0A)), Some (ErrSentinel ''bufio.Scanner: token too long''))"
    by (rule scan_split_stop [OF a long])
  moreover have "auth_scan (b64_encode k) (map drop_cr (Split old (CHR 0x0A))) = None"
    using n t1 auth_scan_filter [of "b64_encode k" t1] auth_scan_filter [of "b64_encode k" "map drop_cr (Split old (CHR 0x0A))"]
    by (simp add: Scan_def)
  ultimately show ?thesis by (simp add: auth_result_def Scan_def sp)
qed

definition ex_cert :: cert where
  "ex_cert = \<lparr>cert_Raw = [7], cert_PublicKey = Inr [1, 2, 3]\<rparr>"

theorem enroll_adds_exactly_one_user_witness:
  "\<exists>d u. (Fs (FWrite ''certs'' d), None) \<in> set (snd (enrollCertificate calm ''bob smith'' ''root'' (ex_config\<lparr>c_CertsFile := ''certs''\<rparr>) (Some [ex_cert]) [])) \<and>
     u_Name u = ''bobsmith'' \<and> GetRole u = ''root'' \<and> auth_result [1, 2, 3] (d, None) = Inr u \<and> auth_result [4] (d, None) = Inl errNotAuthorized"
proof -
  let ?c = "ex_config\<lparr>c_CertsFile := ''certs''\<rparr>"
  let ?r = "enrollCertificate calm ''bob smith'' ''root'' ?c (Some [ex_cert]) []"
  have r: "?r = (Ok (), snd ?r)"
    by (simp add: enrollCertificate_def ex_cert_def io_defs lift_result_def calm_def)
  have now: "Unix (h_int calm ([] @ [(Fs (OpenAppend (c_CertsFile ?c)), None)]) (Proc Now)) = 0" by (simp add: calm_def Unix_def)
  have "length (enroll_line ''bob smith'' ''root'' 0 [1, 2, 3]) \<le> 65536" by code_simp
  then have len: "\<And>pkey. cert_PublicKey ex_cert = Inr pkey \<Longrightarrow> length (enroll_line ''bob smith'' ''root'' 0 pkey) \<le> 65536"
    by (simp add: ex_cert_def)
  have e: "auth_result k ([], None) = Inl errNotAuthorized" for k
    by (simp add: auth_result_def Scan_def scan_limit_def)
  have s: "sanitize ''root'' = ''root''" "ascii ''root''" by code_simp+
  from enroll_adds_exactly_one_user [OF r now _ _ len] obtain pkey d u where
    p: "cert_PublicKey ex_cert = Inr pkey" and t: "(Fs (FWrite ''certs'' d), None) \<in> set (snd ?r)"
    and u: "u_Name u = filter (\<lambda>x. x \<noteq> CHR 0x0A \<and> x \<noteq> CHR '' '') ''bob smith''" "GetRole u = ''root''"
    and a: "\<And>old k. auth_result k (old @ d, None) =
       (if k = pkey \<and> auth_result k (old, None) = Inl errNotAuthorized then Inr u else auth_result k (old, None))"
    using s by auto
  have "pkey = [1, 2, 3]" using p by (simp add: ex_cert_def)
  then show ?thesis using t u a [of _ "[]"] e by (intro exI [of _ d] exI [of _ u]) simp
qed

theorem long_enrolment_locks_out_witness:
  "auth_result [4] (enroll_line (replicate 70000 CHR ''a'') [] 1 [1] @ enroll_line ''bob'' [] 2 [4], None) =
     Inl (ErrSentinel ''bufio.Scanner: token too long'')"
proof -
  have "65536 < length (enroll_line (replicate 70000 CHR ''a'') [] 1 [1])"
    by (simp add: enroll_line_def sanitize_eq)
  moreover have "auth_result [4] ([], None) = Inl errNotAuthorized" by (simp add: auth_result_def Scan_def scan_limit_def)
  ultimately show ?thesis using long_enrolment_locks_out [of "replicate 70000 CHR ''a''" "[]" 1 "[1]" "[4]" "[]"] by simp
qed

end
