(* ===== verification/Metadata.thy ===== *)
theory Metadata
  imports Silo SiloConf Auth "HOL-Library.Multiset"
begin

text \<open>
  The metadata service (\<open>colexd/metadata_service.go\<close>): what it knows of the running silos, the events by
  which the daemon keeps it informed, and its two protocols, DNS and HTTP, which silos reach on the
  address of their bridge. A silo is shared between the service, the daemon and the goroutine that
  awaits it, so it is a pointer: an index into the store of silos.
\<close>

section \<open>Data\<close>

definition metadataPort :: int where "metadataPort = 17832"

datatype metadataEventType = eventSiloStarted | eventSiloStopped | otherEvent int

record metadataEvent =
  ev_event :: metadataEventType
  ev_Name :: string
  ev_ID :: string
  ev_tags :: "string list"
  ev_interfaces :: "Interface list"
  ev_silo :: nat

text \<open>A listener is the address it listens on.\<close>

record metadataSiloInfo =
  mi_Name :: string
  mi_ID :: string
  mi_Tags :: "string list"
  mi_Started :: int
  mi_Interfaces :: "Interface list"
  mi_BridgeIP :: string
  mi_silo :: nat
  mi_listeners :: "string list"

text \<open>
  \<open>md_listening\<close> are the listeners whose goroutine has not been told to close them (those in \<open>wg\<close>).
  The field \<open>dnsMap\<close> is the map of the daemon's configuration itself, not a copy of it: the operations
  that read it are given it.
\<close>

record metadataService =
  md_isClosing :: bool
  silosByName :: "(string, metadataSiloInfo) gomap"
  silosByID :: "(string, metadataSiloInfo) gomap"
  md_listening :: "string list"

definition newMetadataService :: metadataService where
  "newMetadataService = \<lparr>md_isClosing = False, silosByName = [], silosByID = [], md_listening = []\<rparr>"

section \<open>Interfaces\<close>

text \<open>
  \<open>describeInterfaces\<close> of the daemon. A link that is not found has no statistics; one that is found and
  has none is a nil pointer.
\<close>

definition link_stats :: "host \<Rightarrow> string \<Rightarrow> LinkStatistics64 io" where
  "link_stats h name t =
     (let c = Net (LinkByName name) in
      case h_err h t c of
        Some e \<Rightarrow> (Ok zero_stats, t @ [(c, Some e)])
      | None \<Rightarrow> (case h_stats h t c of
            Some s \<Rightarrow> (Ok s, t @ [(c, None)])
          | None \<Rightarrow> (Crash ''nil pointer dereference'', t @ [(c, None)])))"

definition describe_device :: "host \<Rightarrow> bool \<Rightarrow> InterfaceInfo \<Rightarrow> Interface io" where
  "describe_device h includeStats d =
     bind_io (if includeStats then link_stats h (info_Name d) else ret zero_stats) (\<lambda>stats.
       ret \<lparr>wi_Name = info_Name d, wi_Address = info_Address d, wi_Kind = info_Kind d, wi_Stats = stats\<rparr>)"

definition describeInterfaces :: "host \<Rightarrow> Silo \<Rightarrow> bool \<Rightarrow> Interface list io" where
  "describeInterfaces h s includeStats =
     map_io (describe_device h includeStats) (concat (map Info (s_Interfaces s)))"

fun find_kind :: "string \<Rightarrow> Interface list \<Rightarrow> string" where
  "find_kind kind [] = []"
| "find_kind kind (i # is) = (if wi_Kind i = kind then wi_Address i else find_kind kind is)"

definition findBridgeAddress :: "Interface list \<Rightarrow> string" where
  "findBridgeAddress = find_kind ''bridge''"

definition findRouteableAddress :: "Interface list \<Rightarrow> string" where
  "findRouteableAddress = find_kind ''silo-veth''"

section \<open>Events\<close>

text \<open>
  Each listener is a resolved address with a socket, and a goroutine that closes the socket when it is
  told to. Resolving and listening are one call to the host: both return an error that ends the setup.
  Stopping hands the goroutine the signal and waits until it has closed the socket.
\<close>

definition setupListener :: "host \<Rightarrow> metadataSiloInfo \<Rightarrow> metadataSiloInfo io" where
  "setupListener h silo =
     (if mi_BridgeIP silo = [] then ret silo
      else let laddr = mi_BridgeIP silo @ '':'' @ FormatInt metadataPort in
        then_io (do_call h (Net (ListenTCP laddr)))
                (ret (silo\<lparr>mi_listeners := mi_listeners silo @ [laddr]\<rparr>)))"

definition setupUDPDNS :: "host \<Rightarrow> metadataSiloInfo \<Rightarrow> metadataSiloInfo io" where
  "setupUDPDNS h silo =
     (if mi_BridgeIP silo = [] then ret silo
      else let laddr = mi_BridgeIP silo @ '':53'' in
        then_io (do_call h (Net (ListenUDP laddr)))
                (ret (silo\<lparr>mi_listeners := mi_listeners silo @ [laddr]\<rparr>)))"

definition waitForCloseSignal :: "host \<Rightarrow> string \<Rightarrow> unit io" where
  "waitForCloseSignal h l = ignore_io (do_call h (Net (CloseListener l)))"

definition silo_started :: "host \<Rightarrow> metadataEvent \<Rightarrow> metadataSiloInfo io" where
  "silo_started h e t =
     (let siloInfo =
        \<lparr>mi_Name = ev_Name e, mi_ID = ev_ID e, mi_Tags = ev_tags e, mi_Started = h_int h t (Proc Now),
         mi_Interfaces = ev_interfaces e, mi_BridgeIP = findBridgeAddress (ev_interfaces e), mi_silo = ev_silo e,
         mi_listeners = []\<rparr>
      in bind_io (catch_io (setupListener h siloInfo) (\<lambda>_. ret siloInfo)) (\<lambda>silo1.
           catch_io (setupUDPDNS h silo1) (\<lambda>_. ret silo1)) t)"

text \<open>
  \<open>HostEvent\<close>. Both maps hold a pointer to the same record, which is complete by the time the lock is
  released.
\<close>

definition md_started :: "metadataSiloInfo \<Rightarrow> metadataService \<Rightarrow> metadataService" where
  "md_started siloInfo s =
     s\<lparr>silosByName := go_insert (mi_Name siloInfo) siloInfo (silosByName s),
       silosByID := go_insert (mi_ID siloInfo) siloInfo (silosByID s),
       md_listening := md_listening s @ mi_listeners siloInfo\<rparr>"

definition stop_listeners :: "metadataService \<Rightarrow> string \<Rightarrow> string list" where
  "stop_listeners s siloID =
     (case go_lookup (silosByID s) siloID of Some silo \<Rightarrow> mi_listeners silo | None \<Rightarrow> [])"

definition md_stopped :: "string \<Rightarrow> string \<Rightarrow> metadataService \<Rightarrow> metadataService" where
  "md_stopped name siloID s =
     s\<lparr>silosByName := go_delete name (silosByName s),
       silosByID := go_delete siloID (silosByID s),
       md_listening := filter (\<lambda>l. l \<notin> set (stop_listeners s siloID)) (md_listening s)\<rparr>"

definition HostEvent :: "host \<Rightarrow> metadataEvent \<Rightarrow> metadataService \<Rightarrow> trace \<Rightarrow> metadataService \<times> trace" where
  "HostEvent h e s t =
     (if md_isClosing s then (s, t)
      else case ev_event e of
        eventSiloStarted \<Rightarrow>
          (case silo_started h e t of
             (Ok siloInfo, t1) \<Rightarrow> (md_started siloInfo s, t1)
           | (_, t1) \<Rightarrow> (s, t1))
      | eventSiloStopped \<Rightarrow>
          (md_stopped (ev_Name e) (ev_ID e) s,
           snd (each_io (waitForCloseSignal h) (stop_listeners s (ev_ID e)) t))
      | otherEvent k \<Rightarrow> (s, t))"

text \<open>
  \<open>Close\<close>: closing the channel makes every listener's goroutine close its socket, and \<open>wg.Wait\<close> waits for them.
  Closing the channel a second time panics.
\<close>

definition md_Close :: "host \<Rightarrow> metadataService \<Rightarrow> trace \<Rightarrow> unit res \<times> metadataService \<times> trace" where
  "md_Close h s t =
     (if md_isClosing s then (Crash ''close of closed channel'', s, t)
      else (Ok (), s\<lparr>md_isClosing := True, md_listening := []\<rparr>,
            snd (each_io (waitForCloseSignal h) (md_listening s) t)))"

section \<open>Whose address\<close>

fun LastIndexByte :: "string \<Rightarrow> char \<Rightarrow> nat option" where
  "LastIndexByte [] c = None"
| "LastIndexByte (x # xs) c =
     (case LastIndexByte xs c of Some i \<Rightarrow> Some (Suc i) | None \<Rightarrow> if x = c then Some 0 else None)"

text \<open>\<open>net.SplitHostPort\<close>: the host and the port, or an error, with which both are empty.\<close>

definition SplitHostPort :: "string \<Rightarrow> (string \<times> string) result" where
  "SplitHostPort hostport =
     (let bad = (\<lambda>why. Inl (ErrNew (why @ '' in address'')));
          finish = (\<lambda>hst i j k.
            if CHR ''['' \<in> set (drop j hostport) then bad ''unexpected opening bracket''
            else if CHR '']'' \<in> set (drop k hostport) then bad ''unexpected closing bracket''
            else Inr (hst, drop (Suc i) hostport))
      in case LastIndexByte hostport (CHR '':'') of
           None \<Rightarrow> bad ''missing port''
         | Some i \<Rightarrow>
           if hd hostport = CHR ''['' then
             (case IndexByte hostport (CHR '']'') of
                None \<Rightarrow> bad ''missing closing bracket''
              | Some e \<Rightarrow>
                if Suc e = length hostport then bad ''missing port''
                else if Suc e = i then finish (take (e - 1) (tl hostport)) i 1 (Suc e)
                else if hostport ! Suc e = CHR '':'' then bad ''too many colons'' else bad ''missing port'')
           else if CHR '':'' \<in> set (take i hostport) then bad ''too many colons''
           else finish (take i hostport) i 0 0)"

text \<open>The error of \<open>SplitHostPort\<close> is dropped. The maps are visited in the order of their lists.\<close>

definition host_part :: "string \<Rightarrow> string" where
  "host_part addr =
     (if CHR '':'' \<in> set addr then (case SplitHostPort addr of Inr (hst, _) \<Rightarrow> hst | Inl _ \<Rightarrow> []) else addr)"

definition has_address :: "string \<Rightarrow> metadataSiloInfo \<Rightarrow> bool" where
  "has_address addr silo \<longleftrightarrow> list_ex (\<lambda>intf. wi_Address intf = addr \<and> wi_Kind intf = ''silo-veth'') (mi_Interfaces silo)"

fun find_id :: "string \<Rightarrow> (string, metadataSiloInfo) gomap \<Rightarrow> string" where
  "find_id addr [] = []"
| "find_id addr ((k, silo) # m) = (if has_address addr silo then k else find_id addr m)"

definition findSiloIDForIP :: "metadataService \<Rightarrow> string \<Rightarrow> string" where
  "findSiloIDForIP s addr = find_id (host_part addr) (silosByID s)"

section \<open>DNS\<close>

text \<open>An answer: the name, and the address as \<open>net.ParseIP\<close> returns it (nil if it is none).\<close>

type_synonym answer = "string \<times> ip"

text \<open>\<open>s.silosByID[siloID]\<close>, of which a field is read: nil if there is none.\<close>

definition by_id :: "metadataService \<Rightarrow> string \<Rightarrow> metadataSiloInfo res" where
  "by_id s siloID =
     (case go_lookup (silosByID s) siloID of Some silo \<Rightarrow> Ok silo | None \<Rightarrow> Crash ''nil pointer dereference'')"

fun map_res :: "('a \<Rightarrow> 'b) \<Rightarrow> 'a res \<Rightarrow> 'b res" where
  "map_res f (Ok x) = Ok (f x)"
| "map_res f (Err e) = Err e"
| "map_res f (Crash s) = Crash s"

text \<open>
  The \<open>switch\<close> in the loop over the questions: \<open>None\<close> is \<open>continue\<close>, answers go on to the names of the
  configuration.
\<close>

definition dns_special :: "metadataService \<Rightarrow> string \<Rightarrow> string \<Rightarrow> answer list option res" where
  "dns_special s remote q =
     (let siloID = findSiloIDForIP s remote in
      if q = ''self.'' then
        (if siloID = [] then Ok None
         else map_res (\<lambda>silo. Some [(q, ParseIP (findRouteableAddress (mi_Interfaces silo)))]) (by_id s siloID))
      else if q \<in> {''host.'', ''metadata.'', ''bridge.'', ''colex.''} then
        (if siloID = [] then Ok None
         else map_res (\<lambda>silo. Some [(q, ParseIP (mi_BridgeIP silo))]) (by_id s siloID))
      else Ok (Some []))"

definition dns_hostnames :: "(string, string) gomap option \<Rightarrow> string \<Rightarrow> answer list" where
  "dns_hostnames dnsMap q =
     (case dnsMap of
        None \<Rightarrow> []
      | Some m \<Rightarrow> (case go_lookup m (TrimSuffix q ''.'') of Some a \<Rightarrow> [(q, ParseIP a)] | None \<Rightarrow> []))"

definition dns_question ::
  "metadataService \<Rightarrow> (string, string) gomap option \<Rightarrow> string \<Rightarrow> string \<Rightarrow> answer list res" where
  "dns_question s dnsMap remote q =
     (let rest = map_res (\<lambda>r. case r of None \<Rightarrow> [] | Some as \<Rightarrow> as @ dns_hostnames dnsMap q) (dns_special s remote q)
      in if HasSuffix q ''.silo.'' then
           (case go_lookup (silosByName s) (TrimSuffix q ''.silo.'') of
              Some silo \<Rightarrow>
                if findRouteableAddress (mi_Interfaces silo) \<noteq> []
                then Ok [(q, ParseIP (findRouteableAddress (mi_Interfaces silo)))] else rest
            | None \<Rightarrow> rest)
         else rest)"

fun dns_loop ::
  "metadataService \<Rightarrow> (string, string) gomap option \<Rightarrow> string \<Rightarrow> answer list \<Rightarrow> string list \<Rightarrow> answer list res" where
  "dns_loop s dnsMap remote acc [] = Ok acc"
| "dns_loop s dnsMap remote acc (q # qs) =
     (case dns_question s dnsMap remote q of
        Ok as \<Rightarrow> dns_loop s dnsMap remote (acc @ as) qs
      | Err e \<Rightarrow> Err e
      | Crash x \<Rightarrow> Crash x)"

text \<open>\<open>ServeDNS\<close>: no message at all once the service is closing, else a reply with the answers.\<close>

definition ServeDNS ::
  "metadataService \<Rightarrow> (string, string) gomap option \<Rightarrow> string \<Rightarrow> string list \<Rightarrow> answer list option res" where
  "ServeDNS s dnsMap remote questions =
     (if md_isClosing s then Ok None else map_res Some (dns_loop s dnsMap remote [] questions))"

section \<open>HTTP\<close>

text \<open>
  What a handler does to its \<open>http.ResponseWriter\<close>, in order. Objects are encoded as they are written,
  with \<open>encoding/json\<close> by the metadata service and with \<open>encoding/gob\<close> by the daemon; an error of
  the encoder is only logged.
\<close>

datatype list_value =
    RunTime int
  | TagList "string list"
  | Text string

datatype json_object =
    InfoObject metadataSiloInfo
  | StatObject SiloStat
  | ListObject "(string \<times> list_value) list"
  | InterfacesObject "Interface list"

datatype wevent =
    WriteHeader nat
  | WriteText string
  | WriteError gerr
  | WriteJSON json_object
  | WriteUp UpPacketResponse
  | WriteList ListPacket
  | WriteEnableEnroll EnableEnrollResponse

type_synonym response = "wevent list"

record request =
  rq_Path :: string
  rq_Query :: "(string \<times> string) list"
  rq_RemoteAddr :: string
  rq_TLS :: "cert list option"
  rq_Up :: "UpPacket result"
  rq_Down :: "DownPacket result"
  rq_List :: "unit result"
  rq_SetHost :: "SetHostRequest result"

text \<open>\<open>http.Error\<close>, which ends the text with a newline, and the daemon's \<open>httpErr\<close>; \<open>URL.Query().Get\<close>: the first value, or the empty string.\<close>

definition httpErr :: "nat \<Rightarrow> string \<Rightarrow> response" where
  "httpErr code msg = [WriteHeader code, WriteText msg]"

definition http_Error :: "string \<Rightarrow> nat \<Rightarrow> response" where
  "http_Error msg code = [WriteHeader code, WriteText (msg @ [CHR 0x0A])]"

definition writeObject :: "json_object \<Rightarrow> response" where
  "writeObject obj = [WriteJSON obj]"

definition query_get :: "request \<Rightarrow> string \<Rightarrow> string" where
  "query_get req k = (case map_of (rq_Query req) k of Some v \<Rightarrow> v | None \<Rightarrow> [])"

text \<open>\<open>time.Time.Sub\<close> saturates.\<close>

definition time_Sub :: "int \<Rightarrow> int \<Rightarrow> int" where
  "time_Sub a b = max (- (2 ^ 63)) (min (2 ^ 63 - 1) (a - b))"

definition list_entry :: "int \<Rightarrow> string \<Rightarrow> metadataSiloInfo \<Rightarrow> list_value" where
  "list_entry now w silo =
     (if w = ''run-seconds'' then RunTime (time_Sub now (mi_Started silo))
      else if w = ''tags'' then TagList (mi_Tags silo)
      else if w = ''bridge-address'' then Text (mi_BridgeIP silo)
      else if w = ''routeable-address'' then Text (findRouteableAddress (mi_Interfaces silo))
      else Text (mi_ID silo))"

definition metadataListHandler :: "host \<Rightarrow> metadataService \<Rightarrow> request \<Rightarrow> response io" where
  "metadataListHandler h s req t =
     (Ok (writeObject (ListObject (map (\<lambda>(name, silo). (name, list_entry (h_int h t (Proc Now)) (query_get req ''with'') silo))
            (silosByName s)))), t)"

text \<open>
  \<open>metadataSiloQueryHandler\<close>. Without a second slash the index is \<open>-1\<close> and the slice expression panics.
\<close>

definition metadataSiloQueryHandler :: "host \<Rightarrow> Silo list \<Rightarrow> metadataService \<Rightarrow> request \<Rightarrow> response io" where
  "metadataSiloQueryHandler h heap s req =
     (let rest = drop (length ''/silo/'') (rq_Path req) in
      case IndexByte rest (CHR ''/'') of
        None \<Rightarrow> crash ''slice bounds out of range''
      | Some i \<Rightarrow>
        (case go_lookup (silosByID s) (take i rest) of
           None \<Rightarrow> ret (http_Error ''No silo with that ID'' 404)
         | Some silo \<Rightarrow>
           (let detail = drop (Suc i) rest in
            if detail = ''meta'' then ret (writeObject (InfoObject silo))
            else if detail = ''netstats'' then
              bind_io (describeInterfaces h (heap ! mi_silo silo) True) (\<lambda>out. ret (writeObject (InterfacesObject out)))
            else ret (http_Error (''Unknown detail '' @ detail) 400))))"

definition md_ServeHTTP :: "host \<Rightarrow> Silo list \<Rightarrow> metadataService \<Rightarrow> request \<Rightarrow> response io" where
  "md_ServeHTTP h heap s req =
     (if md_isClosing s then ret (http_Error ''Shutdown in progress'' 500)
      else let siloID = findSiloIDForIP s (rq_RemoteAddr req); path = rq_Path req in
      if siloID = [] then ret (http_Error ''Unauthorized'' 403)
      else if path = ''/self'' then
        (case by_id s siloID of Ok silo \<Rightarrow> ret (writeObject (InfoObject silo)) | Err e \<Rightarrow> fail e | Crash x \<Rightarrow> crash x)
      else if path = ''/stats'' then
        (case by_id s siloID of
           Ok silo \<Rightarrow> catch_io
             (bind_io (MemStats h (heap ! mi_silo silo)) (\<lambda>mem. ret (writeObject (StatObject \<lparr>st_Mem = mem\<rparr>))))
             (\<lambda>e. ret (http_Error ''Internal server error'' 500))
         | Err e \<Rightarrow> fail e | Crash x \<Rightarrow> crash x)
      else if path = ''/list'' then metadataListHandler h s req
      else if HasPrefix path ''/silo/'' then
        (case by_id s siloID of
           Ok silo \<Rightarrow>
             if go_lookup (s_Grant (heap ! mi_silo silo)) ''query_silos'' = Some True
             then metadataSiloQueryHandler h heap s req
             else ret (http_Error (CHR 0x27 # ''query_silos'' @ CHR 0x27 # '' grant required'') 403)
         | Err e \<Rightarrow> fail e | Crash x \<Rightarrow> crash x)
      else ret [])"


section \<open>Facts\<close>

subsection \<open>Interfaces\<close>

text \<open>Without statistics, describing the interfaces makes no call.\<close>

definition plain_interface :: "InterfaceInfo \<Rightarrow> Interface" where
  "plain_interface d = \<lparr>wi_Name = info_Name d, wi_Address = info_Address d, wi_Kind = info_Kind d, wi_Stats = zero_stats\<rparr>"

lemma map_io_ret: "map_io (\<lambda>x. ret (f x)) xs = ret (map f xs)"
  by (induction xs) (auto simp: bind_io_def ret_def fun_eq_iff)

lemma describeInterfaces_plain:
  "describeInterfaces h s False = ret (map plain_interface (concat (map Info (s_Interfaces s))))"
proof -
  have "describe_device h False = (\<lambda>d. ret (plain_interface d))"
    by (simp add: describe_device_def plain_interface_def bind_io_def ret_def fun_eq_iff)
  then show ?thesis by (simp add: describeInterfaces_def map_io_ret)
qed

subsection \<open>Events\<close>

lemma setup_listener_outcome:
  "\<exists>ls t'. catch_io (setupListener h i) (\<lambda>_. ret i) t = (Ok (i\<lparr>mi_listeners := mi_listeners i @ ls\<rparr>), t') \<and>
     set ls \<subseteq> {mi_BridgeIP i @ '':'' @ FormatInt metadataPort}"
  "\<exists>ls t'. catch_io (setupUDPDNS h i) (\<lambda>_. ret i) t = (Ok (i\<lparr>mi_listeners := mi_listeners i @ ls\<rparr>), t') \<and>
     set ls \<subseteq> {mi_BridgeIP i @ '':53''}"
  by (cases "mi_BridgeIP i = []";
      cases "h_err h t (Net (ListenTCP (mi_BridgeIP i @ '':'' @ FormatInt metadataPort)))";
      auto simp: setupListener_def io_defs Let_def intro: exI [of _ "[]"])
     (cases "mi_BridgeIP i = []"; cases "h_err h t (Net (ListenUDP (mi_BridgeIP i @ '':53'')))";
      auto simp: setupUDPDNS_def io_defs Let_def intro: exI [of _ "[]"])

lemma silo_started_ok:
  obtains ls t' where "silo_started h e t =
    (Ok \<lparr>mi_Name = ev_Name e, mi_ID = ev_ID e, mi_Tags = ev_tags e, mi_Started = h_int h t (Proc Now),
         mi_Interfaces = ev_interfaces e, mi_BridgeIP = findBridgeAddress (ev_interfaces e), mi_silo = ev_silo e,
         mi_listeners = ls\<rparr>, t')"
    "set ls \<subseteq> {findBridgeAddress (ev_interfaces e) @ '':'' @ FormatInt metadataPort, findBridgeAddress (ev_interfaces e) @ '':53''}"
proof -
  let ?i = "\<lparr>mi_Name = ev_Name e, mi_ID = ev_ID e, mi_Tags = ev_tags e, mi_Started = h_int h t (Proc Now),
         mi_Interfaces = ev_interfaces e, mi_BridgeIP = findBridgeAddress (ev_interfaces e), mi_silo = ev_silo e,
         mi_listeners = []\<rparr>"
  obtain l1 t1 where 1: "catch_io (setupListener h ?i) (\<lambda>_. ret ?i) t = (Ok (?i\<lparr>mi_listeners := l1\<rparr>), t1)"
    "set l1 \<subseteq> {findBridgeAddress (ev_interfaces e) @ '':'' @ FormatInt metadataPort}"
    using setup_listener_outcome(1) [of h ?i t] by auto
  obtain l2 t2 where 2: "catch_io (setupUDPDNS h (?i\<lparr>mi_listeners := l1\<rparr>)) (\<lambda>_. ret (?i\<lparr>mi_listeners := l1\<rparr>)) t1 =
      (Ok (?i\<lparr>mi_listeners := l1 @ l2\<rparr>), t2)"
    "set l2 \<subseteq> {findBridgeAddress (ev_interfaces e) @ '':53''}"
    using setup_listener_outcome(2) [of h "?i\<lparr>mi_listeners := l1\<rparr>" t1] by auto
  show thesis
    by (rule that [of "l1 @ l2" t2]) (use 1 2 in \<open>auto simp: silo_started_def Let_def bind_io_def\<close>)
qed

lemma HostEvent_started:
  assumes "ev_event e = eventSiloStarted" "\<not> md_isClosing s"
  obtains i t' where "HostEvent h e s t = (md_started i s, t')" "mi_Name i = ev_Name e" "mi_ID i = ev_ID e"
    "mi_silo i = ev_silo e" "mi_Interfaces i = ev_interfaces e" "mi_Tags i = ev_tags e"
    "mi_BridgeIP i = findBridgeAddress (ev_interfaces e)"
  by (rule silo_started_ok [of h e t]) (auto simp: HostEvent_def assms)

lemma HostEvent_stopped:
  "ev_event e = eventSiloStopped \<Longrightarrow> \<not> md_isClosing s \<Longrightarrow>
     fst (HostEvent h e s t) = md_stopped (ev_Name e) (ev_ID e) s"
  by (simp add: HostEvent_def)

lemma HostEvent_closing: "md_isClosing s \<Longrightarrow> HostEvent h e s t = (s, t)"
  by (simp add: HostEvent_def)

lemma HostEvent_keeps_closing: "md_isClosing (fst (HostEvent h e s t)) = md_isClosing s"
  by (auto simp: HostEvent_def md_started_def md_stopped_def split: metadataEventType.splits prod.splits res.splits)

subsection \<open>The directory of silos\<close>

text \<open>
  What the daemon relies on: a directory that lists silos by name and by ID, where what is found by ID
  is what is listed under its name. Starting a silo under a free name adds it; stopping one, by its
  name and its ID, removes exactly that name. IDs are random and may clash: a name may be listed without
  being found by its ID, but never the other way round.
\<close>

locale directory =
  fixes by_name by_ident :: "'s \<Rightarrow> string \<Rightarrow> 'i option"
    and name_of ident_of :: "'i \<Rightarrow> string"
    and inv :: "'s \<Rightarrow> bool"
    and started :: "'i \<Rightarrow> 's \<Rightarrow> 's"
    and stopped :: "string \<Rightarrow> string \<Rightarrow> 's \<Rightarrow> 's"
  assumes name_key: "inv s \<Longrightarrow> by_name s n = Some i \<Longrightarrow> name_of i = n"
    and ident_key: "inv s \<Longrightarrow> by_ident s k = Some i \<Longrightarrow> ident_of i = k"
    and ident_listed: "inv s \<Longrightarrow> by_ident s k = Some i \<Longrightarrow> by_name s (name_of i) = Some i"
    and inv_started: "inv s \<Longrightarrow> by_name s (name_of i) = None \<Longrightarrow> inv (started i s)"
    and by_name_started: "by_name (started i s) = (by_name s)(name_of i \<mapsto> i)"
    and by_ident_started: "by_ident (started i s) = (by_ident s)(ident_of i \<mapsto> i)"
    and inv_stopped: "inv s \<Longrightarrow> (\<And>i. by_name s n = Some i \<Longrightarrow> ident_of i = k) \<Longrightarrow> inv (stopped n k s)"
    and by_name_stopped: "by_name (stopped n k s) = (by_name s)(n := None)"
begin

lemma ident_unique: "inv s \<Longrightarrow> by_ident s k = Some i \<Longrightarrow> by_ident s k' = Some j \<Longrightarrow> name_of i = name_of j \<Longrightarrow> i = j \<and> k = k'"
  by (metis ident_key ident_listed option.inject)

text \<open>
  A client that keeps a table of its own, enters a silo there when it starts it and under a name that
  is free there, and reports every stop with the ID it has on record, is never told of a silo it does
  not have.
\<close>

lemma listed_started:
  assumes "inv s" "\<And>n i. by_name s n = Some i \<Longrightarrow> tab n = Some (r i)" "tab (name_of i) = None"
  shows "inv (started i s) \<and> (\<forall>n j. by_name (started i s) n = Some j \<longrightarrow> (tab(name_of i \<mapsto> r i)) n = Some (r j))"
proof -
  have "by_name s (name_of i) = None" using assms(2,3) by (cases "by_name s (name_of i)") auto
  with assms show ?thesis by (auto simp: inv_started by_name_started)
qed

lemma listed_stopped:
  assumes "inv s" "\<And>n i. by_name s n = Some i \<Longrightarrow> tab n = Some (r i)"
    and "\<And>i. by_name s n = Some i \<Longrightarrow> ident_of i = k"
  shows "inv (stopped n k s) \<and> (\<forall>m j. by_name (stopped n k s) m = Some j \<longrightarrow> (tab(n := None)) m = Some (r j)) \<and>
     (\<forall>m j. by_name (stopped n k s) m = Some j \<longrightarrow> tab m = Some (r j))"
  using assms by (auto simp: inv_stopped by_name_stopped)

end

definition md_inv :: "metadataService \<Rightarrow> bool" where
  "md_inv s \<longleftrightarrow> wf_map (silosByName s) \<and> wf_map (silosByID s) \<and>
     (\<forall>(n, i) \<in> set (silosByName s). mi_Name i = n) \<and>
     (\<forall>(k, i) \<in> set (silosByID s). mi_ID i = k \<and> go_lookup (silosByName s) (mi_Name i) = Some i)"

lemma md_inv_name: "md_inv s \<Longrightarrow> go_lookup (silosByName s) n = Some i \<Longrightarrow> mi_Name i = n"
  unfolding md_inv_def using map_of_SomeD by fastforce

lemma md_inv_id:
  "md_inv s \<Longrightarrow> go_lookup (silosByID s) k = Some i \<Longrightarrow> mi_ID i = k \<and> go_lookup (silosByName s) (mi_Name i) = Some i"
  unfolding md_inv_def using map_of_SomeD by fastforce

lemma md_invI:
  assumes "wf_map (silosByName s)" "wf_map (silosByID s)"
    and "\<And>n i. go_lookup (silosByName s) n = Some i \<Longrightarrow> mi_Name i = n"
    and "\<And>k i. go_lookup (silosByID s) k = Some i \<Longrightarrow> mi_ID i = k \<and> go_lookup (silosByName s) (mi_Name i) = Some i"
  shows "md_inv s"
  using assms gm.entries_lookup [OF assms(1)] gm.entries_lookup [OF assms(2)] by (auto simp: md_inv_def)

interpretation dir: directory "\<lambda>s. go_lookup (silosByName s)" "\<lambda>s. go_lookup (silosByID s)" mi_Name mi_ID md_inv
  md_started md_stopped
proof unfold_locales
  fix s n i k
  show "md_inv s \<Longrightarrow> go_lookup (silosByName s) n = Some i \<Longrightarrow> mi_Name i = n" by (rule md_inv_name)
  show "md_inv s \<Longrightarrow> go_lookup (silosByID s) k = Some i \<Longrightarrow> mi_ID i = k" using md_inv_id by blast
  show "md_inv s \<Longrightarrow> go_lookup (silosByID s) k = Some i \<Longrightarrow> go_lookup (silosByName s) (mi_Name i) = Some i"
    using md_inv_id by blast
  show "go_lookup (silosByName (md_started i s)) = (go_lookup (silosByName s))(mi_Name i \<mapsto> i)"
    and "go_lookup (silosByID (md_started i s)) = (go_lookup (silosByID s))(mi_ID i \<mapsto> i)"
    and "go_lookup (silosByName (md_stopped n k s)) = (go_lookup (silosByName s))(n := None)"
    by (simp_all add: md_started_def md_stopped_def gm.lookup_insert gm.lookup_delete)
  assume inv: "md_inv s"
  then have wf: "wf_map (silosByName s)" "wf_map (silosByID s)" by (simp_all add: md_inv_def)
  show "go_lookup (silosByName s) (mi_Name i) = None \<Longrightarrow> md_inv (md_started i s)"
    using inv wf md_inv_name [OF inv] md_inv_id [OF inv]
    by (intro md_invI) (auto simp: md_started_def gm.wf_insert gm.lookup_insert split: if_splits, metis option.distinct(1))
  show "(\<And>j. go_lookup (silosByName s) n = Some j \<Longrightarrow> mi_ID j = k) \<Longrightarrow> md_inv (md_stopped n k s)"
    using inv wf md_inv_name [OF inv] md_inv_id [OF inv]
    by (intro md_invI) (auto simp: md_stopped_def gm.wf_delete gm.lookup_delete split: if_splits)
qed

lemma md_inv_new: "md_inv newMetadataService"
  by (simp add: md_inv_def newMetadataService_def)


subsection \<open>Whose address\<close>

lemma find_id_in: "find_id a m = k \<Longrightarrow> k \<noteq> [] \<Longrightarrow> \<exists>i. (k, i) \<in> set m \<and> has_address a i"
  by (induction m) (auto split: if_splits)

text \<open>No two silos of the map have an address in common.\<close>

definition one_owner :: "(string, metadataSiloInfo) gomap \<Rightarrow> bool" where
  "one_owner m \<longleftrightarrow> (\<forall>k i k' i' a. (k, i) \<in> set m \<longrightarrow> (k', i') \<in> set m \<longrightarrow> has_address a i \<longrightarrow> has_address a i' \<longrightarrow> k = k')"

lemma find_id_owner: "one_owner m \<Longrightarrow> (k, i) \<in> set m \<Longrightarrow> has_address a i \<Longrightarrow> find_id a m = k"
proof (induction m)
  case (Cons e m)
  obtain k0 i0 where e: "e = (k0, i0)" by fastforce
  have "one_owner m" using Cons.prems(1) unfolding one_owner_def by (metis list.set_intros(2))
  moreover have "has_address a i0 \<Longrightarrow> k0 = k"
    using Cons.prems unfolding e one_owner_def by (meson list.set_intros(1))
  ultimately show ?case using Cons.IH Cons.prems(2,3) unfolding e by auto
qed simp

lemma find_id_none: "(\<And>k i. (k, i) \<in> set m \<Longrightarrow> \<not> has_address a i) \<Longrightarrow> find_id a m = []"
  by (induction m) force+

lemma find_id_perm:
  assumes "set m' = set m" "one_owner m"
  shows "find_id a m' = find_id a m"
proof (cases "\<exists>k i. (k, i) \<in> set m \<and> has_address a i")
  case True
  then obtain k i where "(k, i) \<in> set m" "has_address a i" by blast
  moreover have "one_owner m'" using assms unfolding one_owner_def by simp
  ultimately show ?thesis using assms by (simp add: find_id_owner)
next
  case False
  then show ?thesis using assms find_id_none [of m a] find_id_none [of m' a] by auto
qed

lemma by_id_found: "findSiloIDForIP s addr = k \<Longrightarrow> k \<noteq> [] \<Longrightarrow> \<exists>i. by_id s k = Ok i \<and> go_lookup (silosByID s) k = Some i"
proof -
  assume "findSiloIDForIP s addr = k" "k \<noteq> []"
  then obtain i where "(k, i) \<in> set (silosByID s)" using find_id_in unfolding findSiloIDForIP_def by blast
  then obtain j where "go_lookup (silosByID s) k = Some j" using weak_map_of_SomeI by fastforce
  then show ?thesis by (simp add: by_id_def)
qed

subsection \<open>DNS\<close>

text \<open>
  What the service means to answer, question by question: the address of a listed silo for its name
  below \<open>silo\<close>; else what the special names stand for, if the caller is a silo, and what the
  configuration gives for the name. A special name asked by a caller that is no silo has no answer at all.
\<close>

definition caller :: "metadataService \<Rightarrow> string \<Rightarrow> metadataSiloInfo option" where
  "caller s remote = (let k = findSiloIDForIP s remote in if k = [] then None else go_lookup (silosByID s) k)"

definition special_names :: "string \<Rightarrow> (metadataSiloInfo \<Rightarrow> string) option" where
  "special_names = map_of [(''self.'', \<lambda>i. findRouteableAddress (mi_Interfaces i)), (''host.'', mi_BridgeIP),
     (''metadata.'', mi_BridgeIP), (''bridge.'', mi_BridgeIP), (''colex.'', mi_BridgeIP)]"

definition silo_named :: "metadataService \<Rightarrow> string \<Rightarrow> metadataSiloInfo option" where
  "silo_named s q =
     (if HasSuffix q ''.silo.''
      then case go_lookup (silosByName s) (TrimSuffix q ''.silo.'') of
             Some i \<Rightarrow> if findRouteableAddress (mi_Interfaces i) \<noteq> [] then Some i else None
           | None \<Rightarrow> None
      else None)"

definition dns_answers :: "metadataService \<Rightarrow> (string, string) gomap option \<Rightarrow> string \<Rightarrow> string \<Rightarrow> answer list" where
  "dns_answers s dnsMap remote q =
     (case silo_named s q of
        Some i \<Rightarrow> [(q, ParseIP (findRouteableAddress (mi_Interfaces i)))]
      | None \<Rightarrow>
        (case special_names q of
           Some f \<Rightarrow> (case caller s remote of None \<Rightarrow> [] | Some i \<Rightarrow> (q, ParseIP (f i)) # dns_hostnames dnsMap q)
         | None \<Rightarrow> dns_hostnames dnsMap q))"

lemma dns_special_ok:
  "dns_special s remote q =
     Ok (case special_names q of
           Some f \<Rightarrow> (case caller s remote of None \<Rightarrow> None | Some i \<Rightarrow> Some [(q, ParseIP (f i))])
         | None \<Rightarrow> Some [])"
proof (cases "findSiloIDForIP s remote = []")
  case True
  then show ?thesis by (simp add: dns_special_def special_names_def caller_def Let_def)
next
  case False
  then obtain i where "by_id s (findSiloIDForIP s remote) = Ok i" "go_lookup (silosByID s) (findSiloIDForIP s remote) = Some i"
    using by_id_found by blast
  with False show ?thesis by (simp add: dns_special_def special_names_def caller_def Let_def)
qed

lemma dns_question_ok: "dns_question s dnsMap remote q = Ok (dns_answers s dnsMap remote q)"
  by (simp add: dns_question_def dns_answers_def dns_special_ok silo_named_def split: option.splits)

lemma dns_loop_ok: "dns_loop s dnsMap remote acc qs = Ok (acc @ concat (map (dns_answers s dnsMap remote) qs))"
  by (induction qs arbitrary: acc) (simp_all add: dns_question_ok)

lemma lookup_perm: "wf_map m \<Longrightarrow> wf_map m' \<Longrightarrow> set m' = set m \<Longrightarrow> go_lookup m' = go_lookup m"
  unfolding wf_map_def by (metis map_of_inject_set)

text \<open>
  C15. DNS does what it means to, and does not depend on the order in which Go visits a map. For every
  list of questions the reply is the answers to each question in turn as specified (and none once the
  service is closing); it never panics. If no two silos share an address, any other order of the
  entries of the maps gives the same reply.
\<close>

theorem dns_matches_specification:
  "ServeDNS s dnsMap remote qs =
     Ok (if md_isClosing s then None else Some (concat (map (dns_answers s dnsMap remote) qs))) \<and>
   (\<forall>s'. wf_map (silosByName s) \<longrightarrow> wf_map (silosByID s) \<longrightarrow> one_owner (silosByID s) \<longrightarrow>
     md_isClosing s' = md_isClosing s \<longrightarrow> mset (silosByName s') = mset (silosByName s) \<longrightarrow>
     mset (silosByID s') = mset (silosByID s) \<longrightarrow> ServeDNS s' dnsMap remote qs = ServeDNS s dnsMap remote qs)"
proof (intro conjI allI impI)
  show "ServeDNS s dnsMap remote qs =
     Ok (if md_isClosing s then None else Some (concat (map (dns_answers s dnsMap remote) qs)))" for s
    by (simp add: ServeDNS_def dns_loop_ok)
  note eq = this
  fix s' :: metadataService
  assume wf: "wf_map (silosByName s)" "wf_map (silosByID s)" and one: "one_owner (silosByID s)"
    and c: "md_isClosing s' = md_isClosing s" and m: "mset (silosByName s') = mset (silosByName s)" "mset (silosByID s') = mset (silosByID s)"
  have wf': "wf_map (silosByName s')" "wf_map (silosByID s')"
    using wf m by (metis mset_map mset_eq_imp_distinct_iff wf_map_def)+
  have sets: "set (silosByName s') = set (silosByName s)" "set (silosByID s') = set (silosByID s)"
    using m mset_eq_setD by blast+
  have l: "go_lookup (silosByName s') = go_lookup (silosByName s)" "go_lookup (silosByID s') = go_lookup (silosByID s)"
    using wf wf' sets lookup_perm by blast+
  have "findSiloIDForIP s' remote = findSiloIDForIP s remote"
    by (simp add: findSiloIDForIP_def find_id_perm [OF sets(2) one])
  then have "caller s' remote = caller s remote" by (simp add: caller_def l Let_def)
  moreover have "silo_named s' = silo_named s" by (simp add: fun_eq_iff silo_named_def l)
  ultimately have "dns_answers s' dnsMap remote = dns_answers s dnsMap remote"
    unfolding dns_answers_def by (simp only:)
  then show "ServeDNS s' dnsMap remote qs = ServeDNS s dnsMap remote qs" by (simp add: eq c)
qed


subsection \<open>HTTP\<close>

lemma caller_owner:
  assumes "md_inv s" "findSiloIDForIP s remote \<noteq> []"
  obtains i where "caller s remote = Some i" "by_id s (findSiloIDForIP s remote) = Ok i"
    "has_address (host_part remote) i" "go_lookup (silosByID s) (mi_ID i) = Some i" "mi_ID i = findSiloIDForIP s remote"
proof -
  from assms(2) obtain i where i: "(findSiloIDForIP s remote, i) \<in> set (silosByID s)" "has_address (host_part remote) i"
    using find_id_in unfolding findSiloIDForIP_def by blast
  have "wf_map (silosByID s)" using assms(1) by (simp add: md_inv_def)
  with i(1) have l: "go_lookup (silosByID s) (findSiloIDForIP s remote) = Some i" by (simp add: gm.entries_lookup)
  then have "mi_ID i = findSiloIDForIP s remote" using dir.ident_key [OF assms(1)] by blast
  with that i(2) l assms(2) show thesis by (auto simp: caller_def by_id_def Let_def)
qed

definition may_query :: "Silo list \<Rightarrow> metadataSiloInfo \<Rightarrow> bool" where
  "may_query heap i \<longleftrightarrow> go_lookup (s_Grant (heap ! mi_silo i)) ''query_silos'' = Some True"

text \<open>The devices of a description, with the statistics left out, are those of the silo's interfaces.\<close>

definition devices :: "Silo \<Rightarrow> (string \<times> string \<times> string) list" where
  "devices s = map (\<lambda>d. (info_Name d, info_Address d, info_Kind d)) (concat (map Info (s_Interfaces s)))"

lemma describe_devices:
  "map_io (describe_device h st) ds t = (Ok is, t') \<Longrightarrow>
   map (\<lambda>w. (wi_Name w, wi_Address w, wi_Kind w)) is = map (\<lambda>d. (info_Name d, info_Address d, info_Kind d)) ds"
  by (induction ds arbitrary: "is" t) (auto simp: io_ok describe_device_def)

lemma describeInterfaces_devices:
  "describeInterfaces h s st t = (Ok is, t') \<Longrightarrow> map (\<lambda>w. (wi_Name w, wi_Address w, wi_Kind w)) is = devices s"
  unfolding describeInterfaces_def devices_def by (rule describe_devices)

text \<open>What a caller with the grant is told of the silo \<open>j\<close> of the path.\<close>

definition told_of :: "host \<Rightarrow> Silo list \<Rightarrow> metadataSiloInfo \<Rightarrow> string \<Rightarrow> trace \<Rightarrow> json_object \<Rightarrow> trace \<Rightarrow> bool" where
  "told_of h heap j path t obj t' \<longleftrightarrow>
     obj = InfoObject j \<and> path = ''/silo/'' @ mi_ID j @ ''/meta'' \<and> t' = t \<or>
     (\<exists>is. obj = InterfacesObject is \<and> path = ''/silo/'' @ mi_ID j @ ''/netstats'' \<and>
        describeInterfaces h (heap ! mi_silo j) True t = (Ok is, t') \<and>
        map (\<lambda>w. (wi_Name w, wi_Address w, wi_Kind w)) is = devices (heap ! mi_silo j))"

lemma query_objects:
  assumes inv: "md_inv s" and p: "HasPrefix (rq_Path req) ''/silo/''"
    and r: "metadataSiloQueryHandler h heap s req t = (Ok w, t')" and o: "WriteJSON obj \<in> set w"
  shows "\<exists>j. go_lookup (silosByID s) (mi_ID j) = Some j \<and> told_of h heap j (rq_Path req) t obj t'"
proof -
  from p obtain rest where path: "rq_Path req = ''/silo/'' @ rest" by (auto simp: HasPrefix_iff)
  then have rest: "drop (length ''/silo/'') (rq_Path req) = rest" by simp
  from r o obtain n j where n: "IndexByte rest (CHR ''/'') = Some n" and j: "go_lookup (silosByID s) (take n rest) = Some j"
    and d: "drop (Suc n) rest = ''meta'' \<and> obj = InfoObject j \<and> t' = t \<or>
      drop (Suc n) rest = ''netstats'' \<and> (\<exists>is. obj = InterfacesObject is \<and> describeInterfaces h (heap ! mi_silo j) True t = (Ok is, t'))"
    unfolding metadataSiloQueryHandler_def rest
    by (auto simp: io_ok http_Error_def writeObject_def Let_def split: option.splits if_splits)
  have "mi_ID j = take n rest" using dir.ident_key [OF inv j] .
  moreover have "rest = take n rest @ CHR ''/'' # drop (Suc n) rest"
    using IndexByte_SomeD [OF n] id_take_nth_drop by metis
  ultimately have "rq_Path req = ''/silo/'' @ mi_ID j @ CHR ''/'' # drop (Suc n) rest" unfolding path by simp
  with j d show ?thesis
    using \<open>mi_ID j = take n rest\<close> describeInterfaces_devices unfolding told_of_def by (intro exI [of _ j]) auto
qed

text \<open>
  C16. Who is told what. The service gives an object only to a caller whose address is that of the
  silo interface of a listed silo, and not once it is closing: the caller's own record for \<open>/self\<close>, the
  statistics measured on the caller's own silo for \<open>/stats\<close>, for \<open>/list\<close> every listed silo with the one value
  that the parameter \<open>with\<close> selects, its ID by default; and only to a caller with the grant \<open>query_silos\<close> the
  record of the silo whose ID is in the path, or the description of that silo's interfaces with their statistics.
\<close>

theorem metadata_access:
  assumes "md_inv s" and "md_ServeHTTP h heap s req t = (Ok w, t')" and "WriteJSON obj \<in> set w"
  shows "\<not> md_isClosing s \<and> w = [WriteJSON obj] \<and>
    (\<exists>i. go_lookup (silosByID s) (mi_ID i) = Some i \<and> has_address (host_part (rq_RemoteAddr req)) i \<and>
      (obj = InfoObject i \<and> rq_Path req = ''/self'' \<and> t' = t \<or>
       (\<exists>m. obj = StatObject \<lparr>st_Mem = m\<rparr> \<and> MemStats h (heap ! mi_silo i) t = (Ok m, t')) \<and> rq_Path req = ''/stats'' \<or>
       obj = ListObject (map (\<lambda>(name, j). (name,
               if query_get req ''with'' = ''run-seconds'' then RunTime (time_Sub (h_int h t (Proc Now)) (mi_Started j))
               else if query_get req ''with'' = ''tags'' then TagList (mi_Tags j)
               else if query_get req ''with'' = ''bridge-address'' then Text (mi_BridgeIP j)
               else if query_get req ''with'' = ''routeable-address'' then Text (findRouteableAddress (mi_Interfaces j))
               else Text (mi_ID j))) (silosByName s)) \<and> rq_Path req = ''/list'' \<or>
       may_query heap i \<and> (\<exists>j. go_lookup (silosByID s) (mi_ID j) = Some j \<and> told_of h heap j (rq_Path req) t obj t')))"
proof -
  have c: "\<not> md_isClosing s \<and> findSiloIDForIP s (rq_RemoteAddr req) \<noteq> []"
    using assms(2,3) by (auto simp: md_ServeHTTP_def io_ok http_Error_def Let_def split: if_splits)
  obtain i where i: "by_id s (findSiloIDForIP s (rq_RemoteAddr req)) = Ok i" "has_address (host_part (rq_RemoteAddr req)) i"
    "go_lookup (silosByID s) (mi_ID i) = Some i"
    using caller_owner [OF assms(1), of "rq_RemoteAddr req"] c by metis
  note def = md_ServeHTTP_def Let_def c i(1) io_ok writeObject_def http_Error_def metadataListHandler_def
  consider "rq_Path req = ''/self''" | "rq_Path req = ''/stats''" | "rq_Path req = ''/list''" |
    "HasPrefix (rq_Path req) ''/silo/''" "rq_Path req \<notin> {''/self'', ''/stats'', ''/list''}"
    using assms(2,3) by (auto simp: def split: if_splits)
  then show ?thesis
  proof cases
    case 4
    then have q: "may_query heap i" "metadataSiloQueryHandler h heap s req t = (Ok w, t')"
      using assms(2,3) by (auto simp: def may_query_def split: if_splits)
    then have "w = [WriteJSON obj]"
      using assms(3) by (auto simp: metadataSiloQueryHandler_def def split: option.splits if_splits)
    with q query_objects [OF assms(1) 4(1) q(2) assms(3)] c i show ?thesis by blast
  next
    case 2
    then have "\<exists>m. obj = StatObject \<lparr>st_Mem = m\<rparr> \<and> MemStats h (heap ! mi_silo i) t = (Ok m, t')" "w = [WriteJSON obj]"
      using assms(2,3) by (auto simp: def catch_io_def bind_io_def ret_def split: prod.splits res.splits)
    with 2 c i show ?thesis by blast
  next
    case 3
    with assms(2,3) c i show ?thesis by (intro conjI exI [of _ i]) (auto simp: def list_entry_def)
  next
    case 1
    with assms(2,3) c i show ?thesis by (auto simp: def)
  qed
qed


subsection \<open>Examples\<close>

definition ex_info :: "string \<Rightarrow> string \<Rightarrow> string \<Rightarrow> string \<Rightarrow> nat \<Rightarrow> metadataSiloInfo" where
  "ex_info name k br addr p =
     \<lparr>mi_Name = name, mi_ID = k, mi_Tags = [], mi_Started = 0,
      mi_Interfaces = map plain_interface
        [\<lparr>info_Address = br, info_Name = ''b0'', info_Kind = ''bridge''\<rparr>,
         \<lparr>info_Address = addr, info_Name = ''v0s'', info_Kind = ''silo-veth''\<rparr>],
      mi_BridgeIP = br, mi_silo = p, mi_listeners = []\<rparr>"

abbreviation ex_web :: metadataSiloInfo where "ex_web \<equiv> ex_info ''web'' ''0a'' ''10.0.0.1'' ''10.0.0.2'' 0"
abbreviation ex_db :: metadataSiloInfo where "ex_db \<equiv> ex_info ''db'' ''0b'' ''10.0.0.5'' ''10.0.0.6'' 1"

definition ex_md :: metadataService where
  "ex_md = \<lparr>md_isClosing = False, silosByName = [(''web'', ex_web), (''db'', ex_db)],
            silosByID = [(''0a'', ex_web), (''0b'', ex_db)], md_listening = []\<rparr>"

definition ex_req :: "string \<Rightarrow> request" where
  "ex_req path = \<lparr>rq_Path = path, rq_Query = [], rq_RemoteAddr = ''10.0.0.2:999'', rq_TLS = None, rq_Up = Inl ENOENT,
     rq_Down = Inl ENOENT, rq_List = Inr (), rq_SetHost = Inl ENOENT\<rparr>"

lemma ex_md_inv: "md_inv ex_md"
  by (simp add: md_inv_def wf_map_def ex_md_def ex_info_def)

lemma ex_md_owner: "one_owner (silosByID ex_md)"
  by (auto simp: one_owner_def ex_md_def ex_info_def has_address_def plain_interface_def)

theorem dns_matches_specification_witness:
  "ServeDNS (ex_md\<lparr>silosByName := rev (silosByName ex_md), silosByID := rev (silosByID ex_md)\<rparr>) None ''10.0.0.2:999''
     [''db.silo.'', ''self.'', ''nobody.''] = Ok (Some [(''db.silo.'', ParseIP ''10.0.0.6''), (''self.'', ParseIP ''10.0.0.2'')])"
proof -
  let ?s = "ex_md\<lparr>silosByName := rev (silosByName ex_md), silosByID := rev (silosByID ex_md)\<rparr>"
  have "wf_map (silosByName ex_md)" "wf_map (silosByID ex_md)" using ex_md_inv by (simp_all add: md_inv_def)
  then have "ServeDNS ?s None ''10.0.0.2:999'' [''db.silo.'', ''self.'', ''nobody.''] =
      ServeDNS ex_md None ''10.0.0.2:999'' [''db.silo.'', ''self.'', ''nobody.'']"
    using dns_matches_specification [of ex_md None "''10.0.0.2:999''" "[''db.silo.'', ''self.'', ''nobody.'']"] ex_md_owner
    by simp
  also have "\<dots> = Ok (Some [(''db.silo.'', ParseIP ''10.0.0.6''), (''self.'', ParseIP ''10.0.0.2'')])" by code_simp
  finally show ?thesis .
qed

text \<open>The first silo has the grant and asks for the interfaces of the second, which has one.\<close>

definition ex_heap :: "Silo list" where
  "ex_heap = [ex_running\<lparr>s_Grant := [(''query_silos'', True)]\<rparr>, ex_running]"

theorem metadata_access_witness:
  "\<exists>i is t'. md_ServeHTTP calm ex_heap ex_md (ex_req ''/silo/0b/netstats'') [] = (Ok [WriteJSON (InterfacesObject is)], t') \<and>
     has_address ''10.0.0.2'' i \<and> may_query ex_heap i \<and>
     map (\<lambda>w. (wi_Name w, wi_Address w, wi_Kind w)) is = devices (ex_heap ! 1)"
proof -
  let ?r = "md_ServeHTTP calm ex_heap ex_md (ex_req ''/silo/0b/netstats'') []"
  have "(case fst ?r of Ok [WriteJSON (InterfacesObject _)] \<Rightarrow> True | _ \<Rightarrow> False)" by code_simp
  then obtain "is" where r: "?r = (Ok [WriteJSON (InterfacesObject is)], snd ?r)"
    by (cases ?r) (auto split: res.splits list.splits wevent.splits json_object.splits)
  have h: "host_part (rq_RemoteAddr (ex_req ''/silo/0b/netstats'')) = ''10.0.0.2''" by code_simp
  have p: "rq_Path (ex_req ''/silo/0b/netstats'') = ''/silo/0b/netstats''" by (simp add: ex_req_def)
  have l: "map_option mi_silo (go_lookup (silosByID ex_md) ''0b'') = Some 1" by code_simp
  note m = metadata_access [OF ex_md_inv r, of "InterfacesObject is", unfolded h p told_of_def]
  have "\<exists>i j. has_address ''10.0.0.2'' i \<and> may_query ex_heap i \<and> go_lookup (silosByID ex_md) (mi_ID j) = Some j \<and>
    ''/silo/0b/netstats'' = ''/silo/'' @ mi_ID j @ ''/netstats'' \<and>
    map (\<lambda>w. (wi_Name w, wi_Address w, wi_Kind w)) is = devices (ex_heap ! mi_silo j)"
    using m by simp blast
  then obtain i j where i: "has_address ''10.0.0.2'' i" "may_query ex_heap i" and j: "go_lookup (silosByID ex_md) (mi_ID j) = Some j"
    "''/silo/0b/netstats'' = ''/silo/'' @ mi_ID j @ ''/netstats''"
    and d: "map (\<lambda>w. (wi_Name w, wi_Address w, wi_Kind w)) is = devices (ex_heap ! mi_silo j)"
    by blast
  have "mi_silo j = 1" using j l by simp
  with d have "map (\<lambda>w. (wi_Name w, wi_Address w, wi_Kind w)) is = devices (ex_heap ! 1)" by (simp only:)
  with i r show ?thesis by blast
qed

text \<open>
  A caller with the grant that leaves out the last part of the path makes the handler panic: it slices
  up to the index of a slash that is not there.
\<close>

lemma query_without_detail_panics:
  assumes "md_inv s" "\<not> md_isClosing s" "caller s (rq_RemoteAddr req) = Some i" "may_query heap i"
    and "rq_Path req = ''/silo/'' @ k" "CHR ''/'' \<notin> set k"
  shows "md_ServeHTTP h heap s req t = (Crash ''slice bounds out of range'', t)"
proof -
  have f: "findSiloIDForIP s (rq_RemoteAddr req) \<noteq> []" using assms(3) by (auto simp: caller_def Let_def)
  with assms(3) have b: "by_id s (findSiloIDForIP s (rq_RemoteAddr req)) = Ok i"
    using caller_owner [OF assms(1) f] by fastforce
  have "IndexByte k (CHR ''/'') = None" using assms(6) by (simp add: IndexByte_None_iff)
  with assms(2,4,5) f b show ?thesis
    by (simp add: md_ServeHTTP_def Let_def metadataSiloQueryHandler_def crash_def may_query_def HasPrefix_def)
qed

end
