(* ===== verification/Cert.thy ===== *)
theory Cert
  imports Config Json
begin

text \<open>
  Certificates (\<open>colexd/cert/gen.go\<close>): the self-signed certificate that the daemon and the client mint
  for themselves, in PEM form, and loading a pair. The decoders of \<open>encoding/pem\<close> and \<open>crypto/x509\<close>
  are parameters; a private key is its PKCS 1 encoding. Drawing a key and signing are calls to the host.
\<close>

definition ErrInsecureKeyBitSize :: gerr where
  "ErrInsecureKeyBitSize = ErrSentinel ''too few bits when generating key''"

definition LoadPrivateCertPEM ::
  "(string \<Rightarrow> 'der option) \<Rightarrow> ('der \<Rightarrow> 'cert result) \<Rightarrow> ('der \<Rightarrow> 'key result) \<Rightarrow> string \<Rightarrow> string \<Rightarrow> ('cert \<times> 'key) result" where
  "LoadPrivateCertPEM pem_Decode ParseCertificate ParsePKCS1PrivateKey bytesCert keyBytes =
     (case pem_Decode bytesCert of
        None \<Rightarrow> Inl (ErrNew ''No certificate data read from PEM'')
      | Some certDER \<Rightarrow>
        bindR (ParseCertificate certDER) (\<lambda>crt.
          case pem_Decode keyBytes of
            None \<Rightarrow> Inl (ErrNew ''No key data read from PEM'')
          | Some keyDER \<Rightarrow> bindR (ParsePKCS1PrivateKey keyDER) (\<lambda>priv. Inr (crt, priv))))"

definition LoadPrivateCertFromFilePEM ::
  "host \<Rightarrow> (string \<Rightarrow> 'der option) \<Rightarrow> ('der \<Rightarrow> 'cert result) \<Rightarrow> ('der \<Rightarrow> 'key result) \<Rightarrow> string \<Rightarrow> string \<Rightarrow> ('cert \<times> 'key) io" where
  "LoadPrivateCertFromFilePEM h pem_Decode ParseCertificate ParsePKCS1PrivateKey certPath keyPath =
     bind_io (perform h (Fs (ReadFile certPath)) (h_str h)) (\<lambda>certBytes.
     bind_io (perform h (Fs (ReadFile keyPath)) (h_str h)) (\<lambda>keyBytes.
       lift_result (LoadPrivateCertPEM pem_Decode ParseCertificate ParsePKCS1PrivateKey certBytes keyBytes)))"

definition GenerateRSA :: "host \<Rightarrow> int \<Rightarrow> string io" where
  "GenerateRSA h bitSize =
     (if bitSize \<le> 1024 then fail ErrInsecureKeyBitSize
      else perform h (Cli (GenerateKey bitSize)) (h_str h))"

text \<open>\<open>binary.PutUvarint\<close>: seven bits a byte, the lowest first, all but the last with the high bit set.\<close>

fun PutUvarint :: "nat \<Rightarrow> byte list" where
  "PutUvarint x = (if x < 128 then [of_nat x] else of_nat (x mod 128 + 128) # PutUvarint (x div 128))"

declare PutUvarint.simps [simp del]

text \<open>
  \<open>makeBasicCert\<close>: the number is written into sixteen zero bytes, of which the first five are the
  subject's key ID. \<open>rand.Int63\<close> does not fail. The end date is six months later in the local calendar.
\<close>

definition makeBasicCert :: "host \<Rightarrow> int \<Rightarrow> certTemplate io" where
  "makeBasicCert h now t =
     (let subjectKeyNum = nat (h_int h t (Cli Int63)); t1 = t @ [(Cli Int63, None)];
          subjectKeyBytes = take 16 (PutUvarint subjectKeyNum @ replicate 16 0)
      in (Ok \<lparr>ct_SerialNumber = h_int h t1 (Cli Int63),
              ct_Country = [''U.S''], ct_Organization = [''Acme Co.''], ct_OrganizationalUnit = [''Acme Co.'' @ ''U''],
              ct_NotBefore = now, ct_NotAfter = h_int h t1 (Cli (AddDate now 0 6 0)),
              ct_SubjectKeyId = take 5 subjectKeyBytes,
              ct_IsCA = False, ct_BasicConstraintsValid = False, ct_ExtKeyUsage = [], ct_KeyUsage = []\<rparr>,
          t1 @ [(Cli Int63, None)]))"

text \<open>\<open>pem.Encode\<close> of a block without headers: base64 in lines of 64 characters between two marks.\<close>

fun lines64 :: "string \<Rightarrow> string list" where
  "lines64 s = (if s = [] then [] else (take 64 s @ [CHR 0x0A]) # lines64 (drop 64 s))"

declare lines64.simps [simp del]

definition pem_Encode :: "string \<Rightarrow> string \<Rightarrow> string" where
  "pem_Encode ty d =
     ''-----BEGIN '' @ ty @ ''-----'' @ [CHR 0x0A] @
     concat (lines64 (b64_encode (map (\<lambda>c. of_nat (of_char c)) d))) @
     ''-----END '' @ ty @ ''-----'' @ [CHR 0x0A]"

definition MakeServerCert :: "host \<Rightarrow> (string \<times> string) io" where
  "MakeServerCert h t =
     (let now = h_int h t (Proc Now) in
      bind_io (makeBasicCert h now) (\<lambda>basic.
        let crt = basic\<lparr>ct_IsCA := False, ct_BasicConstraintsValid := True,
                        ct_ExtKeyUsage := [''ClientAuth'', ''ServerAuth''],
                        ct_KeyUsage := [''KeyEncipherment'', ''DigitalSignature'']\<rparr> in
        bind_io (GenerateRSA h 2048) (\<lambda>key.
        bind_io (perform h (Cli (CreateCertificate crt key)) (h_str h)) (\<lambda>certBytes.
          ret (pem_Encode ''CERTIFICATE'' certBytes, pem_Encode ''RSA PRIVATE KEY'' key)))) t)"

section \<open>Facts\<close>

text \<open>Decoding what \<open>PutUvarint\<close> writes.\<close>

fun uvarint :: "byte list \<Rightarrow> nat" where
  "uvarint [] = 0"
| "uvarint (b # bs) = (if unat b < 128 then unat b else (unat b - 128) + 128 * uvarint bs)"

lemma uvarint_PutUvarint: "uvarint (PutUvarint x @ rest) = x"
proof (induction x rule: PutUvarint.induct)
  case (1 x)
  have "unat (of_nat k :: byte) = k" if "k < 256" for k using that by (simp add: unat_of_nat)
  from this [of "x mod 128 + 128"] have u: "unat (of_nat (x mod 128 + 128) :: byte) = x mod 128 + 128" by linarith
  show ?case
  proof (cases "x < 128")
    case True
    then have "unat (of_nat x :: byte) = x" by (simp add: unat_of_nat)
    with True show ?thesis by (simp add: PutUvarint.simps [of x])
  next
    case False
    then have "uvarint (PutUvarint x @ rest) = x mod 128 + 128 * uvarint (PutUvarint (x div 128) @ rest)"
      using u by (simp add: PutUvarint.simps [of x] del: of_nat_add)
    with 1 [OF False] show ?thesis by simp
  qed
qed

text \<open>Ten bytes are enough for 64 bits, so the sixteen of the code's buffer always are.\<close>

lemma length_PutUvarint: "x < 128 ^ n \<Longrightarrow> 0 < n \<Longrightarrow> length (PutUvarint x) \<le> n"
proof (induction n arbitrary: x)
  case (Suc n)
  show ?case
  proof (cases "x < 128")
    case False
    with Suc.prems have "x div 128 < 128 ^ n" "0 < n" by (cases n; simp add: less_mult_imp_div_less mult.commute)+
    with Suc.IH [of "x div 128"] False show ?thesis by (simp add: PutUvarint.simps [of x])
  qed (simp add: PutUvarint.simps [of x])
qed simp

end
