(* ===== verification/Server.thy ===== *)
theory Server
  imports Metadata Cert
begin

text \<open>
  The daemon (\<open>colexd/serv.go\<close>): its table of silos, the handlers of its calls, the goroutines that
  await silos and the collector that removes those that ended. A handler runs under the lock of the
  server, so it is one transformer of the server and of the trace; what goroutines do without the lock
  are steps of their own. Silos are shared by pointers: \<open>sv_heap\<close> is the store, and a pointer an index
  into it. In error texts the arguments of the verb \<open>%q\<close> are shown without quotes.
\<close>

section \<open>Data\<close>

record siloFinishedInfo =
  fin_name :: string
  fin_ID :: string

text \<open>The TLS configuration: the pair of PEM texts, and the policy on client certificates.\<close>

record tlsConfig =
  tls_Certificate :: "string \<times> string"
  tls_ClientAuth :: string

text \<open>
  \<open>sv_spawned\<close> are the goroutines of \<open>waitNotifySilo\<close> that have not looked at their silo yet,
  \<open>sv_waiting\<close> those inside \<open>exec.Cmd.Wait\<close>, \<open>sv_notices\<close> those blocked in sending on the channel
  \<open>siloDoneNotify\<close>, which has no buffer, with what they send. \<open>sv_collecting\<close> says whether the collector
  still receives.
\<close>

record Server =
  sv_config :: config
  sv_ipPool :: IPPool
  sv_tls :: tlsConfig
  sv_meta :: metadataService
  sv_closing :: bool
  sv_deadline :: int
  sv_key :: string
  sv_silos :: "(string, nat) gomap"
  sv_heap :: "Silo list"
  sv_spawned :: "nat list"
  sv_waiting :: "nat list"
  sv_notices :: "siloFinishedInfo list"
  sv_collecting :: bool

section \<open>Programs over a server\<close>

type_synonym 'a srv = "Server \<Rightarrow> trace \<Rightarrow> 'a res \<times> Server \<times> trace"

definition ret_s :: "'a \<Rightarrow> 'a srv" where
  "ret_s x sv t = (Ok x, sv, t)"

definition fail_s :: "gerr \<Rightarrow> 'a srv" where
  "fail_s e sv t = (Err e, sv, t)"

definition bind_s :: "'a srv \<Rightarrow> ('a \<Rightarrow> 'b srv) \<Rightarrow> 'b srv" where
  "bind_s m f sv t =
     (case m sv t of
        (Ok x, sv', t') \<Rightarrow> f x sv' t'
      | (Err e, sv', t') \<Rightarrow> (Err e, sv', t')
      | (Crash x, sv', t') \<Rightarrow> (Crash x, sv', t'))"

definition catch_s :: "'a srv \<Rightarrow> (gerr \<Rightarrow> 'a srv) \<Rightarrow> 'a srv" where
  "catch_s m k sv t =
     (case m sv t of
        (Ok x, sv', t') \<Rightarrow> (Ok x, sv', t')
      | (Err e, sv', t') \<Rightarrow> k e sv' t'
      | (Crash x, sv', t') \<Rightarrow> (Crash x, sv', t'))"

text \<open>Calls to the host that do not touch the server, and changes of the server.\<close>

definition io_s :: "'a io \<Rightarrow> 'a srv" where
  "io_s m sv t = (let (r, t') = m t in (r, sv, t'))"

definition get_s :: "Server srv" where
  "get_s sv t = (Ok sv, sv, t)"

definition modify_s :: "(Server \<Rightarrow> Server) \<Rightarrow> unit srv" where
  "modify_s f sv t = (Ok (), f sv, t)"

named_theorems srv_defs \<open>unfolding of the programs over a server\<close>

lemmas srv_comb_defs [srv_defs] =
  ret_s_def fail_s_def bind_s_def catch_s_def io_s_def get_s_def modify_s_def

section \<open>Stopping a silo\<close>

definition stopSiloInternal :: "host \<Rightarrow> string \<Rightarrow> unit srv" where
  "stopSiloInternal h name sv t =
     (case go_lookup (sv_silos sv) name of
        None \<Rightarrow> (Err (ErrNew (''no silo '' @ name)), sv, t)
      | Some p \<Rightarrow>
        (let silo = sv_heap sv ! p;
             (md, t1) = HostEvent h \<lparr>ev_event = eventSiloStopped, ev_Name = name, ev_ID = s_IDHex silo, ev_tags = [],
                                     ev_interfaces = [], ev_silo = p\<rparr> (sv_meta sv) t;
             (r, silo', pool, t2) = Close h silo (sv_ipPool sv) t1;
             sv1 = sv\<lparr>sv_meta := md, sv_heap := (sv_heap sv)[p := silo'], sv_ipPool := pool\<rparr>
         in case r of
              Ok _ \<Rightarrow> (Ok (), sv1\<lparr>sv_silos := go_delete name (sv_silos sv1)\<rparr>, t2)
            | Err e \<Rightarrow> (Err e, sv1, t2)
            | Crash x \<Rightarrow> (Crash x, sv1, t2)))"

section \<open>Starting a silo\<close>

fun find_image :: "nat \<Rightarrow> string \<Rightarrow> Image list \<Rightarrow> Options \<Rightarrow> Options result" where
  "find_image k base [] b = Inl (ErrNew ''unknown silo base'')"
| "find_image k base (img # imgs) b =
     (if ''img://'' @ img_Name img = base
      then (if img_Type img = TarballImage then Inr (AddFS (TarballBase (img_Path img)) b)
            else Inl (ErrNew (''image '' @ FormatInt (int k) @ '' has unknown type '' @ img_Type img)))
      else find_image (Suc k) base imgs b)"

definition resolveBase :: "config \<Rightarrow> string \<Rightarrow> Options \<Rightarrow> Options result" where
  "resolveBase c base b =
     (if base = ''img://busybox'' then Inr (AddFS (BusyboxBase []) b)
      else find_image 0 base (c_Images c) b)"

fun resolveFiles :: "wire_File list \<Rightarrow> Options \<Rightarrow> Options" where
  "resolveFiles [] b = b"
| "resolveFiles (f # fs) b =
     resolveFiles fs (AddFS (if f_Type f = ''tarball'' then FileLoaderTarballBase (f_SiloPath f) (f_Data f)
                             else FileLoaderBase (f_SiloPath f) (f_Data f)) b)"

fun resolveBinds :: "BindSpec list \<Rightarrow> (string, Bind) gomap \<Rightarrow> Options \<Rightarrow> Options result" where
  "resolveBinds specs [] b = Inr b"
| "resolveBinds specs ((_, m) # ms) b =
     (case find (\<lambda>s. bs_ID s = bd_ID m) specs of
        None \<Rightarrow> Inl (ErrNew (''no bind '' @ bd_ID m))
      | Some spec \<Rightarrow> resolveBinds specs ms (AddFS (BindBase (bs_Path spec) (bd_Path m) (bs_IsFile spec)) b))"

definition up_builder :: "config \<Rightarrow> conf_Silo \<Rightarrow> Options" where
  "up_builder c sc =
     \<lparr>o_Class = cs_Class sc, o_Tags = cs_Tags sc, o_Grant = cs_Grant sc, o_Bases = [], o_Root = [],
      o_MakeFromFolder = c_SiloDir c, o_accountMappers = [], o_DisableAcctNamespace = c_DisableUserNamespaces c,
      o_Hostname = [], o_Interfaces = [], o_Nameservers = [], o_HostMap = None,
      o_CPUSharePercent = r_CPUPercent (cs_Resources sc), o_MaxMemoryBytes = r_MaxMemoryBytes (cs_Resources sc),
      o_Cmd = b_Path (cs_Binary sc), o_Args = b_Args (cs_Binary sc), o_Env = b_Env (cs_Binary sc)\<rparr>"

text \<open>The options before a network is assigned, or the error that ends the request.\<close>

definition resolve_options :: "config \<Rightarrow> conf_Silo \<Rightarrow> wire_File list \<Rightarrow> Options result" where
  "resolve_options c sc files =
     (if 0 < r_CPUPercent (cs_Resources sc) \<and> r_CPUPercent (cs_Resources sc) < 4
      then Inl (ErrNew (''resources.cpu_percent ('' @ FormatInt (r_CPUPercent (cs_Resources sc)) @ '') lower than driver minimum''))
      else bindR (resolveBase c (cs_Base sc) (up_builder c sc)) (\<lambda>b.
             resolveBinds (c_Binds c) (cs_Binds sc) (resolveFiles files b)))"

definition network_options :: "conf_Silo \<Rightarrow> IPInterface \<Rightarrow> Options \<Rightarrow> Options" where
  "network_options sc network b =
     (let ns = n_Nameservers (cs_Network sc) in
      b\<lparr>o_Interfaces := o_Interfaces b @ [IPInterf network, LoopbackInterface],
        o_Nameservers := (if ns = [] then [IP_String (BridgeIP network), ''8.8.8.8''] else ns),
        o_HostMap := n_Hosts (cs_Network sc),
        o_Env := o_Env b @ [''METADATA_ENDPOINT='' @ IP_String (BridgeIP network) @ '':'' @ FormatInt metadataPort]\<rparr>)"

definition buildSiloStartedMetadataEvent :: "host \<Rightarrow> nat \<Rightarrow> Silo \<Rightarrow> metadataEvent io" where
  "buildSiloStartedMetadataEvent h p silo =
     bind_io (describeInterfaces h silo False) (\<lambda>is.
       ret \<lparr>ev_event = eventSiloStarted, ev_Name = s_Name silo, ev_ID = s_IDHex silo, ev_tags = s_Tags silo,
            ev_interfaces = is, ev_silo = p\<rparr>)"

text \<open>
  A silo that has been started enters the table, the metadata service is told, and a goroutine is
  spawned that awaits it.
\<close>

definition enter_silo :: "host \<Rightarrow> string \<Rightarrow> nat \<Rightarrow> unit srv" where
  "enter_silo h name p =
     bind_s (modify_s (\<lambda>sv. sv\<lparr>sv_silos := go_insert name p (sv_silos sv)\<rparr>)) (\<lambda>_.
     bind_s get_s (\<lambda>sv.
     bind_s (io_s (buildSiloStartedMetadataEvent h p (sv_heap sv ! p))) (\<lambda>e sv t.
       let (md, t1) = HostEvent h e (sv_meta sv) t in
       (Ok (), sv\<lparr>sv_meta := md, sv_spawned := sv_spawned sv @ [p]\<rparr>, t1))))"

text \<open>The methods of the silo at a pointer, on the store and the pool of the server.\<close>

definition silo_Init :: "host \<Rightarrow> nat \<Rightarrow> unit srv" where
  "silo_Init h p sv t =
     (let (r, s', t') = Init h (sv_heap sv ! p) t in (r, sv\<lparr>sv_heap := (sv_heap sv)[p := s']\<rparr>, t'))"

definition silo_Start :: "host \<Rightarrow> nat \<Rightarrow> unit srv" where
  "silo_Start h p sv t =
     (let (r, s', t') = Start h (sv_heap sv ! p) t in (r, sv\<lparr>sv_heap := (sv_heap sv)[p := s']\<rparr>, t'))"

definition silo_Close :: "host \<Rightarrow> nat \<Rightarrow> unit srv" where
  "silo_Close h p sv t =
     (let (r, s', pool, t') = Close h (sv_heap sv ! p) (sv_ipPool sv) t
      in (r, sv\<lparr>sv_heap := (sv_heap sv)[p := s'], sv_ipPool := pool\<rparr>, t'))"

definition alloc_silo :: "Silo \<Rightarrow> nat srv" where
  "alloc_silo s sv t = (Ok (length (sv_heap sv)), sv\<lparr>sv_heap := sv_heap sv @ [s]\<rparr>, t)"

definition free_slice :: "IPInterface \<Rightarrow> unit srv" where
  "free_slice network = modify_s (\<lambda>sv. sv\<lparr>sv_ipPool := FreeAssignment (Slice network) (sv_ipPool sv)\<rparr>)"

definition pool_interface :: "IPInterface srv" where
  "pool_interface sv t =
     (let (r, pool) = pool_IPInterface (sv_ipPool sv) in
      (case r of Inr i \<Rightarrow> Ok i | Inl e \<Rightarrow> Err e, sv\<lparr>sv_ipPool := pool\<rparr>, t))"

text \<open>
  \<open>startSiloInternal\<close> after a network has been assigned. The error of closing a silo that failed is only
  logged.
\<close>

definition launch_silo :: "host \<Rightarrow> string \<Rightarrow> IPInterface \<Rightarrow> Options \<Rightarrow> unit srv" where
  "launch_silo h name network b =
     bind_s (catch_s (io_s (NewSilo h name (Finalize h b)))
              (\<lambda>e. bind_s (free_slice network) (\<lambda>_. fail_s e))) (\<lambda>silo.
     bind_s (alloc_silo silo) (\<lambda>p.
     bind_s (catch_s (silo_Init h p)
              (\<lambda>e. bind_s (catch_s (silo_Close h p) (\<lambda>_. ret_s ())) (\<lambda>_.
                   bind_s (free_slice network) (\<lambda>_. fail_s e)))) (\<lambda>_.
     bind_s (catch_s (silo_Start h p)
              (\<lambda>e. bind_s (catch_s (silo_Close h p) (\<lambda>_. ret_s ())) (\<lambda>_. fail_s e))) (\<lambda>_.
       enter_silo h name p))))"

definition startSiloInternal :: "host \<Rightarrow> conf_Silo \<Rightarrow> wire_File list \<Rightarrow> unit srv" where
  "startSiloInternal h sc files =
     bind_s get_s (\<lambda>sv.
       case resolve_options (sv_config sv) sc files of
         Inl e \<Rightarrow> fail_s e
       | Inr b \<Rightarrow>
         bind_s pool_interface (\<lambda>network0.
           let network = network0\<lparr>InternetAccess := n_InternetAccess (cs_Network sc)\<rparr> in
           launch_silo h (cs_Name sc) network (network_options sc network b)))"

section \<open>Handlers\<close>

text \<open>
  The text of an error that goes into a response is kept as the error. \<open>time.Now\<close> is an entry of the
  trace. A duration is a signed 64-bit number of nanoseconds.
\<close>

definition now_s :: "host \<Rightarrow> int srv" where
  "now_s h sv t = (Ok (h_int h t (Proc Now)), sv, t @ [(Proc Now, None)])"

definition window :: "config \<Rightarrow> int" where
  "window c = wrap64 (c_BlindEnrollmentWindow c * 1000000000)"

text \<open>\<open>base64.URLEncoding\<close>\<close>

definition url_encode :: "byte list \<Rightarrow> string" where
  "url_encode b = map (\<lambda>c. if c = CHR ''+'' then CHR ''-'' else if c = CHR ''/'' then CHR ''_'' else c) (b64_encode b)"

definition enableEnrollHandler :: "host \<Rightarrow> authorizedUser option \<Rightarrow> response srv" where
  "enableEnrollHandler h u =
     bind_s (now_s h) (\<lambda>now.
     bind_s (modify_s (\<lambda>sv. sv\<lparr>sv_deadline := now + window (sv_config sv)\<rparr>)) (\<lambda>_.
     catch_s
       (bind_s (io_s (RandBytes h 8)) (\<lambda>b.
        bind_s (modify_s (\<lambda>sv. sv\<lparr>sv_key := url_encode b\<rparr>)) (\<lambda>_.
        case u of
          None \<Rightarrow> (\<lambda>sv t. (Crash ''nil pointer dereference'', sv, t))
        | Some usr \<Rightarrow>
          (\<lambda>sv t. (Ok [WriteEnableEnroll \<lparr>ee_DisablesAt = sv_deadline sv, ee_Code = sv_key sv\<rparr>], sv, t)))))
       (\<lambda>e. ret_s [WriteHeader 500, WriteError e])))"

definition blindEnrollHandler :: "host \<Rightarrow> request \<Rightarrow> response srv" where
  "blindEnrollHandler h req =
     bind_s (io_s (ignore_io (do_call h (Proc (Sleep 50))))) (\<lambda>_.
     bind_s (now_s h) (\<lambda>now.
     bind_s get_s (\<lambda>sv.
       if sv_deadline sv < now \<or> query_get req ''key'' \<noteq> sv_key sv then ret_s (httpErr 403 ''Failed'')
       else catch_s
         (bind_s (io_s (enrollCertificate h (query_get req ''name'') roleRoot (sv_config sv) (rq_TLS req))) (\<lambda>_. ret_s []))
         (\<lambda>e. ret_s [WriteHeader 500, WriteError e]))))"

fun list_loop :: "host \<Rightarrow> Silo list \<Rightarrow> (string, nat) gomap \<Rightarrow> wire_Silo list io" where
  "list_loop h heap [] = ret []"
| "list_loop h heap ((name, p) # m) =
     bind_io (MemStats h (heap ! p)) (\<lambda>mem.
     bind_io (describeInterfaces h (heap ! p) True) (\<lambda>is.
     bind_io (list_loop h heap m) (\<lambda>rest.
       ret (\<lparr>ws_Name = name, ws_Class = s_Class (heap ! p), ws_IDHex = s_IDHex (heap ! p), ws_Tags = s_Tags (heap ! p),
             ws_Interfaces = is, ws_Stats = \<lparr>st_Mem = mem\<rparr>\<rparr> # rest))))"

definition listSilosHandler :: "host \<Rightarrow> request \<Rightarrow> response srv" where
  "listSilosHandler h req =
     (case rq_List req of
        Inl e \<Rightarrow> ret_s (httpErr 400 ''Decode error'')
      | Inr _ \<Rightarrow>
        bind_s get_s (\<lambda>sv.
          catch_s (bind_s (io_s (list_loop h (sv_heap sv) (sv_silos sv))) (\<lambda>silos.
                     ret_s [WriteList \<lparr>lp_Name = c_Name (sv_config sv), lp_Matches = silos\<rparr>]))
                  (\<lambda>e. ret_s (httpErr 400 ''Statistics error''))))"

text \<open>Finding a silo by its ID: the first one visited; an empty name counts as none found.\<close>

fun name_of_id :: "string \<Rightarrow> Silo list \<Rightarrow> (string, nat) gomap \<Rightarrow> string" where
  "name_of_id k heap [] = []"
| "name_of_id k heap ((name, p) # m) = (if s_IDHex (heap ! p) = k then name else name_of_id k heap m)"

definition stop_request :: "host \<Rightarrow> string \<Rightarrow> response srv" where
  "stop_request h name =
     catch_s (bind_s (stopSiloInternal h name) (\<lambda>_. ret_s [])) (\<lambda>e. ret_s [WriteHeader 500, WriteError e])"

definition siloDownHandler :: "host \<Rightarrow> request \<Rightarrow> response srv" where
  "siloDownHandler h req =
     (case rq_Down req of
        Inl e \<Rightarrow> ret_s (httpErr 400 ''Decode error'')
      | Inr pkt \<Rightarrow>
        if dn_SiloID pkt \<noteq> [] \<and> dn_SiloName pkt \<noteq> []
        then ret_s (httpErr 400 ''Illegal combination of selectors - both name and ID set.'')
        else if dn_SiloID pkt \<noteq> [] then
          bind_s get_s (\<lambda>sv.
            let siloName = name_of_id (dn_SiloID pkt) (sv_heap sv) (sv_silos sv) in
            if siloName = [] then ret_s (httpErr 400 ''Could not find silo.'') else stop_request h siloName)
        else if dn_SiloName pkt \<noteq> [] then stop_request h (dn_SiloName pkt)
        else ret_s [])"

definition siloUpHandler :: "host \<Rightarrow> request \<Rightarrow> response srv" where
  "siloUpHandler h req =
     (case rq_Up req of
        Inl e \<Rightarrow> ret_s (httpErr 400 ''Decode error'')
      | Inr upPkt \<Rightarrow>
        (case up_SiloConf upPkt of
           None \<Rightarrow> (\<lambda>sv t. (Crash ''nil pointer dereference'', sv, t))
         | Some sc \<Rightarrow>
           catch_s
             (bind_s get_s (\<lambda>sv.
              bind_s (if go_lookup (sv_silos sv) (cs_Name sc) \<noteq> None then stopSiloInternal h (cs_Name sc) else ret_s ()) (\<lambda>_.
              bind_s (startSiloInternal h sc (up_Files upPkt)) (\<lambda>_.
              bind_s get_s (\<lambda>sv'.
                case go_lookup (sv_silos sv') (cs_Name sc) of
                  None \<Rightarrow> (\<lambda>sv t. (Crash ''nil pointer dereference'', sv, t))
                | Some p \<Rightarrow>
                  bind_s (io_s (describeInterfaces h (sv_heap sv' ! p) False)) (\<lambda>is.
                    ret_s [WriteUp \<lparr>upr_IDHex = s_IDHex (sv_heap sv' ! p), upr_Interfaces = is\<rparr>]))))))
             (\<lambda>e. ret_s [WriteHeader 500, WriteError e])))"

text \<open>\<open>setHostHandler\<close> writes to a map that is nil if the configuration names no hosts.\<close>

definition setHostHandler :: "request \<Rightarrow> response srv" where
  "setHostHandler req sv t =
     (case rq_SetHost req of
        Inl e \<Rightarrow> (Ok (httpErr 400 ''Decode error''), sv, t)
      | Inr pkt \<Rightarrow>
        (case c_Hostnames (sv_config sv) of
           None \<Rightarrow> (Crash ''assignment to entry in nil map'', sv, t)
         | Some m \<Rightarrow>
             (Ok [], sv\<lparr>sv_config := (sv_config sv)\<lparr>c_Hostnames := Some (go_insert (sh_Host pkt) (sh_IP pkt) m)\<rparr>\<rparr>, t)))"

definition dispatch :: "host \<Rightarrow> authorizedUser option \<Rightarrow> request \<Rightarrow> response srv" where
  "dispatch h user req =
     (if rq_Path req = ''/enable-enroll'' then enableEnrollHandler h user
      else if rq_Path req = ''/enroll'' then blindEnrollHandler h req
      else if rq_Path req = ''/up'' then siloUpHandler h req
      else if rq_Path req = ''/down'' then siloDownHandler h req
      else if rq_Path req = ''/list'' then listSilosHandler h req
      else if rq_Path req = ''/set-host'' then setHostHandler req
      else ret_s (httpErr 404 ''No such endpoint''))"

definition ServeHTTP :: "host \<Rightarrow> request \<Rightarrow> response srv" where
  "ServeHTTP h req sv t =
     (case checkAuthorized h (sv_config sv) (rq_Path req) (rq_TLS req) t of
        (Ok user, t1) \<Rightarrow> dispatch h user req sv t1
      | (Err e, t1) \<Rightarrow>
          (Ok (if e = errNotAuthorized then httpErr 403 ''Not authorized'' else httpErr 500 ''Internal server error''), sv, t1)
      | (Crash x, t1) \<Rightarrow> (Crash x, sv, t1))"

section \<open>Goroutines\<close>

text \<open>
  \<open>waitNotifySilo\<close> at a pointer: \<open>Wait\<close> first looks at the state, then blocks in \<open>exec.Cmd.Wait\<close>; when it
  returns the notice is sent, unless the server is closing.
\<close>

definition notify :: "nat \<Rightarrow> Server \<Rightarrow> Server" where
  "notify p sv =
     (if sv_closing sv then sv
      else sv\<lparr>sv_notices := sv_notices sv @ [\<lparr>fin_name = s_Name (sv_heap sv ! p), fin_ID = s_IDHex (sv_heap sv ! p)\<rparr>]\<rparr>)"

definition wait_begin :: "nat \<Rightarrow> Server \<Rightarrow> Server" where
  "wait_begin p sv =
     (let sv1 = sv\<lparr>sv_spawned := remove1 p (sv_spawned sv)\<rparr> in
      if s_State (sv_heap sv ! p) \<noteq> StateRunning then notify p sv1
      else sv1\<lparr>sv_waiting := sv_waiting sv1 @ [p]\<rparr>)"

definition wait_end :: "host \<Rightarrow> nat \<Rightarrow> Server \<Rightarrow> trace \<Rightarrow> Server \<times> trace" where
  "wait_end h p sv t =
     (let sv1 = sv\<lparr>sv_waiting := remove1 p (sv_waiting sv)\<rparr> in
      case s_child (sv_heap sv ! p) of
        None \<Rightarrow> (sv1, t)
      | Some cmd \<Rightarrow>
        (let (r, cmd', t') = cmd_Wait h cmd t in
         (notify p (sv1\<lparr>sv_heap := (sv_heap sv)[p := (sv_heap sv ! p)\<lparr>s_child := Some cmd'\<rparr>]\<rparr>), t')))"

text \<open>
  \<open>collectorRoutine\<close> on one notice: a silo that is gone, or has been replaced by another, is left alone.
  The error of stopping is only logged.
\<close>

definition collect :: "host \<Rightarrow> siloFinishedInfo \<Rightarrow> Server \<Rightarrow> trace \<Rightarrow> unit res \<times> Server \<times> trace" where
  "collect h n sv t =
     (case go_lookup (sv_silos sv) (fin_name n) of
        None \<Rightarrow> (Ok (), sv, t)
      | Some p \<Rightarrow>
        if s_IDHex (sv_heap sv ! p) \<noteq> fin_ID n then (Ok (), sv, t)
        else catch_s (stopSiloInternal h (fin_name n)) (\<lambda>_. ret_s ()) sv t)"

section \<open>Starting and closing the daemon\<close>

definition networkSetup :: "host \<Rightarrow> unit io" where
  "networkSetup h =
     bind_io (IPv4ForwardingEnabled h) (\<lambda>forwardingEnabled.
       if \<not> forwardingEnabled then IPv4EnableForwarding h True else ret ())"

definition makeTLSConfig :: "host \<Rightarrow> (string \<Rightarrow> string \<Rightarrow> gerr option) \<Rightarrow> config \<Rightarrow> tlsConfig io" where
  "makeTLSConfig h keypair c =
     (let load = (\<lambda>(certPEM, keyPEM). case keypair certPEM keyPEM of
            Some e \<Rightarrow> fail e
          | None \<Rightarrow> ret \<lparr>tls_Certificate = (certPEM, keyPEM), tls_ClientAuth = ''RequestClientCert''\<rparr>)
      in if c_KeySource c = KeySourceEphemeralKeys then bind_io (MakeServerCert h) load
         else if c_KeySource c = KeySourceEmbeddedKeys then load (c_CertPEM c, c_KeyPEM c)
         else fail (ErrNew (''dont know how to handle KeySource '' @ c_KeySource c)))"

text \<open>The zero \<open>time.Time\<close> is the start of the year 1.\<close>

definition zeroTime :: int where
  "zeroTime = - 62135596800 * 1000000000"

text \<open>The deadline and the key of the enrolment that the server starts with.\<close>

definition initial_enrolment :: "host \<Rightarrow> config \<Rightarrow> (int \<times> string) io" where
  "initial_enrolment h c =
     (if c_Mode c = AuthModeCertfile \<and> c_BlindEnrollmentWindow c \<noteq> - 1
      then bind_io (now_io h) (\<lambda>now. bind_io (RandBytes h 8) (\<lambda>b. ret (now + window c, url_encode b)))
      else ret (zeroTime, []))"

definition NewServer :: "host \<Rightarrow> (string \<Rightarrow> string \<Rightarrow> gerr option) \<Rightarrow> config \<Rightarrow> Server io" where
  "NewServer h keypair c =
     bind_io (lift_result (NewIPPool (c_AddressPool c))) (\<lambda>pool.
     bind_io (makeTLSConfig h keypair c) (\<lambda>tlsConf.
     bind_io (initial_enrolment h c) (\<lambda>(deadline, key).
     bind_io (networkSetup h) (\<lambda>_.
     bind_io (ignore_io (do_call h (Net (ListenTLS (c_Listener c))))) (\<lambda>_.
       ret \<lparr>sv_config = c, sv_ipPool = pool, sv_tls = tlsConf, sv_meta = newMetadataService, sv_closing = False,
            sv_deadline = deadline, sv_key = key, sv_silos = [], sv_heap = [], sv_spawned = [], sv_waiting = [],
            sv_notices = [], sv_collecting = True\<rparr>)))))"

fun stop_all :: "host \<Rightarrow> string list \<Rightarrow> unit srv" where
  "stop_all h [] = ret_s ()"
| "stop_all h (name # names) = bind_s (stopSiloInternal h name) (\<lambda>_. stop_all h names)"

text \<open>
  \<open>Server.Close\<close>. A second call panics in the metadata service, before it would close the channels again.
  Closing the channel makes a goroutine that is blocked in sending on it panic, which ends the process; closing
  \<open>done\<close> ends the collector (\<open>sv_collecting\<close>), which is the only goroutine that \<open>wg.Wait\<close> waits for. Names are
  visited in the order of the table.
\<close>

definition sv_Close :: "host \<Rightarrow> unit srv" where
  "sv_Close h =
     bind_s (\<lambda>sv t. let (r, md, t1) = md_Close h (sv_meta sv) t in (r, sv\<lparr>sv_meta := md\<rparr>, t1)) (\<lambda>_.
     bind_s (modify_s (\<lambda>sv. sv\<lparr>sv_closing := True, sv_collecting := False\<rparr>)) (\<lambda>_.
     bind_s get_s (\<lambda>sv.
       if sv_notices sv \<noteq> [] then (\<lambda>sv t. (Crash ''send on closed channel'', sv, t))
       else
         bind_s (stop_all h (map fst (sv_silos sv))) (\<lambda>_.
           io_s (do_call h (Net CloseServer))))))"

end
