(* ===== verification/Daemon.thy ===== *)
theory Daemon
  imports Server
begin

text \<open>
  The daemon over time: an invariant of the server that every operation keeps, proved with a small
  logic of specifications for programs over a server; the histories of the daemon under requests,
  ending silos and the collector; and what follows for the metadata service.
\<close>

section \<open>Specifications of programs over a server\<close>

text \<open>
  From a server that satisfies \<open>P\<close> a program that returns establishes \<open>Q\<close>, one that fails \<open>E\<close>, and one
  that panics \<open>C\<close>, whatever the host answers.
\<close>

definition spec :: "(Server \<Rightarrow> bool) \<Rightarrow> 'a srv \<Rightarrow> ('a \<Rightarrow> Server \<Rightarrow> bool) \<Rightarrow> (Server \<Rightarrow> bool) \<Rightarrow> (Server \<Rightarrow> bool) \<Rightarrow> bool" where
  "spec P m Q E C \<longleftrightarrow> (\<forall>sv t. P sv \<longrightarrow>
     (case m sv t of (Ok x, sv', t') \<Rightarrow> Q x sv' | (Err e, sv', t') \<Rightarrow> E sv' | (Crash x, sv', t') \<Rightarrow> C sv'))"

lemma specI:
  assumes "\<And>sv t r sv' t'. P sv \<Longrightarrow> m sv t = (r, sv', t') \<Longrightarrow>
    (case r of Ok x \<Rightarrow> Q x sv' | Err e \<Rightarrow> E sv' | Crash x \<Rightarrow> C sv')"
  shows "spec P m Q E C"
  unfolding spec_def
proof (intro allI impI)
  fix sv t
  assume "P sv"
  moreover obtain r sv' t' where "m sv t = (r, sv', t')" by (cases "m sv t")
  ultimately show "case m sv t of (Ok x, sv', t') \<Rightarrow> Q x sv' | (Err e, sv', t') \<Rightarrow> E sv' | (Crash x, sv', t') \<Rightarrow> C sv'"
    using assms [of sv t r sv' t'] by (cases r) simp_all
qed

lemma specD:
  assumes "spec P m Q E C" "P sv" "m sv t = (r, sv', t')"
  shows "case r of Ok x \<Rightarrow> Q x sv' | Err e \<Rightarrow> E sv' | Crash x \<Rightarrow> C sv'"
proof -
  from assms(1,2) have "case m sv t of (Ok x, sv', t') \<Rightarrow> Q x sv' | (Err e, sv', t') \<Rightarrow> E sv' | (Crash x, sv', t') \<Rightarrow> C sv'"
    by (simp add: spec_def)
  with assms(3) show ?thesis by (cases r) simp_all
qed

named_theorems spec_rules \<open>rules for the specifications\<close>

lemma spec_ret [spec_rules]: "(\<And>sv. P sv \<Longrightarrow> Q x sv) \<Longrightarrow> spec P (ret_s x) Q E C"
  by (simp add: spec_def srv_defs)

lemma spec_fail [spec_rules]: "(\<And>sv. P sv \<Longrightarrow> E sv) \<Longrightarrow> spec P (fail_s e) Q E C"
  by (simp add: spec_def srv_defs)

lemma spec_get [spec_rules]: "(\<And>sv. P sv \<Longrightarrow> Q sv sv) \<Longrightarrow> spec P get_s Q E C"
  by (simp add: spec_def srv_defs)

lemma spec_modify [spec_rules]: "(\<And>sv. P sv \<Longrightarrow> Q () (f sv)) \<Longrightarrow> spec P (modify_s f) Q E C"
  by (simp add: spec_def srv_defs)

lemma spec_bind:
  assumes "spec P m R E C" "\<And>x. spec (R x) (f x) Q E C"
  shows "spec P (bind_s m f) Q E C"
proof (rule specI)
  fix sv t r sv' t'
  assume p: "P sv" and b: "bind_s m f sv t = (r, sv', t')"
  obtain r1 sv1 t1 where m: "m sv t = (r1, sv1, t1)" by (cases "m sv t")
  note d = specD [OF assms(1) p m]
  show "case r of Ok x \<Rightarrow> Q x sv' | Err e \<Rightarrow> E sv' | Crash x \<Rightarrow> C sv'"
  proof (cases r1)
    case (Ok x)
    then have "R x sv1" "f x sv1 t1 = (r, sv', t')" using b m d by (simp_all add: bind_s_def)
    then show ?thesis using specD [OF assms(2)] by blast
  qed (use m b d in \<open>auto simp: bind_s_def\<close>)
qed

lemma spec_catch:
  assumes "spec P m Q R C" "\<And>e. spec R (k e) Q E C"
  shows "spec P (catch_s m k) Q E C"
proof (rule specI)
  fix sv t r sv' t'
  assume p: "P sv" and b: "catch_s m k sv t = (r, sv', t')"
  obtain r1 sv1 t1 where m: "m sv t = (r1, sv1, t1)" by (cases "m sv t")
  note d = specD [OF assms(1) p m]
  show "case r of Ok x \<Rightarrow> Q x sv' | Err e \<Rightarrow> E sv' | Crash x \<Rightarrow> C sv'"
  proof (cases r1)
    case (Err e)
    then have "R sv1" "k e sv1 t1 = (r, sv', t')" using b m d by (simp_all add: catch_s_def)
    then show ?thesis using specD [OF assms(2)] by blast
  qed (use m b d in \<open>auto simp: catch_s_def\<close>)
qed

lemma spec_conseq:
  assumes "spec P m Q E C" "\<And>sv. P' sv \<Longrightarrow> P sv" "\<And>x sv. Q x sv \<Longrightarrow> Q' x sv" "\<And>sv. E sv \<Longrightarrow> E' sv" "\<And>sv. C sv \<Longrightarrow> C' sv"
  shows "spec P' m Q' E' C'"
proof (rule specI)
  fix sv t r sv' t'
  assume "P' sv" "m sv t = (r, sv', t')"
  from specD [OF assms(1) assms(2) [OF this(1)] this(2)] assms(3-5)
  show "case r of Ok x \<Rightarrow> Q' x sv' | Err e \<Rightarrow> E' sv' | Crash x \<Rightarrow> C' sv'" by (cases r) auto
qed

text \<open>A program that does not change the server.\<close>

lemma spec_io:
  assumes "\<And>sv t x t'. P sv \<Longrightarrow> m t = (Ok x, t') \<Longrightarrow> Q x sv" "\<And>sv. P sv \<Longrightarrow> E sv" "\<And>sv. P sv \<Longrightarrow> C sv"
  shows "spec P (io_s m) Q E C"
  using assms by (auto simp: spec_def io_s_def split: res.splits prod.splits)

section \<open>The invariant\<close>

definition running_owes :: "Silo \<Rightarrow> ip list" where
  "running_owes s = (if s_State s = StateRunning then concat (map if_owes (s_Interfaces s)) else [])"

definition owed :: "Server \<Rightarrow> ip list" where
  "owed sv = concat (map (\<lambda>(_, p). running_owes (sv_heap sv ! p)) (sv_silos sv))"

text \<open>The silos the daemon makes: one interface from the pool, and the loopback.\<close>

definition net_silo :: "IPInterface \<Rightarrow> Silo \<Rightarrow> bool" where
  "net_silo i s \<longleftrightarrow> s_Interfaces s = [IPInterf i, LoopbackInterface] \<and> Freeer i \<and>
     (\<exists>u1 u2. Slice i = [BridgeIP i, SiloIP i, u1, u2])"

definition stored_ok :: "string \<Rightarrow> Silo \<Rightarrow> bool" where
  "stored_ok n s \<longleftrightarrow> s_Name s = n \<and> s_State s \<in> {StateRunning, StateFinished} \<and>
     (\<exists>cmd pid. s_child s = Some cmd \<and> Process cmd = Some pid) \<and> (\<exists>i. net_silo i s) \<and> ifs_ok (s_State s) (s_Interfaces s)"

definition table_ok :: "Server \<Rightarrow> bool" where
  "table_ok sv \<longleftrightarrow> wf_map (sv_silos sv) \<and> distinct (map snd (sv_silos sv)) \<and>
     (\<forall>(n, p) \<in> set (sv_silos sv). p < length (sv_heap sv) \<and> stored_ok n (sv_heap sv ! p))"

definition described :: "Silo \<Rightarrow> Interface list" where
  "described s = map plain_interface (concat (map Info (s_Interfaces s)))"

text \<open>What the metadata service lists is in the table, running, and as it was described.\<close>

definition listed_ok :: "Server \<Rightarrow> metadataSiloInfo \<Rightarrow> bool" where
  "listed_ok sv i \<longleftrightarrow> (let s = sv_heap sv ! mi_silo i in
     s_State s = StateRunning \<and> mi_ID i = s_IDHex s \<and> mi_Interfaces i = described s)"

definition meta_ok :: "Server \<Rightarrow> bool" where
  "meta_ok sv \<longleftrightarrow> md_inv (sv_meta sv) \<and>
     (\<not> md_isClosing (sv_meta sv) \<longrightarrow>
       (\<forall>n i. go_lookup (silosByName (sv_meta sv)) n = Some i \<longrightarrow> go_lookup (sv_silos sv) n = Some (mi_silo i) \<and> listed_ok sv i))"

text \<open>
  The addresses that running silos owe, and those a request holds on to, are in use in a history of the
  pool, and no two of them are the same.
\<close>

definition pool_ok :: "IPPool \<Rightarrow> nat \<Rightarrow> ip list \<Rightarrow> Server \<Rightarrow> bool" where
  "pool_ok p0 k held sv \<longleftrightarrow>
     (\<exists>out. pool_run p0 k (sv_ipPool sv) out \<and> distinct (held @ owed sv) \<and> set (held @ owed sv) \<subseteq> set out)"

definition procs_ok :: "Server \<Rightarrow> bool" where
  "procs_ok sv \<longleftrightarrow> (\<forall>p \<in> set (sv_spawned sv @ sv_waiting sv). p < length (sv_heap sv))"

definition sv_inv :: "IPPool \<Rightarrow> nat \<Rightarrow> ip list \<Rightarrow> Server \<Rightarrow> bool" where
  "sv_inv p0 k held sv \<longleftrightarrow> table_ok sv \<and> meta_ok sv \<and> pool_ok p0 k held sv \<and> procs_ok sv"

lemma sv_inv_drop: "sv_inv p0 k (xs @ held) sv \<Longrightarrow> sv_inv p0 k held sv"
  by (auto simp: sv_inv_def pool_ok_def)


subsection \<open>Changes to the store\<close>

lemma table_lookup:
  assumes "table_ok sv" "go_lookup (sv_silos sv) n = Some p"
  shows "(n, p) \<in> set (sv_silos sv)" "p < length (sv_heap sv)" "stored_ok n (sv_heap sv ! p)"
  using assms map_of_SomeD unfolding table_ok_def by fastforce+

lemma listed_in_table:
  "meta_ok sv \<Longrightarrow> \<not> md_isClosing (sv_meta sv) \<Longrightarrow> go_lookup (silosByName (sv_meta sv)) n = Some i \<Longrightarrow>
     go_lookup (sv_silos sv) n = Some (mi_silo i) \<and> listed_ok sv i"
  by (simp add: meta_ok_def)

text \<open>Two silos that the invariant cannot tell apart.\<close>

definition alike :: "Silo \<Rightarrow> Silo \<Rightarrow> bool" where
  "alike s s' \<longleftrightarrow> s_Name s' = s_Name s \<and> s_State s' = s_State s \<and> s_IDHex s' = s_IDHex s \<and> s_Interfaces s' = s_Interfaces s \<and>
     (\<forall>cmd. s_child s = Some cmd \<longrightarrow> (\<exists>cmd'. s_child s' = Some cmd' \<and> Process cmd' = Process cmd))"

lemma alike_refl [simp]: "alike s s"
  by (simp add: alike_def)

lemma alike_facts:
  assumes "alike s s'"
  shows "stored_ok n s \<Longrightarrow> stored_ok n s'" "running_owes s' = running_owes s" "described s' = described s"
  using assms by (auto simp: alike_def stored_ok_def net_silo_def running_owes_def described_def)

text \<open>Two servers that agree on the table, and whose silos in it are alike, agree on the invariant.\<close>

lemma inv_cong:
  assumes "sv_inv p0 k held sv" and "sv_silos sv' = sv_silos sv" "sv_meta sv' = sv_meta sv" "sv_ipPool sv' = sv_ipPool sv"
    and heap: "\<And>n p. (n, p) \<in> set (sv_silos sv) \<Longrightarrow> alike (sv_heap sv ! p) (sv_heap sv' ! p)"
    and len: "length (sv_heap sv) \<le> length (sv_heap sv')"
    and procs: "\<And>p. p \<in> set (sv_spawned sv' @ sv_waiting sv') \<Longrightarrow> p < length (sv_heap sv')"
  shows "sv_inv p0 k held sv'"
proof -
  have t: "table_ok sv" "meta_ok sv" "pool_ok p0 k held sv" using assms(1) by (simp_all add: sv_inv_def)
  have "table_ok sv'" using t(1) alike_facts(1) [OF heap] len assms(2) unfolding table_ok_def by fastforce
  moreover have "owed sv' = owed sv"
    unfolding owed_def assms(2) using alike_facts(2) [OF heap] by (auto intro!: arg_cong [where f = concat] map_cong)
  then have "pool_ok p0 k held sv'" using t(3) assms(4) by (simp add: pool_ok_def)
  moreover have "meta_ok sv'"
    unfolding meta_ok_def assms(2,3)
  proof (intro conjI allI impI)
    show "md_inv (sv_meta sv)" using t(2) by (simp add: meta_ok_def)
    fix n i
    assume l: "\<not> md_isClosing (sv_meta sv)" "go_lookup (silosByName (sv_meta sv)) n = Some i"
    from listed_in_table [OF t(2) l] show e: "go_lookup (sv_silos sv) n = Some (mi_silo i)" by simp
    have "alike (sv_heap sv ! mi_silo i) (sv_heap sv' ! mi_silo i)" by (rule heap [OF table_lookup(1) [OF t(1) e]])
    with listed_in_table [OF t(2) l] alike_facts(3) [OF this] show "listed_ok sv' i"
      by (simp add: listed_ok_def Let_def alike_def)
  qed
  ultimately show ?thesis using procs by (simp add: sv_inv_def procs_ok_def)
qed

lemma procs_bound: "sv_inv p0 k held sv \<Longrightarrow> p \<in> set (sv_spawned sv @ sv_waiting sv) \<Longrightarrow> p < length (sv_heap sv)"
  by (auto simp: sv_inv_def procs_ok_def)

lemma inv_update:
  assumes "sv_inv p0 k held sv" "p \<notin> snd ` set (sv_silos sv)"
  shows "sv_inv p0 k held (sv\<lparr>sv_heap := (sv_heap sv)[p := s]\<rparr>)"
proof (rule inv_cong [OF assms(1)])
  fix n q
  assume "(n, q) \<in> set (sv_silos sv)"
  then have "q \<noteq> p" using assms(2) by force
  then show "alike (sv_heap sv ! q) (sv_heap (sv\<lparr>sv_heap := (sv_heap sv)[p := s]\<rparr>) ! q)" by simp
qed (use procs_bound [OF assms(1)] in auto)

lemma inv_alloc:
  assumes "sv_inv p0 k held sv"
  shows "sv_inv p0 k held (sv\<lparr>sv_heap := sv_heap sv @ [s]\<rparr>)"
proof (rule inv_cong [OF assms])
  fix n p
  assume "(n, p) \<in> set (sv_silos sv)"
  then have "p < length (sv_heap sv)" using assms unfolding sv_inv_def table_ok_def by fastforce
  then show "alike (sv_heap sv ! p) (sv_heap (sv\<lparr>sv_heap := sv_heap sv @ [s]\<rparr>) ! p)" by (simp add: nth_append)
qed (use procs_bound [OF assms] in \<open>auto intro: less_SucI\<close>)

text \<open>The table around one entry.\<close>

lemma table_split:
  assumes "table_ok sv" "go_lookup (sv_silos sv) n = Some p"
  obtains xs ys where "sv_silos sv = xs @ (n, p) # ys" "n \<notin> fst ` set (xs @ ys)" "p \<notin> snd ` set (xs @ ys)"
proof -
  from table_lookup(1) [OF assms] obtain xs ys where s: "sv_silos sv = xs @ (n, p) # ys" by (meson split_list)
  moreover from assms(1) have "n \<notin> fst ` set (xs @ ys)" "p \<notin> snd ` set (xs @ ys)"
    unfolding table_ok_def wf_map_def s by auto
  ultimately show thesis using that by blast
qed

definition entries_owe :: "Silo list \<Rightarrow> (string, nat) gomap \<Rightarrow> ip list" where
  "entries_owe heap m = concat (map (\<lambda>(_, p). running_owes (heap ! p)) m)"

lemma owed_entries: "owed sv = entries_owe (sv_heap sv) (sv_silos sv)"
  by (simp add: owed_def entries_owe_def)

lemma entries_owe_append [simp]: "entries_owe heap (xs @ ys) = entries_owe heap xs @ entries_owe heap ys"
  and entries_owe_Cons [simp]: "entries_owe heap ((n, p) # ys) = running_owes (heap ! p) @ entries_owe heap ys"
  and entries_owe_Nil [simp]: "entries_owe heap [] = []"
  by (simp_all add: entries_owe_def)

lemma entries_owe_update: "p \<notin> snd ` set m \<Longrightarrow> entries_owe (heap[p := s]) m = entries_owe heap m"
  by (induction m) (auto simp: entries_owe_def)

lemma delete_split: "n \<notin> fst ` set (xs @ ys) \<Longrightarrow> go_delete n (xs @ (n, p) # ys) = xs @ ys"
  by (induction xs) (auto simp: AList.delete_eq filter_id_conv intro!: filter_True, force+)

lemma insert_fresh: "go_lookup m n = None \<Longrightarrow> go_insert n p m = m @ [(n, p)]"
  by (induction m) (auto split: if_splits)

text \<open>Giving back addresses that are in use and no longer owed.\<close>

lemma pool_ok_release:
  assumes "pool_ok p0 k held sv" "set xs \<subseteq> set (held @ owed sv)" "distinct xs"
    and "sv_ipPool sv' = FreeAssignment xs (sv_ipPool sv)"
    and "distinct (held' @ owed sv')" "set (held' @ owed sv') \<subseteq> set (held @ owed sv) - set xs"
  shows "pool_ok p0 k held' sv'"
proof -
  from assms(1) obtain out where o: "pool_run p0 k (sv_ipPool sv) out" "set (held @ owed sv) \<subseteq> set out"
    by (auto simp: pool_ok_def)
  have "pool_run p0 k (sv_ipPool sv') (filter (\<lambda>x. x \<notin> set xs) out)"
    unfolding assms(4) by (rule pool_run.release [OF o(1)]) (use assms(2,3) o(2) in auto)
  moreover have "set (held' @ owed sv') \<subseteq> set (filter (\<lambda>x. x \<notin> set xs) out)" using assms(6) o(2) by auto
  ultimately show ?thesis using assms(5) unfolding pool_ok_def by blast
qed


subsection \<open>Stopping\<close>

lemma stored_finished:
  "stored_ok n s \<Longrightarrow> stored_ok n (s\<lparr>s_State := StateFinished\<rparr>)"
  by (auto simp: stored_ok_def net_silo_def ifs_ok_def)

text \<open>What stopping does to the server: the silo is closed or not, its addresses are given back as far as that got.\<close>

lemma stop_cases:
  assumes "stopSiloInternal h n sv t = (r, sv', t')"
  shows "go_lookup (sv_silos sv) n = None \<and> sv' = sv \<and> (\<exists>e. r = Err e) \<or>
    (\<exists>p s' xs md. go_lookup (sv_silos sv) n = Some p \<and>
       (md = (if md_isClosing (sv_meta sv) then sv_meta sv else md_stopped n (s_IDHex (sv_heap sv ! p)) (sv_meta sv))) \<and>
       (s' = sv_heap sv ! p \<and> xs = [] \<or>
        s_State (sv_heap sv ! p) = StateRunning \<and> s' = (sv_heap sv ! p)\<lparr>s_State := StateFinished\<rparr> \<and>
          (\<exists>n. xs = concat (map if_owes (take n (s_Interfaces (sv_heap sv ! p)))))) \<and>
       sv' = sv\<lparr>sv_meta := md, sv_heap := (sv_heap sv)[p := s'], sv_ipPool := FreeAssignment xs (sv_ipPool sv),
                sv_silos := (if r = Ok () then go_delete n (sv_silos sv) else sv_silos sv)\<rparr>)"
proof (cases "go_lookup (sv_silos sv) n")
  case None
  with assms show ?thesis by (auto simp: stopSiloInternal_def)
next
  case (Some p)
  let ?s = "sv_heap sv ! p"
  let ?e = "\<lparr>ev_event = eventSiloStopped, ev_Name = n, ev_ID = s_IDHex ?s, ev_tags = [], ev_interfaces = [], ev_silo = p\<rparr>"
  obtain md t1 where md: "HostEvent h ?e (sv_meta sv) t = (md, t1)" by fastforce
  obtain r1 s' pool t2 where c: "Close h ?s (sv_ipPool sv) t1 = (r1, s', pool, t2)" by (cases "Close h ?s (sv_ipPool sv) t1")
  have m: "md = (if md_isClosing (sv_meta sv) then sv_meta sv else md_stopped n (s_IDHex ?s) (sv_meta sv))"
    using md HostEvent_stopped [of ?e "sv_meta sv" h t] HostEvent_closing [of "sv_meta sv" h ?e t] by auto
  have sv': "sv' = sv\<lparr>sv_meta := md, sv_heap := (sv_heap sv)[p := s'], sv_ipPool := pool,
      sv_silos := (if r = Ok () then go_delete n (sv_silos sv) else sv_silos sv)\<rparr>"
    using assms Some md c by (cases r1) (auto simp: stopSiloInternal_def)
  from Close_cases [OF c] obtain xs where "pool = FreeAssignment xs (sv_ipPool sv)"
    "s' = ?s \<and> xs = [] \<or> s_State ?s = StateRunning \<and> s' = ?s\<lparr>s_State := StateFinished\<rparr> \<and>
       (\<exists>n. xs = concat (map if_owes (take n (s_Interfaces ?s))))"
    by (metis FreeAssignment_Nil)
  with Some m sv' show ?thesis by blast
qed

lemma owes_prefix: "\<exists>ys. concat (map f xs) = concat (map f (take n xs)) @ ys"
  by (metis append_take_drop_id concat_append map_append)

lemma table_update:
  assumes "table_ok sv" "go_lookup (sv_silos sv) n = Some p" "stored_ok n s"
  shows "table_ok (sv\<lparr>sv_heap := (sv_heap sv)[p := s]\<rparr>)"
proof -
  obtain as bs where sp: "sv_silos sv = as @ (n, p) # bs" "p \<notin> snd ` set (as @ bs)" by (rule table_split [OF assms(1,2)])
  have "stored_ok m ((sv_heap sv)[p := s] ! q)" if "(m, q) \<in> set (sv_silos sv)" for m q
  proof (cases "q = p")
    case True
    with that sp have "m = n" by force
    with True assms(3) table_lookup(2) [OF assms(1,2)] show ?thesis by simp
  next
    case False
    with that assms(1) show ?thesis by (auto simp: table_ok_def)
  qed
  with assms(1) show ?thesis by (auto simp: table_ok_def)
qed

lemma table_delete: "table_ok sv \<Longrightarrow> table_ok (sv\<lparr>sv_silos := go_delete n (sv_silos sv)\<rparr>)"
  by (auto simp: table_ok_def wf_map_def AList.delete_eq distinct_map_filter)

lemma table_cong: "table_ok sv \<Longrightarrow> sv_silos sv' = sv_silos sv \<Longrightarrow> sv_heap sv' = sv_heap sv \<Longrightarrow> table_ok sv'"
  by (simp add: table_ok_def)

lemma meta_stopped:
  assumes "sv_inv p0 k held sv" "go_lookup (sv_silos sv) n = Some p"
    and m: "sv_meta sv' = (if md_isClosing (sv_meta sv) then sv_meta sv else md_stopped n (s_IDHex (sv_heap sv ! p)) (sv_meta sv))"
    and s: "sv_silos sv' = sv_silos sv \<or> sv_silos sv' = go_delete n (sv_silos sv)"
    and hp: "sv_heap sv' = (sv_heap sv)[p := s']"
  shows "meta_ok sv'"
proof -
  have t: "table_ok sv" "meta_ok sv" using assms(1) by (simp_all add: sv_inv_def)
  have inv: "md_inv (sv_meta sv)" using t(2) by (simp add: meta_ok_def)
  show ?thesis
  proof (cases "md_isClosing (sv_meta sv)")
    case True
    with m inv show ?thesis by (simp add: meta_ok_def)
  next
    case False
    note l = listed_in_table [OF t(2) False]
    have k: "mi_ID i = s_IDHex (sv_heap sv ! p)" if "go_lookup (silosByName (sv_meta sv)) n = Some i" for i
      using l [OF that] assms(2) by (simp add: listed_ok_def Let_def)
    have md: "sv_meta sv' = md_stopped n (s_IDHex (sv_heap sv ! p)) (sv_meta sv)" using m False by simp
    have "go_lookup (sv_silos sv') n' = Some (mi_silo i) \<and> listed_ok sv' i"
      if "go_lookup (silosByName (sv_meta sv')) n' = Some i" for n' i
    proof -
      from that have n': "n' \<noteq> n" "go_lookup (silosByName (sv_meta sv)) n' = Some i"
        unfolding md dir.by_name_stopped by (auto split: if_splits)
      note e = l [OF n'(2)]
      have "mi_silo i \<noteq> p"
      proof
        assume "mi_silo i = p"
        with e assms(2) table_lookup(3) [OF t(1)] have "stored_ok n' (sv_heap sv ! p)" "stored_ok n (sv_heap sv ! p)" by auto
        with n'(1) show False by (simp add: stored_ok_def)
      qed
      with e n'(1) s hp show ?thesis by (auto simp: listed_ok_def Let_def delete_conv')
    qed
    moreover have "md_inv (sv_meta sv')" unfolding md by (rule dir.inv_stopped [OF inv k])
    ultimately show ?thesis by (simp add: meta_ok_def)
  qed
qed

lemma stop_inv:
  assumes inv: "sv_inv p0 k [] sv" and r: "stopSiloInternal h n sv t = (r, sv', t')"
  shows "sv_inv p0 k [] sv' \<and> (r = Ok () \<longrightarrow> go_lookup (sv_silos sv') n = None)"
proof (cases "go_lookup (sv_silos sv) n")
  case None
  with stop_cases [OF r] inv show ?thesis by auto
next
  case (Some p)
  then obtain s' xs md where
    md: "md = (if md_isClosing (sv_meta sv) then sv_meta sv else md_stopped n (s_IDHex (sv_heap sv ! p)) (sv_meta sv))"
    and s': "s' = sv_heap sv ! p \<and> xs = [] \<or>
        s_State (sv_heap sv ! p) = StateRunning \<and> s' = (sv_heap sv ! p)\<lparr>s_State := StateFinished\<rparr> \<and>
          (\<exists>n. xs = concat (map if_owes (take n (s_Interfaces (sv_heap sv ! p)))))"
    and sv': "sv' = sv\<lparr>sv_meta := md, sv_heap := (sv_heap sv)[p := s'], sv_ipPool := FreeAssignment xs (sv_ipPool sv),
                sv_silos := (if r = Ok () then go_delete n (sv_silos sv) else sv_silos sv)\<rparr>"
    using stop_cases [OF r] by auto
  note l = Some
  have t: "table_ok sv" "pool_ok p0 k [] sv" "procs_ok sv" using inv by (simp_all add: sv_inv_def)
  obtain as bs where sp: "sv_silos sv = as @ (n, p) # bs" "n \<notin> fst ` set (as @ bs)" "p \<notin> snd ` set (as @ bs)"
    by (rule table_split [OF t(1) l])
  note len = table_lookup(2) [OF t(1) l]
  have st: "stored_ok n s'" using s' stored_finished table_lookup(3) [OF t(1) l] by auto
  have "table_ok (sv\<lparr>sv_heap := (sv_heap sv)[p := s']\<rparr>)" by (rule table_update [OF t(1) l st])
  then have "table_ok sv'" using table_delete [of "sv\<lparr>sv_heap := (sv_heap sv)[p := s']\<rparr>" n] by (auto simp: sv' table_ok_def)
  moreover have "meta_ok sv'" by (rule meta_stopped [OF inv l, of sv' s']) (simp_all add: sv' md)
  moreover have "pool_ok p0 k [] sv'"
  proof -
    let ?A = "entries_owe (sv_heap sv) as" and ?B = "entries_owe (sv_heap sv) bs" and ?O = "running_owes (sv_heap sv ! p)"
    have o: "owed sv = ?A @ ?O @ ?B" by (simp add: owed_entries sp(1))
    have d: "distinct (?A @ ?O @ ?B)" using t(2) o by (metis pool_ok_def append_Nil)
    have u: "entries_owe ((sv_heap sv)[p := s']) as = ?A" "entries_owe ((sv_heap sv)[p := s']) bs = ?B"
      using sp(3) by (simp_all add: entries_owe_update image_Un)
    have o': "owed sv' = (if r = Ok () then ?A @ ?B else ?A @ running_owes s' @ ?B)"
      using len u by (simp add: owed_entries sv' sp(1) delete_split [OF sp(2)])
    have x: "\<exists>ys. ?O = xs @ ys" and e: "running_owes s' = (if xs = [] \<and> s' = sv_heap sv ! p then ?O else [])"
      using s' owes_prefix [where f = if_owes] by (auto simp: running_owes_def)
    show ?thesis
      by (rule pool_ok_release [OF t(2), of xs]) (use o o' d x e in \<open>auto simp: sv' split: if_splits\<close>)
  qed
  moreover have "procs_ok sv'" using t(3) by (simp add: procs_ok_def sv')
  ultimately show ?thesis by (simp add: sv_inv_def sv' delete_conv')
qed


subsection \<open>Launching\<close>

text \<open>A silo that a request has made and not entered into the table yet.\<close>

definition fresh_at :: "IPPool \<Rightarrow> nat \<Rightarrow> ip list \<Rightarrow> string \<Rightarrow> nat \<Rightarrow> (Silo \<Rightarrow> bool) \<Rightarrow> Server \<Rightarrow> bool" where
  "fresh_at p0 k held n p R sv \<longleftrightarrow> sv_inv p0 k held sv \<and> p < length (sv_heap sv) \<and> p \<notin> snd ` set (sv_silos sv) \<and>
     go_lookup (sv_silos sv) n = None \<and> R (sv_heap sv ! p)"

text \<open>The silo as it was made, initialised, and started.\<close>

definition made :: "string \<Rightarrow> IPInterface \<Rightarrow> Silo \<Rightarrow> bool" where
  "made n i s \<longleftrightarrow> s_Name s = n \<and> net_silo i s \<and> \<not> isSetup i \<and> s_State s \<noteq> StateRunning"

definition pending :: "string \<Rightarrow> IPInterface \<Rightarrow> Silo \<Rightarrow> bool" where
  "pending n i s \<longleftrightarrow> s_Name s = n \<and> net_silo i s \<and> \<not> isSetup i \<and> s_State s = StatePending \<and> s_child s \<noteq> None"

definition same_net :: "IPInterface \<Rightarrow> IPInterface \<Rightarrow> bool" where
  "same_net i j \<longleftrightarrow> Slice j = Slice i \<and> BridgeIP j = BridgeIP i \<and> SiloIP j = SiloIP i \<and> Freeer j = Freeer i"

lemma setup_two:
  assumes "setup_loop (Setup h pid k) 0 [IPInterf i, LoopbackInterface] t = (r, is, t')"
  shows "\<exists>j. is = [IPInterf j, LoopbackInterface] \<and> same_net i j"
  using assms by (auto simp: same_net_def Let_def dest: ip_Setup_frame split: prod.splits res.splits)

lemma Start_net:
  assumes "Start h s t = (r, s', t')" "pending n i s"
  shows "s_Name s' = n \<and> s_State s' = StateRunning \<and> (\<exists>j. net_silo j s' \<and> same_net i j) \<and>
    (r = Ok () \<longrightarrow> stored_ok n s' \<and> running_owes s' = Slice i)"
proof -
  have p: "s_State s = StatePending" "s_child s \<noteq> None" "s_Interfaces s = [IPInterf i, LoopbackInterface]" "s_Name s = n"
    "Freeer i" "\<exists>u1 u2. Slice i = [BridgeIP i, SiloIP i, u1, u2]" "\<not> isSetup i"
    using assms(2) by (auto simp: pending_def net_silo_def)
  from Start_cases [OF assms(1)] p consider
      e where "r = Err e" "s' = s\<lparr>s_State := StateRunning\<rparr>"
    | cmd pid r1 ifs t1 t2 cs where "setup_loop (Setup h pid (s_IDHex s)) 0 (s_Interfaces s) t1 = (r1, ifs, t2)"
        "s_child s = Some cmd" "s' = started_silo s cmd pid ifs cs" by auto
  then show ?thesis
  proof cases
    case 1
    moreover have "net_silo i s'" using 1 assms(2) by (simp add: pending_def net_silo_def)
    ultimately show ?thesis using p by (auto simp: same_net_def)
  next
    case 2
    from 2(1) p(3) obtain j where j: "ifs = [IPInterf j, LoopbackInterface]" "same_net i j" using setup_two by metis
    have net: "net_silo j s'" using p(5,6) j 2(3) by (auto simp: net_silo_def same_net_def started_silo_def)
    have "list_all wf_if ifs" using setup_loop_wf [OF _ 2(1)] p(3,7) by simp
    then have "stored_ok n s'" using net 2(3) p(4) by (auto simp: stored_ok_def started_silo_def ifs_ok_def)
    moreover have "running_owes s' = Slice i" using j p(5) 2(3) by (simp add: running_owes_def started_silo_def same_net_def)
    ultimately show ?thesis using net j(2) 2(3) p(4) by (auto simp: started_silo_def)
  qed
qed

lemma Init_net:
  assumes "Init h s t = (r, s', t')" "made n i s"
  shows "case r of Ok _ \<Rightarrow> pending n i s' | Err e \<Rightarrow> made n i s' | Crash x \<Rightarrow> True"
  using Init_cases [OF assms(1)] assms(2)
  by (auto simp: made_def pending_def net_silo_def init_frame_def split: res.splits)

lemma NewSilo_made:
  assumes "NewSilo h n opts t = (Ok s, t')" "o_Interfaces opts = [IPInterf i, LoopbackInterface]" "Freeer i" "\<not> isSetup i"
    "\<exists>u1 u2. Slice i = [BridgeIP i, SiloIP i, u1, u2]"
  shows "made n i s"
  using NewSilo_ok [OF assms(1)] assms(2-5) by (simp add: made_def net_silo_def)

lemma fresh_update:
  assumes "fresh_at p0 k held n p R sv" "R' s"
  shows "fresh_at p0 k held n p R' (sv\<lparr>sv_heap := (sv_heap sv)[p := s]\<rparr>)"
  using assms inv_update by (simp add: fresh_at_def)

lemma spec_alloc:
  assumes "\<And>sv. P sv \<Longrightarrow> sv_inv p0 k held sv \<and> go_lookup (sv_silos sv) n = None" "R s"
  shows "spec P (alloc_silo s) (\<lambda>p. fresh_at p0 k held n p R) E C"
proof (rule specI)
  fix sv t r sv' t'
  assume p: "P sv" and a: "alloc_silo s sv t = (r, sv', t')"
  from assms(1) [OF p] have i: "sv_inv p0 k held sv" "go_lookup (sv_silos sv) n = None" by auto
  have "length (sv_heap sv) \<notin> snd ` set (sv_silos sv)" using i(1) by (auto simp: sv_inv_def table_ok_def)
  with a i assms(2) inv_alloc [OF i(1), of s] show "case r of Ok p \<Rightarrow> fresh_at p0 k held n p R sv' | Err e \<Rightarrow> E sv' | Crash x \<Rightarrow> C sv'"
    by (auto simp: alloc_silo_def fresh_at_def)
qed

lemma spec_Init:
  "spec (fresh_at p0 k held n p (made n i)) (silo_Init h p) (\<lambda>_. fresh_at p0 k held n p (pending n i))
     (fresh_at p0 k held n p (made n i)) (sv_inv p0 k held)"
proof (rule specI)
  fix sv t r sv' t'
  assume f: "fresh_at p0 k held n p (made n i) sv" and a: "silo_Init h p sv t = (r, sv', t')"
  obtain r1 s' t1 where c: "Init h (sv_heap sv ! p) t = (r1, s', t1)" by (cases "Init h (sv_heap sv ! p) t")
  have m: "made n i (sv_heap sv ! p)" using f by (simp add: fresh_at_def)
  note d = Init_net [OF c m]
  from a c have sv': "r = r1" "sv' = sv\<lparr>sv_heap := (sv_heap sv)[p := s']\<rparr>" by (auto simp: silo_Init_def)
  have "sv_inv p0 k held sv'" using f inv_update [of p0 k held sv p s'] unfolding sv'(2) by (simp add: fresh_at_def)
  with d show "case r of Ok x \<Rightarrow> fresh_at p0 k held n p (pending n i) sv' | Err e \<Rightarrow> fresh_at p0 k held n p (made n i) sv'
      | Crash x \<Rightarrow> sv_inv p0 k held sv'"
    unfolding sv' by (cases r1) (auto intro: fresh_update [OF f])
qed

definition started :: "string \<Rightarrow> IPInterface \<Rightarrow> Silo \<Rightarrow> bool" where
  "started n i s \<longleftrightarrow> s_Name s = n \<and> s_State s = StateRunning \<and> (\<exists>j. net_silo j s \<and> same_net i j)"

lemma spec_Start:
  "spec (fresh_at p0 k held n p (pending n i)) (silo_Start h p)
     (\<lambda>_. fresh_at p0 k held n p (\<lambda>s. stored_ok n s \<and> s_State s = StateRunning \<and> running_owes s = Slice i))
     (fresh_at p0 k held n p (started n i)) (sv_inv p0 k held)"
proof (rule specI)
  fix sv t r sv' t'
  assume f: "fresh_at p0 k held n p (pending n i) sv" and a: "silo_Start h p sv t = (r, sv', t')"
  obtain r1 s' t1 where c: "Start h (sv_heap sv ! p) t = (r1, s', t1)" by (cases "Start h (sv_heap sv ! p) t")
  have m: "pending n i (sv_heap sv ! p)" using f by (simp add: fresh_at_def)
  note d = Start_net [OF c m]
  from a c have sv': "r = r1" "sv' = sv\<lparr>sv_heap := (sv_heap sv)[p := s']\<rparr>" by (auto simp: silo_Start_def)
  have "sv_inv p0 k held sv'" using f inv_update [of p0 k held sv p s'] unfolding sv'(2) by (simp add: fresh_at_def)
  with d show "case r of Ok x \<Rightarrow> fresh_at p0 k held n p (\<lambda>s. stored_ok n s \<and> s_State s = StateRunning \<and> running_owes s = Slice i) sv'
      | Err e \<Rightarrow> fresh_at p0 k held n p (started n i) sv' | Crash x \<Rightarrow> sv_inv p0 k held sv'"
    unfolding sv' by (cases r1) (auto intro!: fresh_update [OF f] simp: started_def)
qed


lemma spec_Close_made:
  "spec (fresh_at p0 k held n p (made n i)) (silo_Close h p) (\<lambda>_. sv_inv p0 k held) (sv_inv p0 k held) (sv_inv p0 k held)"
proof (rule specI)
  fix sv t r sv' t'
  assume f: "fresh_at p0 k held n p (made n i) sv" and a: "silo_Close h p sv t = (r, sv', t')"
  obtain r1 s' pool t1 where c: "Close h (sv_heap sv ! p) (sv_ipPool sv) t = (r1, s', pool, t1)"
    by (cases "Close h (sv_heap sv ! p) (sv_ipPool sv) t")
  have "s' = sv_heap sv ! p" "pool = sv_ipPool sv" using Close_cases [OF c] f by (auto simp: fresh_at_def made_def)
  with a c have "sv' = sv" by (auto simp: silo_Close_def)
  with f show "case r of Ok x \<Rightarrow> sv_inv p0 k held sv' | Err e \<Rightarrow> sv_inv p0 k held sv' | Crash x \<Rightarrow> sv_inv p0 k held sv'"
    by (simp add: fresh_at_def split: res.splits)
qed

lemma inv_release:
  assumes "sv_inv p0 k held sv" "set xs \<subseteq> set held" "distinct xs"
  shows "sv_inv p0 k [] (sv\<lparr>sv_ipPool := FreeAssignment xs (sv_ipPool sv)\<rparr>)"
proof -
  let ?sv = "sv\<lparr>sv_ipPool := FreeAssignment xs (sv_ipPool sv)\<rparr>"
  have i: "table_ok sv" "meta_ok sv" "pool_ok p0 k held sv" "procs_ok sv" using assms(1) by (simp_all add: sv_inv_def)
  have o: "owed ?sv = owed sv" by (simp add: owed_def)
  have "pool_ok p0 k [] ?sv"
    by (rule pool_ok_release [OF i(3), of xs]) (use i(3) assms o in \<open>auto simp: pool_ok_def\<close>)
  with i show ?thesis by (simp add: sv_inv_def table_ok_def meta_ok_def procs_ok_def listed_ok_def)
qed

lemma spec_Close_started:
  assumes "Freeer i"
  shows "spec (fresh_at p0 k (Slice i) n p (started n i)) (silo_Close h p) (\<lambda>_. sv_inv p0 k []) (sv_inv p0 k []) (sv_inv p0 k [])"
proof (rule specI)
  fix sv t r sv' t'
  assume f: "fresh_at p0 k (Slice i) n p (started n i) sv" and a: "silo_Close h p sv t = (r, sv', t')"
  obtain r1 s' pool t1 where c: "Close h (sv_heap sv ! p) (sv_ipPool sv) t = (r1, s', pool, t1)"
    by (cases "Close h (sv_heap sv ! p) (sv_ipPool sv) t")
  have i: "sv_inv p0 k (Slice i) sv" "p \<notin> snd ` set (sv_silos sv)" using f by (simp_all add: fresh_at_def)
  from f assms have o: "concat (map if_owes (s_Interfaces (sv_heap sv ! p))) = Slice i"
    by (auto simp: fresh_at_def started_def net_silo_def same_net_def)
  obtain xs where xs: "pool = FreeAssignment xs (sv_ipPool sv)" "\<exists>ys. Slice i = xs @ ys"
  proof -
    from Close_cases [OF c] consider "pool = sv_ipPool sv"
      | m where "pool = FreeAssignment (concat (map if_owes (take m (s_Interfaces (sv_heap sv ! p))))) (sv_ipPool sv)" by blast
    then show thesis
    proof cases
      case 1
      then show thesis using that [of "[]"] by (simp add: FreeAssignment_Nil)
    next
      case (2 m)
      then show thesis using that [OF 2] owes_prefix [of if_owes "s_Interfaces (sv_heap sv ! p)" m] o by simp
    qed
  qed
  from a c xs have sv': "sv' = (sv\<lparr>sv_heap := (sv_heap sv)[p := s']\<rparr>)
      \<lparr>sv_ipPool := FreeAssignment xs (sv_ipPool (sv\<lparr>sv_heap := (sv_heap sv)[p := s']\<rparr>))\<rparr>"
    by (auto simp: silo_Close_def)
  have "distinct (Slice i)" using i(1) by (auto simp: sv_inv_def pool_ok_def)
  then have "sv_inv p0 k [] sv'"
    unfolding sv' using xs(2) by (intro inv_release [OF inv_update [OF i]]) auto
  then show "case r of Ok x \<Rightarrow> sv_inv p0 k [] sv' | Err e \<Rightarrow> sv_inv p0 k [] sv' | Crash x \<Rightarrow> sv_inv p0 k [] sv'"
    by (simp split: res.splits)
qed

lemma spec_free: "spec (sv_inv p0 k (Slice i)) (free_slice i) (\<lambda>_. sv_inv p0 k []) E C"
proof -
  have "distinct (Slice i)" if "sv_inv p0 k (Slice i) sv" for sv using that by (auto simp: sv_inv_def pool_ok_def)
  then show ?thesis unfolding free_slice_def by (intro spec_modify inv_release) auto
qed

text \<open>A started silo enters the table: its addresses are now owed instead of held.\<close>

definition meta_entered :: "Server \<Rightarrow> nat \<Rightarrow> metadataService \<Rightarrow> bool" where
  "meta_entered sv p md \<longleftrightarrow> (let s = sv_heap sv ! p in
     if md_isClosing (sv_meta sv) then md = sv_meta sv
     else \<exists>i. md = md_started i (sv_meta sv) \<and> mi_Name i = s_Name s \<and> mi_ID i = s_IDHex s \<and> mi_silo i = p \<and>
        mi_Interfaces i = described s \<and> mi_Tags i = s_Tags s)"

lemma enter_silo_effect:
  assumes "go_lookup (sv_silos sv) n = None"
  obtains md t' where "enter_silo h n p sv t =
      (Ok (), sv\<lparr>sv_silos := sv_silos sv @ [(n, p)], sv_meta := md, sv_spawned := sv_spawned sv @ [p]\<rparr>, t')"
    "meta_entered sv p md"
proof -
  let ?s = "sv_heap sv ! p"
  let ?e = "\<lparr>ev_event = eventSiloStarted, ev_Name = s_Name ?s, ev_ID = s_IDHex ?s, ev_tags = s_Tags ?s,
      ev_interfaces = described ?s, ev_silo = p\<rparr>"
  obtain md t' where md: "HostEvent h ?e (sv_meta sv) t = (md, t')" by fastforce
  have e: "enter_silo h n p sv t =
      (Ok (), sv\<lparr>sv_silos := sv_silos sv @ [(n, p)], sv_meta := md, sv_spawned := sv_spawned sv @ [p]\<rparr>, t')"
    using md by (simp add: enter_silo_def srv_defs buildSiloStartedMetadataEvent_def describeInterfaces_plain io_defs
        insert_fresh [OF assms] described_def)
  have "meta_entered sv p md"
  proof (cases "md_isClosing (sv_meta sv)")
    case True
    with md HostEvent_closing [OF True] show ?thesis by (simp add: meta_entered_def)
  next
    case False
    obtain i t2 where "HostEvent h ?e (sv_meta sv) t = (md_started i (sv_meta sv), t2)" "mi_Name i = ev_Name ?e" "mi_ID i = ev_ID ?e"
      "mi_silo i = ev_silo ?e" "mi_Interfaces i = ev_interfaces ?e" "mi_Tags i = ev_tags ?e"
      by (rule HostEvent_started [of ?e "sv_meta sv" h t]) (use False in auto)
    with md False show ?thesis by (auto simp: meta_entered_def Let_def)
  qed
  with e that show thesis by blast
qed

lemma meta_started:
  assumes t: "table_ok sv" "meta_ok sv" and f: "go_lookup (sv_silos sv) n = None"
    and s: "stored_ok n (sv_heap sv ! p)" "s_State (sv_heap sv ! p) = StateRunning"
    and sv': "sv' = sv\<lparr>sv_silos := sv_silos sv @ [(n, p)], sv_meta := md, sv_spawned := sp\<rparr>"
    and md: "meta_entered sv p md"
  shows "meta_ok sv'"
proof (cases "md_isClosing (sv_meta sv)")
  case True
  with md t(2) show ?thesis by (simp add: sv' meta_ok_def meta_entered_def)
next
  case False
  with md s(1) obtain i where i: "md = md_started i (sv_meta sv)" "mi_Name i = n"
    "mi_ID i = s_IDHex (sv_heap sv ! p)" "mi_silo i = p" "mi_Interfaces i = described (sv_heap sv ! p)"
    by (auto simp: stored_ok_def meta_entered_def Let_def)
  have inv: "md_inv (sv_meta sv)" using t(2) by (simp add: meta_ok_def)
  have new: "md_inv md \<and> (\<forall>m j. go_lookup (silosByName md) m = Some j \<longrightarrow> ((go_lookup (sv_silos sv))(n \<mapsto> p)) m = Some (mi_silo j))"
    unfolding i(1) using dir.listed_started [OF inv, of "go_lookup (sv_silos sv)" mi_silo i] listed_in_table [OF t(2) False] f i(2,4) by auto
  moreover have "listed_ok sv' j" if "go_lookup (silosByName md) m = Some j" for m j
    using that listed_in_table [OF t(2) False] i s(2) unfolding i(1) dir.by_name_started
    by (auto simp: listed_ok_def Let_def sv' split: if_splits)
  moreover have "go_lookup (sv_silos sv @ [(n, p)]) = (go_lookup (sv_silos sv))(n \<mapsto> p)"
    using f by (auto simp: fun_eq_iff map_add_def split: option.splits)
  ultimately show ?thesis by (simp add: meta_ok_def sv')
qed

lemma spec_enter:
  "spec (fresh_at p0 k (Slice i) n p (\<lambda>s. stored_ok n s \<and> s_State s = StateRunning \<and> running_owes s = Slice i)) (enter_silo h n p)
     (\<lambda>_. sv_inv p0 k []) E C"
proof (rule specI)
  fix sv t r sv' t'
  assume f: "fresh_at p0 k (Slice i) n p (\<lambda>s. stored_ok n s \<and> s_State s = StateRunning \<and> running_owes s = Slice i) sv"
    and a: "enter_silo h n p sv t = (r, sv', t')"
  have t: "table_ok sv" "meta_ok sv" "pool_ok p0 k (Slice i) sv" "procs_ok sv" and l: "p < length (sv_heap sv)"
    "p \<notin> snd ` set (sv_silos sv)" "go_lookup (sv_silos sv) n = None" and s: "stored_ok n (sv_heap sv ! p)"
    "s_State (sv_heap sv ! p) = StateRunning" "running_owes (sv_heap sv ! p) = Slice i"
    using f by (simp_all add: fresh_at_def sv_inv_def)
  obtain md t1 where e: "enter_silo h n p sv t =
      (Ok (), sv\<lparr>sv_silos := sv_silos sv @ [(n, p)], sv_meta := md, sv_spawned := sv_spawned sv @ [p]\<rparr>, t1)"
    and md: "meta_entered sv p md" by (rule enter_silo_effect [OF l(3)])
  from a e have r: "r = Ok ()" and
    sv': "sv' = sv\<lparr>sv_silos := sv_silos sv @ [(n, p)], sv_meta := md, sv_spawned := sv_spawned sv @ [p]\<rparr>" by simp_all
  have "n \<notin> fst ` set (sv_silos sv)" using l(3) by (simp add: map_of_eq_None_iff)
  then have "table_ok sv'" using t(1) l s(1) by (auto simp: table_ok_def sv' wf_map_def)
  moreover have "meta_ok sv'" by (rule meta_started [OF t(1,2) l(3) s(1,2) sv' md])
  moreover have "owed sv' = owed sv @ Slice i" by (simp add: owed_entries sv' s(3))
  then have "pool_ok p0 k [] sv'" using t(3) by (auto simp: pool_ok_def sv' Int_commute)
  moreover have "procs_ok sv'" using t(4) l(1) by (auto simp: procs_ok_def sv')
  ultimately show "case r of Ok x \<Rightarrow> sv_inv p0 k [] sv' | Err e \<Rightarrow> E sv' | Crash x \<Rightarrow> C sv'" using r by (simp add: sv_inv_def)
qed


lemma sv_inv_forget: "sv_inv p0 k held sv \<Longrightarrow> sv_inv p0 k [] sv"
  using sv_inv_drop [of p0 k held "[]"] by simp

lemma spec_forget: "spec P m Q E (sv_inv p0 k held) \<Longrightarrow> spec P m Q E (sv_inv p0 k [])"
  by (erule spec_conseq) (auto intro: sv_inv_forget)

lemma spec_launch:
  assumes b: "o_Interfaces b = [IPInterf i, LoopbackInterface]"
    and i: "Freeer i" "\<not> isSetup i" "\<exists>u1 u2. Slice i = [BridgeIP i, SiloIP i, u1, u2]"
  shows "spec (\<lambda>sv. sv_inv p0 k (Slice i) sv \<and> go_lookup (sv_silos sv) n = None) (launch_silo h n i b)
     (\<lambda>_. sv_inv p0 k []) (sv_inv p0 k []) (sv_inv p0 k [])"
  unfolding launch_silo_def
proof (intro spec_bind)
  let ?P = "\<lambda>sv. sv_inv p0 k (Slice i) sv \<and> go_lookup (sv_silos sv) n = None"
  have fin: "o_Interfaces (Finalize h b) = [IPInterf i, LoopbackInterface]" using b by (simp add: Finalize_def)
  show "spec ?P (catch_s (io_s (NewSilo h n (Finalize h b))) (\<lambda>e. bind_s (free_slice i) (\<lambda>_. fail_s e)))
      (\<lambda>s sv. ?P sv \<and> made n i s) (sv_inv p0 k []) (sv_inv p0 k [])"
  proof (rule spec_catch [where R = ?P])
    show "spec ?P (io_s (NewSilo h n (Finalize h b))) (\<lambda>s sv. ?P sv \<and> made n i s) ?P (sv_inv p0 k [])"
      by (rule spec_io) (use NewSilo_made [OF _ fin i] sv_inv_forget in auto)
    show "spec ?P (bind_s (free_slice i) (\<lambda>_. fail_s e)) (\<lambda>s sv. ?P sv \<and> made n i s) (sv_inv p0 k []) (sv_inv p0 k [])" for e
      by (rule spec_bind [where R = "\<lambda>_. sv_inv p0 k []"],
          rule spec_conseq [OF spec_free [where E = "sv_inv p0 k []" and C = "sv_inv p0 k []"]]) (auto intro: spec_fail)
  qed
  fix s
  show "spec (\<lambda>sv. ?P sv \<and> made n i s) (alloc_silo s) (\<lambda>p. fresh_at p0 k (Slice i) n p (made n i)) (sv_inv p0 k []) (sv_inv p0 k [])"
    by (cases "made n i s")
       (rule spec_conseq [OF spec_alloc [where P = ?P and R = "made n i" and E = "sv_inv p0 k []" and C = "sv_inv p0 k []"]],
        auto simp: spec_def)
  fix p
  show "spec (fresh_at p0 k (Slice i) n p (made n i))
      (catch_s (silo_Init h p) (\<lambda>e. bind_s (catch_s (silo_Close h p) (\<lambda>_. ret_s ())) (\<lambda>_. bind_s (free_slice i) (\<lambda>_. fail_s e))))
      (\<lambda>_. fresh_at p0 k (Slice i) n p (pending n i)) (sv_inv p0 k []) (sv_inv p0 k [])"
  proof (rule spec_catch [OF spec_forget [OF spec_Init]])
    fix e
    show "spec (fresh_at p0 k (Slice i) n p (made n i))
        (bind_s (catch_s (silo_Close h p) (\<lambda>_. ret_s ())) (\<lambda>_. bind_s (free_slice i) (\<lambda>_. fail_s e)))
        (\<lambda>_. fresh_at p0 k (Slice i) n p (pending n i)) (sv_inv p0 k []) (sv_inv p0 k [])"
      by (rule spec_bind [where R = "\<lambda>_. sv_inv p0 k (Slice i)"], rule spec_catch [OF spec_forget [OF spec_Close_made]], rule spec_ret, assumption,
          rule spec_bind [OF spec_free], rule spec_fail)
  qed
  show "spec (fresh_at p0 k (Slice i) n p (pending n i))
      (catch_s (silo_Start h p) (\<lambda>e. bind_s (catch_s (silo_Close h p) (\<lambda>_. ret_s ())) (\<lambda>_. fail_s e)))
      (\<lambda>_. fresh_at p0 k (Slice i) n p (\<lambda>s. stored_ok n s \<and> s_State s = StateRunning \<and> running_owes s = Slice i))
      (sv_inv p0 k []) (sv_inv p0 k [])"
  proof (rule spec_catch [OF spec_forget [OF spec_Start]])
    fix e
    show "spec (fresh_at p0 k (Slice i) n p (started n i)) (bind_s (catch_s (silo_Close h p) (\<lambda>_. ret_s ())) (\<lambda>_. fail_s e))
        (\<lambda>_. fresh_at p0 k (Slice i) n p (\<lambda>s. stored_ok n s \<and> s_State s = StateRunning \<and> running_owes s = Slice i))
        (sv_inv p0 k []) (sv_inv p0 k [])"
      by (rule spec_bind [where R = "\<lambda>_. sv_inv p0 k []"], rule spec_catch [OF spec_Close_started [OF i(1)]], rule spec_ret, assumption, rule spec_fail)
  qed
  show "spec (fresh_at p0 k (Slice i) n p (\<lambda>s. stored_ok n s \<and> s_State s = StateRunning \<and> running_owes s = Slice i)) (enter_silo h n p)
      (\<lambda>_. sv_inv p0 k []) (sv_inv p0 k []) (sv_inv p0 k [])"
    by (rule spec_enter)
qed


subsection \<open>Requests\<close>

text \<open>The invariant after at most \<open>k\<close> assignments from the pool.\<close>

definition sv_ok :: "IPPool \<Rightarrow> nat \<Rightarrow> Server \<Rightarrow> bool" where
  "sv_ok p0 k sv \<longleftrightarrow> (\<exists>j \<le> k. sv_inv p0 j [] sv)"

lemma sv_ok_le: "sv_ok p0 k sv \<Longrightarrow> k \<le> k' \<Longrightarrow> sv_ok p0 k' sv"
  unfolding sv_ok_def using le_trans by blast

text \<open>A change that the invariant does not look at.\<close>

lemma inv_other:
  assumes "sv_inv p0 k held sv" "sv_silos sv' = sv_silos sv" "sv_meta sv' = sv_meta sv" "sv_ipPool sv' = sv_ipPool sv"
    "sv_heap sv' = sv_heap sv" "sv_spawned sv' = sv_spawned sv" "sv_waiting sv' = sv_waiting sv"
  shows "sv_inv p0 k held sv'"
  by (rule inv_cong [OF assms(1)]) (use assms procs_bound [OF assms(1)] in auto)

lemma sv_ok_other:
  assumes "sv_ok p0 k sv" "sv_silos sv' = sv_silos sv" "sv_meta sv' = sv_meta sv" "sv_ipPool sv' = sv_ipPool sv"
    "sv_heap sv' = sv_heap sv" "sv_spawned sv' = sv_spawned sv" "sv_waiting sv' = sv_waiting sv"
  shows "sv_ok p0 k sv'"
  using assms inv_other unfolding sv_ok_def by blast

lemma resolve_interfaces: "resolve_options c sc fs = Inr b \<Longrightarrow> o_Interfaces b = []"
proof -
  have image: "find_image k base imgs b = Inr b' \<Longrightarrow> o_Interfaces b' = o_Interfaces b" for k base imgs b b'
    by (induction imgs arbitrary: k) (auto simp: AddFS_def split: if_splits)
  have files: "o_Interfaces (resolveFiles fs b) = o_Interfaces b" for fs b
    by (induction fs b rule: resolveFiles.induct) (auto simp: AddFS_def)
  have binds: "resolveBinds specs ms b = Inr b' \<Longrightarrow> o_Interfaces b' = o_Interfaces b" for specs ms b b'
    by (induction specs ms b rule: resolveBinds.induct) (auto simp: AddFS_def split: option.splits)
  assume "resolve_options c sc fs = Inr b"
  then obtain b1 where "resolveBase c (cs_Base sc) (up_builder c sc) = Inr b1"
    "resolveBinds (c_Binds c) (cs_Binds sc) (resolveFiles fs b1) = Inr b"
    by (auto simp: resolve_options_def result_simps split: if_splits)
  then show ?thesis
    by (auto simp: resolveBase_def files AddFS_def up_builder_def dest!: binds image split: if_splits)
qed

lemma pool_interface_inv:
  assumes inv: "sv_inv p0 j [] sv" and p0: "pool_inv q n m p0 {}" "j + 4 \<le> m"
    and r: "pool_interface sv t = (r, sv', t')"
  shows "case r of Ok i \<Rightarrow> sv_inv p0 (j + 4) (Slice i) sv' \<and> Freeer i \<and> \<not> isSetup i \<and> (\<exists>u1 u2. Slice i = [BridgeIP i, SiloIP i, u1, u2])
    | Err e \<Rightarrow> sv_inv p0 (j + 4) [] sv' | Crash x \<Rightarrow> False"
proof -
  obtain ri pool where i: "pool_IPInterface (sv_ipPool sv) = (ri, pool)" by fastforce
  have sv': "sv' = sv\<lparr>sv_ipPool := pool\<rparr>" using r i by (auto simp: pool_interface_def)
  from inv obtain out where o: "pool_run p0 j (sv_ipPool sv) out" "distinct (owed sv)" "set (owed sv) \<subseteq> set out"
    by (auto simp: sv_inv_def pool_ok_def)
  have same: "table_ok sv'" "meta_ok sv'" "procs_ok sv'" "owed sv' = owed sv"
    using inv by (auto simp: sv_inv_def sv' table_ok_def meta_ok_def listed_ok_def procs_ok_def owed_def)
  show ?thesis
  proof (cases ri)
    case (Inl e)
    then have "pool_run p0 (j + 4) pool out" using pool_run.iface_fail [OF o(1)] i by simp
    then show ?thesis using r i Inl same o by (auto simp: pool_interface_def sv_inv_def pool_ok_def sv')
  next
    case (Inr net)
    then have run: "pool_run p0 (j + 4) pool (Slice net @ out)" using pool_run.iface [OF o(1)] i by simp
    then have "distinct (Slice net @ out)" using pool_run_inv [OF run p0] by blast
    then have "sv_inv p0 (j + 4) (Slice net) sv'"
      using run same o unfolding sv_inv_def pool_ok_def sv' by (auto intro!: exI [of _ "Slice net @ out"])
    then show ?thesis using r i Inr pool_IPInterface_fields [of "sv_ipPool sv" net pool] by (auto simp: pool_interface_def)
  qed
qed

lemma spec_start:
  assumes p0: "pool_inv q n m p0 {}" "k + 4 \<le> m"
  shows "spec (\<lambda>sv. sv_ok p0 k sv \<and> go_lookup (sv_silos sv) (cs_Name sc) = None) (startSiloInternal h sc fs)
    (\<lambda>_. sv_ok p0 (k + 4)) (sv_ok p0 (k + 4)) (sv_ok p0 (k + 4))"
proof (rule specI)
  fix sv t r sv' t'
  assume a: "sv_ok p0 k sv \<and> go_lookup (sv_silos sv) (cs_Name sc) = None" and s: "startSiloInternal h sc fs sv t = (r, sv', t')"
  then obtain j where j: "j \<le> k" "sv_inv p0 j [] sv" by (auto simp: sv_ok_def)
  show "case r of Ok x \<Rightarrow> sv_ok p0 (k + 4) sv' | Err e \<Rightarrow> sv_ok p0 (k + 4) sv' | Crash x \<Rightarrow> sv_ok p0 (k + 4) sv'"
  proof (cases "resolve_options (sv_config sv) sc fs")
    case (Inl e)
    then have "sv' = sv" using s by (auto simp: startSiloInternal_def srv_defs)
    with a sv_ok_le [of p0 k sv "k + 4"] show ?thesis by (simp split: res.splits)
  next
    case (Inr b)
    obtain r1 sv1 t1 where i: "pool_interface sv t = (r1, sv1, t1)" by (cases "pool_interface sv t")
    have sv1: "sv_silos sv1 = sv_silos sv" using i by (auto simp: pool_interface_def Let_def split: prod.splits)
    note pi = pool_interface_inv [OF j(2) p0(1) _ i]
    show ?thesis
    proof (cases r1)
      case (Ok net0)
      let ?net = "net0\<lparr>InternetAccess := n_InternetAccess (cs_Network sc)\<rparr>"
      have l: "launch_silo h (cs_Name sc) ?net (network_options sc ?net b) sv1 t1 = (r, sv', t')"
        using s Inr i Ok by (simp add: startSiloInternal_def srv_defs Let_def)
      have "sv_inv p0 (j + 4) (Slice ?net) sv1" "Freeer ?net" "\<not> isSetup ?net" "\<exists>u1 u2. Slice ?net = [BridgeIP ?net, SiloIP ?net, u1, u2]"
        using pi Ok p0(2) j(1) by auto
      moreover have "o_Interfaces (network_options sc ?net b) = [IPInterf ?net, LoopbackInterface]"
        using resolve_interfaces [OF Inr] by (simp add: network_options_def Let_def)
      ultimately have "sv_inv p0 (j + 4) [] sv'"
        using specD [OF spec_launch [of "network_options sc ?net b" ?net p0 "j + 4" "cs_Name sc" h] _ l] a sv1
        by (cases r) auto
      then show ?thesis using j(1) by (auto simp: sv_ok_def split: res.splits intro!: exI [of _ "j + 4"])
    next
      case (Err e)
      then have "r = Err e" "sv' = sv1" using s Inr i by (simp_all add: startSiloInternal_def srv_defs)
      then show ?thesis using pi Err p0(2) j(1) by (auto simp: sv_ok_def intro!: exI [of _ "j + 4"])
    next
      case (Crash x)
      then show ?thesis using pi p0(2) j(1) by simp
    qed
  qed
qed


lemma spec_crash: "(\<And>sv. P sv \<Longrightarrow> C sv) \<Longrightarrow> spec P (\<lambda>sv t. (Crash x, sv, t)) Q E C"
  by (simp add: spec_def)

text \<open>Programs that keep the invariant, however they end.\<close>

definition keeps_ok :: "IPPool \<Rightarrow> nat \<Rightarrow> nat \<Rightarrow> 'a srv \<Rightarrow> bool" where
  "keeps_ok p0 k k' m \<longleftrightarrow> spec (sv_ok p0 k) m (\<lambda>_. sv_ok p0 k') (sv_ok p0 k') (sv_ok p0 k')"

lemma keeps_okI:
  assumes "\<And>sv t. sv_ok p0 k sv \<Longrightarrow> sv_ok p0 k' (fst (snd (m sv t)))"
  shows "keeps_ok p0 k k' m"
  unfolding keeps_ok_def
proof (rule specI)
  fix sv t r sv' t'
  assume "sv_ok p0 k sv" "m sv t = (r, sv', t')"
  with assms [of sv t] show "case r of Ok x \<Rightarrow> sv_ok p0 k' sv' | Err e \<Rightarrow> sv_ok p0 k' sv' | Crash x \<Rightarrow> sv_ok p0 k' sv'"
    by (simp split: res.splits)
qed

lemma keeps_okD: "keeps_ok p0 k k' m \<Longrightarrow> sv_ok p0 k sv \<Longrightarrow> m sv t = (r, sv', t') \<Longrightarrow> sv_ok p0 k' sv'"
  unfolding keeps_ok_def by (drule (2) specD) (simp split: res.splits)

named_theorems keeps_ok_rules \<open>programs that keep the invariant of the server\<close>

lemma keeps_ok_le: "keeps_ok p0 k k m \<Longrightarrow> k \<le> k' \<Longrightarrow> keeps_ok p0 k k' m"
  unfolding keeps_ok_def by (erule spec_conseq) (auto elim: sv_ok_le)

lemma keeps_ok_ret [keeps_ok_rules]: "keeps_ok p0 k k (ret_s x)"
  by (simp add: keeps_ok_def spec_ret)

lemma keeps_ok_fail [keeps_ok_rules]: "keeps_ok p0 k k (fail_s e)"
  by (simp add: keeps_ok_def spec_fail)

lemma keeps_ok_crash [keeps_ok_rules]: "keeps_ok p0 k k (\<lambda>sv t. (Crash x, sv, t))"
  by (simp add: keeps_ok_def spec_crash)

lemma keeps_ok_get [keeps_ok_rules]: "keeps_ok p0 k k get_s"
  by (simp add: keeps_ok_def spec_get)

lemma keeps_ok_io [keeps_ok_rules]: "keeps_ok p0 k k (io_s m)"
  by (simp add: keeps_ok_def spec_io)

lemma keeps_ok_now [keeps_ok_rules]: "keeps_ok p0 k k (now_s h)"
  by (simp add: keeps_ok_def spec_def now_s_def)

lemma keeps_ok_modify:
  "(\<And>sv. sv_silos (f sv) = sv_silos sv \<and> sv_meta (f sv) = sv_meta sv \<and> sv_ipPool (f sv) = sv_ipPool sv \<and> sv_heap (f sv) = sv_heap sv \<and>
     sv_spawned (f sv) = sv_spawned sv \<and> sv_waiting (f sv) = sv_waiting sv) \<Longrightarrow> keeps_ok p0 k k (modify_s f)"
  unfolding keeps_ok_def by (rule spec_modify) (blast intro: sv_ok_other)

lemma keeps_ok_bind: "keeps_ok p0 k k m \<Longrightarrow> (\<And>x. keeps_ok p0 k k' (f x)) \<Longrightarrow> k \<le> k' \<Longrightarrow> keeps_ok p0 k k' (bind_s m f)"
  unfolding keeps_ok_def
  by (rule spec_bind [where R = "\<lambda>_. sv_ok p0 k"]) (auto elim!: spec_conseq intro: sv_ok_le)

lemma keeps_ok_catch: "keeps_ok p0 k k' m \<Longrightarrow> (\<And>e. keeps_ok p0 k' k' (g e)) \<Longrightarrow> keeps_ok p0 k k' (catch_s m g)"
  unfolding keeps_ok_def by (rule spec_catch [where R = "sv_ok p0 k'"])

lemma keeps_ok_raw:
  assumes "\<And>sv t. fst (snd (m sv t)) = sv"
  shows "keeps_ok p0 k k m"
  by (rule keeps_okI) (simp add: assms)

lemma spec_stop:
  "spec (sv_ok p0 k) (stopSiloInternal h n) (\<lambda>_ sv. sv_ok p0 k sv \<and> go_lookup (sv_silos sv) n = None) (sv_ok p0 k) (sv_ok p0 k)"
proof (rule specI)
  fix sv t r sv' t'
  assume "sv_ok p0 k sv" and r: "stopSiloInternal h n sv t = (r, sv', t')"
  then obtain j where j: "j \<le> k" "sv_inv p0 j [] sv" by (auto simp: sv_ok_def)
  from stop_inv [OF j(2) r] j(1)
  show "case r of Ok x \<Rightarrow> sv_ok p0 k sv' \<and> go_lookup (sv_silos sv') n = None | Err e \<Rightarrow> sv_ok p0 k sv' | Crash x \<Rightarrow> sv_ok p0 k sv'"
    by (auto simp: sv_ok_def split: res.splits)
qed

lemma keeps_ok_stop [keeps_ok_rules]: "keeps_ok p0 k k (stopSiloInternal h n)"
  unfolding keeps_ok_def by (rule spec_conseq [OF spec_stop]) auto

lemma keeps_ok_stop_request [keeps_ok_rules]: "keeps_ok p0 k k (stop_request h n)"
  unfolding stop_request_def by (intro keeps_ok_catch keeps_ok_bind keeps_ok_rules) simp

lemma keeps_ok_up:
  assumes p0: "pool_inv q n m p0 {}" "k + 4 \<le> m"
  shows "keeps_ok p0 k (k + 4) (siloUpHandler h req)"
proof (cases "rq_Up req")
  case (Inl e)
  then show ?thesis unfolding siloUpHandler_def by (simp add: keeps_ok_le keeps_ok_ret)
next
  case (Inr pkt)
  show ?thesis
  proof (cases "up_SiloConf pkt")
    case None
    with Inr show ?thesis unfolding siloUpHandler_def by (simp add: keeps_ok_le keeps_ok_crash)
  next
    case (Some sc)
    let ?rest = "\<lambda>sv'. case go_lookup (sv_silos sv') (cs_Name sc) of
                  None \<Rightarrow> (\<lambda>sv t. (Crash ''nil pointer dereference'', sv, t))
                | Some p \<Rightarrow>
                  bind_s (io_s (describeInterfaces h (sv_heap sv' ! p) False)) (\<lambda>is.
                    ret_s [WriteUp \<lparr>upr_IDHex = s_IDHex (sv_heap sv' ! p), upr_Interfaces = is\<rparr>])"
    let ?stop = "\<lambda>sv. if go_lookup (sv_silos sv) (cs_Name sc) \<noteq> None then stopSiloInternal h (cs_Name sc) else ret_s ()"
    have rest: "keeps_ok p0 (k + 4) (k + 4) (bind_s get_s ?rest)"
      by (intro keeps_ok_bind keeps_ok_rules) (auto split: option.splits intro!: keeps_ok_bind keeps_ok_rules)
    have stop: "spec (\<lambda>sv. sv = sv0 \<and> sv_ok p0 k sv) (?stop sv0) (\<lambda>_ sv. sv_ok p0 k sv \<and> go_lookup (sv_silos sv) (cs_Name sc) = None)
        (sv_ok p0 (k + 4)) (sv_ok p0 (k + 4))" for sv0
      using sv_ok_le [of p0 k _ "k + 4"] by (auto intro: spec_conseq [OF spec_stop] spec_ret)
    have "spec (sv_ok p0 k) (bind_s get_s (\<lambda>sv. bind_s (?stop sv) (\<lambda>_. bind_s (startSiloInternal h sc (up_Files pkt)) (\<lambda>_. bind_s get_s ?rest))))
        (\<lambda>_. sv_ok p0 (k + 4)) (sv_ok p0 (k + 4)) (sv_ok p0 (k + 4))"
      by (rule spec_bind [OF spec_get spec_bind [OF stop spec_bind [OF spec_start [OF p0]]]], simp, rule rest [unfolded keeps_ok_def])
    then have "keeps_ok p0 k (k + 4) (bind_s get_s (\<lambda>sv. bind_s (?stop sv) (\<lambda>_. bind_s (startSiloInternal h sc (up_Files pkt)) (\<lambda>_. bind_s get_s ?rest))))"
      by (simp only: keeps_ok_def)
    from keeps_ok_catch [OF this keeps_ok_ret] show ?thesis
      unfolding siloUpHandler_def by (simp add: Inr Some)
  qed
qed

lemma keeps_ok_down [keeps_ok_rules]: "keeps_ok p0 k k (siloDownHandler h req)"
  unfolding siloDownHandler_def Let_def
  by (auto split: sum.splits intro!: keeps_ok_bind keeps_ok_rules)

lemma keeps_ok_enable [keeps_ok_rules]: "keeps_ok p0 k k (enableEnrollHandler h u)"
  unfolding enableEnrollHandler_def
  by (intro keeps_ok_bind keeps_ok_catch keeps_ok_modify keeps_ok_rules)
     (auto split: option.splits intro!: keeps_ok_crash keeps_ok_raw)

lemma keeps_ok_blind [keeps_ok_rules]: "keeps_ok p0 k k (blindEnrollHandler h req)"
  unfolding blindEnrollHandler_def
  by (intro keeps_ok_bind keeps_ok_rules) (auto intro!: keeps_ok_catch keeps_ok_bind keeps_ok_rules)

lemma keeps_ok_list [keeps_ok_rules]: "keeps_ok p0 k k (listSilosHandler h req)"
  unfolding listSilosHandler_def
  by (auto split: sum.splits intro!: keeps_ok_bind keeps_ok_catch keeps_ok_rules)

lemma keeps_ok_set_host [keeps_ok_rules]: "keeps_ok p0 k k (setHostHandler req)"
  by (rule keeps_okI) (auto simp: setHostHandler_def split: sum.splits option.splits intro: sv_ok_other)


lemma keeps_ok_ServeHTTP:
  assumes "pool_inv q n m p0 {}" "k + 4 \<le> m"
  shows "keeps_ok p0 k (k + 4) (ServeHTTP h req)"
proof -
  have le: "k \<le> k + 4" by simp
  have d: "keeps_ok p0 k (k + 4) (dispatch h user req)" for user
    unfolding dispatch_def using keeps_ok_up [OF assms]
    by (auto intro!: keeps_ok_le [OF _ le] keeps_ok_rules)
  show ?thesis
  proof (rule keeps_okI)
    fix sv t
    assume s: "sv_ok p0 k sv"
    obtain r t1 where c: "checkAuthorized h (sv_config sv) (rq_Path req) (rq_TLS req) t = (r, t1)" by fastforce
    have "sv_ok p0 (k + 4) (fst (snd (dispatch h user req sv t1)))" for user
      using keeps_okD [OF d s, of user t1] by (cases "dispatch h user req sv t1") auto
    with c s sv_ok_le [OF s le] show "sv_ok p0 (k + 4) (fst (snd (ServeHTTP h req sv t)))"
      by (cases r) (simp_all add: ServeHTTP_def)
  qed
qed

subsection \<open>Goroutines\<close>

lemma notify_fields:
  "sv_silos (notify p sv) = sv_silos sv" "sv_meta (notify p sv) = sv_meta sv" "sv_ipPool (notify p sv) = sv_ipPool sv"
  "sv_heap (notify p sv) = sv_heap sv" "sv_spawned (notify p sv) = sv_spawned sv" "sv_waiting (notify p sv) = sv_waiting sv"
  by (simp_all add: notify_def)

lemma wait_begin_inv:
  assumes inv: "sv_inv p0 k held sv" and p: "p \<in> set (sv_spawned sv)"
  shows "sv_inv p0 k held (wait_begin p sv)"
proof (rule inv_cong [OF inv])
  show "x < length (sv_heap (wait_begin p sv))" if "x \<in> set (sv_spawned (wait_begin p sv) @ sv_waiting (wait_begin p sv))" for x
    using that procs_bound [OF inv, of x] procs_bound [OF inv, of p] p set_remove1_subset [of p "sv_spawned sv"]
    by (auto simp: wait_begin_def Let_def notify_fields split: if_splits)
qed (simp_all add: wait_begin_def Let_def notify_fields)

lemma wait_end_inv:
  assumes inv: "sv_inv p0 k held sv" and p: "p \<in> set (sv_waiting sv)" and w: "wait_end h p sv t = (sv', t')"
  shows "sv_inv p0 k held sv'"
proof (cases "s_child (sv_heap sv ! p)")
  case None
  with w have sv': "sv' = sv\<lparr>sv_waiting := remove1 p (sv_waiting sv)\<rparr>" by (simp add: wait_end_def)
  show ?thesis
    by (rule inv_cong [OF inv]) (use procs_bound [OF inv] set_remove1_subset [of p "sv_waiting sv"] in \<open>auto simp: sv'\<close>)
next
  case (Some cmd)
  let ?s = "sv_heap sv ! p"
  obtain r cmd' t1 where c: "cmd_Wait h cmd t = (r, cmd', t1)" by (cases "cmd_Wait h cmd t")
  have pr: "Process cmd' = Process cmd" using c by (auto simp: cmd_Wait_def Let_def split: option.splits if_splits)
  have len: "p < length (sv_heap sv)" using procs_bound [OF inv] p by simp
  have sv': "sv' = notify p (sv\<lparr>sv_waiting := remove1 p (sv_waiting sv), sv_heap := (sv_heap sv)[p := ?s\<lparr>s_child := Some cmd'\<rparr>]\<rparr>)"
    using w Some c by (simp add: wait_end_def)
  show ?thesis
  proof (rule inv_cong [OF inv])
    show "alike (sv_heap sv ! q) (sv_heap sv' ! q)" for q
      using len Some pr by (cases "q = p") (auto simp: sv' notify_fields alike_def)
    show "x < length (sv_heap sv')" if "x \<in> set (sv_spawned sv' @ sv_waiting sv')" for x
      using that procs_bound [OF inv, of x] set_remove1_subset [of p "sv_waiting sv"] by (auto simp: sv' notify_fields)
  qed (simp_all add: sv' notify_fields)
qed

lemma keeps_ok_collect: "keeps_ok p0 k k (collect h n)"
proof (rule keeps_okI)
  fix sv t
  assume s: "sv_ok p0 k sv"
  have c: "keeps_ok p0 k k (catch_s (stopSiloInternal h (fin_name n)) (\<lambda>_. ret_s ()))"
    by (intro keeps_ok_catch keeps_ok_rules)
  obtain r sv' t' where e: "catch_s (stopSiloInternal h (fin_name n)) (\<lambda>_. ret_s ()) sv t = (r, sv', t')"
    by (cases "catch_s (stopSiloInternal h (fin_name n)) (\<lambda>_. ret_s ()) sv t")
  with keeps_okD [OF c s e] s show "sv_ok p0 k (fst (snd (collect h n sv t)))"
    by (auto simp: collect_def split: option.splits)
qed

lemma keeps_ok_stop_all [keeps_ok_rules]: "keeps_ok p0 k k (stop_all h ns)"
  by (induction ns) (auto intro!: keeps_ok_bind keeps_ok_rules)

lemma keeps_ok_md_Close: "keeps_ok p0 k k (\<lambda>sv t. let (r, md, t1) = md_Close h (sv_meta sv) t in (r, sv\<lparr>sv_meta := md\<rparr>, t1))"
proof (rule keeps_okI)
  fix sv t
  assume "sv_ok p0 k sv"
  then obtain j where j: "j \<le> k" "sv_inv p0 j [] sv" by (auto simp: sv_ok_def)
  obtain r md t1 where m: "md_Close h (sv_meta sv) t = (r, md, t1)" by (cases "md_Close h (sv_meta sv) t")
  then have md: "md_isClosing md" "silosByName md = silosByName (sv_meta sv)" "silosByID md = silosByID (sv_meta sv)"
    by (auto simp: md_Close_def split: if_splits)
  have "sv_inv p0 j [] (sv\<lparr>sv_meta := md\<rparr>)"
    using j(2) md by (auto simp: sv_inv_def table_ok_def meta_ok_def md_inv_def pool_ok_def procs_ok_def owed_def)
  with j(1) m show "sv_ok p0 k (fst (snd (let (r, md, t1) = md_Close h (sv_meta sv) t in (r, sv\<lparr>sv_meta := md\<rparr>, t1))))"
    by (auto simp: sv_ok_def)
qed

lemma keeps_ok_Close: "keeps_ok p0 k k (sv_Close h)"
  unfolding sv_Close_def
  by (intro keeps_ok_bind keeps_ok_md_Close keeps_ok_modify keeps_ok_rules)
     (auto intro!: keeps_ok_bind keeps_ok_rules)

section \<open>Histories\<close>

text \<open>
  The daemon from its start on, under any requests to it and to the metadata service, with goroutines
  that get their turn at any time, until it is closed. \<open>k\<close> counts the requests.
\<close>

inductive sv_run :: "host \<Rightarrow> Server \<Rightarrow> trace \<Rightarrow> nat \<Rightarrow> Server \<Rightarrow> trace \<Rightarrow> bool" for h sv0 t0 where
  start: "sv_run h sv0 t0 0 sv0 t0"
| request: "sv_run h sv0 t0 k sv t \<Longrightarrow> ServeHTTP h req sv t = (r, sv', t') \<Longrightarrow> sv_run h sv0 t0 (Suc k) sv' t'"
| metadata: "sv_run h sv0 t0 k sv t \<Longrightarrow> md_ServeHTTP h (sv_heap sv) (sv_meta sv) req t = (r, t') \<Longrightarrow> sv_run h sv0 t0 k sv t'"
| wait_begin: "sv_run h sv0 t0 k sv t \<Longrightarrow> p \<in> set (sv_spawned sv) \<Longrightarrow> sv_run h sv0 t0 k (wait_begin p sv) t"
| wait_end: "sv_run h sv0 t0 k sv t \<Longrightarrow> p \<in> set (sv_waiting sv) \<Longrightarrow> wait_end h p sv t = (sv', t') \<Longrightarrow> sv_run h sv0 t0 k sv' t'"
| collect: "sv_run h sv0 t0 k sv t \<Longrightarrow> n \<in> set (sv_notices sv) \<Longrightarrow> sv_collecting sv \<Longrightarrow>
    collect h n (sv\<lparr>sv_notices := remove1 n (sv_notices sv)\<rparr>) t = (r, sv', t') \<Longrightarrow> sv_run h sv0 t0 k sv' t'"
| close: "sv_run h sv0 t0 k sv t \<Longrightarrow> sv_Close h sv t = (r, sv', t') \<Longrightarrow> sv_run h sv0 t0 k sv' t'"

lemma sv_run_ok:
  assumes "sv_run h sv0 t0 k sv t" "sv_ok p0 0 sv0" "pool_inv q n m p0 {}" "4 * k \<le> m"
  shows "sv_ok p0 (4 * k) sv"
  using assms
proof induction
  case (request k sv t req r sv' t')
  then have "keeps_ok p0 (4 * k) (4 * k + 4) (ServeHTTP h req)" by (intro keeps_ok_ServeHTTP) auto
  from keeps_okD [OF this _ request.hyps(2)] request show ?case by (simp add: algebra_simps)
next
  case (wait_begin k sv t p)
  then show ?case unfolding sv_ok_def using wait_begin_inv by blast
next
  case (wait_end k sv t p sv' t')
  then show ?case unfolding sv_ok_def using wait_end_inv by blast
next
  case (collect k sv t n r sv' t')
  then have "sv_ok p0 (4 * k) (sv\<lparr>sv_notices := remove1 n (sv_notices sv)\<rparr>)" by (auto intro: sv_ok_other)
  with keeps_okD [OF keeps_ok_collect _ collect.hyps(4)] show ?case by blast
next
  case (close k sv t r sv' t')
  then show ?case using keeps_okD [OF keeps_ok_Close _ close.hyps(2)] by blast
qed auto

lemma NewServer_ok:
  assumes "NewServer h keypair c t0 = (Ok sv0, t1)"
  shows "NewIPPool (c_AddressPool c) = Inr (sv_ipPool sv0) \<and> sv_ok (sv_ipPool sv0) 0 sv0 \<and> sv_config sv0 = c \<and>
    sv_silos sv0 = [] \<and> sv_meta sv0 = newMetadataService"
proof -
  from assms have "NewIPPool (c_AddressPool c) = Inr (sv_ipPool sv0)" "sv_config sv0 = c" "sv_silos sv0 = []" "sv_heap sv0 = []"
    "sv_meta sv0 = newMetadataService" "sv_spawned sv0 = []" "sv_waiting sv0 = []"
    by (auto simp: NewServer_def io_ok lift_result_ok split: prod.splits)
  moreover from this have "sv_inv (sv_ipPool sv0) 0 [] sv0"
    by (auto simp: sv_inv_def table_ok_def meta_ok_def md_inv_def pool_ok_def procs_ok_def owed_def newMetadataService_def
        intro: pool_run.start)
  ultimately show ?thesis by (auto simp: sv_ok_def)
qed


subsection \<open>Addresses\<close>

lemma owed_facts:
  assumes "sv_ok p0 k sv" "pool_inv q n m p0 {}" "k \<le> m"
  shows "distinct (owed sv @ pool_free (sv_ipPool sv)) \<and> (\<forall>x \<in> set (owed sv). is_v4 x \<and> Contains (v4_net q n) x)"
proof -
  from assms(1) obtain j out where j: "j \<le> k" "pool_run p0 j (sv_ipPool sv) out" "distinct (owed sv)" "set (owed sv) \<subseteq> set out"
    by (auto simp: sv_ok_def sv_inv_def pool_ok_def)
  have "j \<le> m" using j(1) assms(3) by simp
  from pool_run_inv [OF j(2) assms(2) this] obtain lost where
    p: "pool_inv q n (m - j) (sv_ipPool sv) (set out \<union> lost)" by blast
  have "x \<notin> set (pool_free (sv_ipPool sv)) \<and> length x = 16 \<and> Contains (v4_net q n) x" if "x \<in> set (owed sv)" for x
    using p j(4) that unfolding pool_inv_def pool_addr_ok_def by blast
  moreover have "length q = 4" "n \<le> 32" "distinct (pool_free (sv_ipPool sv))" using p by (simp_all add: pool_inv_def v4_pool_def)
  ultimately show ?thesis using j(3) Contains_v4_net by fastforce
qed

lemma owed_member: "go_lookup (sv_silos sv) n = Some p \<Longrightarrow> x \<in> set (running_owes (sv_heap sv ! p)) \<Longrightarrow> x \<in> set (owed sv)"
  using map_of_SomeD by (fastforce simp: owed_def)

lemma owed_disjoint:
  assumes "distinct (owed sv)" "go_lookup (sv_silos sv) n = Some p" "go_lookup (sv_silos sv) n' = Some p'"
    and "x \<in> set (running_owes (sv_heap sv ! p))" "x \<in> set (running_owes (sv_heap sv ! p'))" "table_ok sv"
  shows "n = n'"
proof (rule ccontr)
  assume ne: "n \<noteq> n'"
  obtain as bs where s: "sv_silos sv = as @ (n, p) # bs" "n \<notin> fst ` set (as @ bs)" by (rule table_split [OF assms(6,2)])
  have "(n', p') \<in> set (as @ bs)" using map_of_SomeD [OF assms(3)] ne unfolding s(1) by auto
  then have "x \<in> set (entries_owe (sv_heap sv) (as @ bs))" using assms(5) by (force simp: entries_owe_def)
  with assms(1,4) show False by (auto simp: owed_entries s(1))
qed

text \<open>The address at which the metadata service knows a running silo of the daemon.\<close>

lemma described_address:
  assumes "net_silo i s" "mi_Interfaces info = described s"
  shows "has_address a info \<longleftrightarrow> a = IP_String (SiloIP i)" "findRouteableAddress (mi_Interfaces info) = IP_String (SiloIP i)"
    "findBridgeAddress (mi_Interfaces info) = IP_String (BridgeIP i)"
  using assms by (auto simp: has_address_def described_def net_silo_def ip_Info_def plain_interface_def findRouteableAddress_def
      findBridgeAddress_def)

lemma net_silo_owes: "net_silo i s \<Longrightarrow> s_State s = StateRunning \<Longrightarrow> SiloIP i \<in> set (running_owes s)"
  by (auto simp: net_silo_def running_owes_def)

text \<open>What a reachable server looks like to its metadata service.\<close>

lemma listed_silo:
  assumes "sv_ok p0 k sv" "\<not> md_isClosing (sv_meta sv)" "go_lookup (silosByName (sv_meta sv)) n = Some info"
  obtains p i where "go_lookup (sv_silos sv) n = Some p" "mi_silo info = p" "net_silo i (sv_heap sv ! p)" "s_State (sv_heap sv ! p) = StateRunning"
    "mi_ID info = s_IDHex (sv_heap sv ! p)" "\<And>a. has_address a info \<longleftrightarrow> a = IP_String (SiloIP i)"
    "findRouteableAddress (mi_Interfaces info) = IP_String (SiloIP i)" "SiloIP i \<in> set (owed sv)"
proof -
  from assms(1) have t: "table_ok sv" "meta_ok sv" by (auto simp: sv_ok_def sv_inv_def)
  from listed_in_table [OF t(2) assms(2,3)] have l: "go_lookup (sv_silos sv) n = Some (mi_silo info)"
    "s_State (sv_heap sv ! mi_silo info) = StateRunning" "mi_ID info = s_IDHex (sv_heap sv ! mi_silo info)"
    "mi_Interfaces info = described (sv_heap sv ! mi_silo info)"
    by (auto simp: listed_ok_def Let_def)
  from table_lookup(3) [OF t(1) l(1)] obtain i where i: "net_silo i (sv_heap sv ! mi_silo info)" by (auto simp: stored_ok_def)
  show thesis
    by (rule that [OF l(1) refl i l(2,3)])
       (use described_address [OF i l(4)] owed_member [OF l(1) net_silo_owes [OF i l(2)]] in auto)
qed

lemma same_address_same_name:
  assumes ok: "sv_ok p0 k sv" and p0: "pool_inv q n m p0 {}" "k \<le> m"
    and l: "go_lookup (sv_silos sv) a = Some p" "net_silo i (sv_heap sv ! p)" "s_State (sv_heap sv ! p) = StateRunning"
    and l': "go_lookup (sv_silos sv) b = Some p'" "net_silo j (sv_heap sv ! p')" "s_State (sv_heap sv ! p') = StateRunning"
    and s: "IP_String (SiloIP i) = IP_String (SiloIP j)"
  shows "a = b"
proof -
  note o = owed_facts [OF ok p0]
  note m = net_silo_owes [OF l(2,3)] net_silo_owes [OF l'(2,3)]
  have "SiloIP i = SiloIP j"
    using o owed_member [OF l(1) m(1)] owed_member [OF l'(1) m(2)] s by (intro IP_String_v4_inj) auto
  then show ?thesis
    using owed_disjoint [OF _ l(1) l'(1), of "SiloIP i"] m o ok by (auto simp: sv_ok_def sv_inv_def)
qed

section \<open>Properties\<close>

text \<open>The premises the properties of the daemon share: a daemon made with an IPv4 pool, and one of its histories.\<close>

lemma history_ok:
  assumes "length q = 4" "n \<le> 32" "c_AddressPool c = cidr_string q n" "NewServer h keypair c t0 = (Ok sv0, t1)"
    and "sv_run h sv0 t1 k sv t" "4 * k \<le> 2 ^ 127"
  shows "pool_inv q n (2 ^ 127) (sv_ipPool sv0) {}" "sv_ok (sv_ipPool sv0) (4 * k) sv"
proof -
  from NewServer_ok [OF assms(4)] have new: "NewIPPool (cidr_string q n) = Inr (sv_ipPool sv0)" "sv_ok (sv_ipPool sv0) 0 sv0"
    using assms(3) by auto
  show p0: "pool_inv q n (2 ^ 127) (sv_ipPool sv0) {}" using NewIPPool_cidr_inv [OF assms(1,2) new(1)] by blast
  show "sv_ok (sv_ipPool sv0) (4 * k) sv" by (rule sv_run_ok [OF assms(5) new(2) p0 assms(6)])
qed

text \<open>
  C1. The state of the daemon, always. From a daemon made with an IPv4 address pool, under any requests
  and any turns of its goroutines and whatever the host answers, every entry of the table is a silo of
  that name which has a process and is running or finished; the addresses of the running silos are
  addresses of the subnet, no two of them the same, and none of them is free in the pool; and while the
  metadata service is up, everything it lists, by name or by ID, is a running silo of the table.
\<close>

theorem daemon_invariant:
  assumes "length q = 4" "n \<le> 32" "c_AddressPool c = cidr_string q n" "NewServer h keypair c t0 = (Ok sv0, t1)"
    and "sv_run h sv0 t1 k sv t" "4 * k \<le> 2 ^ 127"
  shows "wf_map (sv_silos sv) \<and>
    (\<forall>name p. go_lookup (sv_silos sv) name = Some p \<longrightarrow>
      p < length (sv_heap sv) \<and> s_Name (sv_heap sv ! p) = name \<and> s_State (sv_heap sv ! p) \<in> {StateRunning, StateFinished} \<and>
      (\<exists>cmd pid. s_child (sv_heap sv ! p) = Some cmd \<and> Process cmd = Some pid)) \<and>
    distinct (owed sv @ pool_free (sv_ipPool sv)) \<and> list_all (Contains (v4_net q n)) (owed sv) \<and>
    (\<not> md_isClosing (sv_meta sv) \<longrightarrow>
      (\<forall>key info. go_lookup (silosByName (sv_meta sv)) key = Some info \<or> go_lookup (silosByID (sv_meta sv)) key = Some info \<longrightarrow>
        go_lookup (sv_silos sv) (mi_Name info) = Some (mi_silo info) \<and> s_State (sv_heap sv ! mi_silo info) = StateRunning \<and>
        s_IDHex (sv_heap sv ! mi_silo info) = mi_ID info))"
proof -
  note p0 = history_ok(1) [OF assms(1-6)] and ok = history_ok(2) [OF assms(1-6)]
  from ok have t: "table_ok sv" "meta_ok sv" by (auto simp: sv_ok_def sv_inv_def)
  have tab: "p < length (sv_heap sv) \<and> s_Name (sv_heap sv ! p) = name \<and> s_State (sv_heap sv ! p) \<in> {StateRunning, StateFinished} \<and>
      (\<exists>cmd pid. s_child (sv_heap sv ! p) = Some cmd \<and> Process cmd = Some pid)"
    if "go_lookup (sv_silos sv) name = Some p" for name p
    using table_lookup [OF t(1) that] by (auto simp: stored_ok_def)
  have meta: "go_lookup (sv_silos sv) (mi_Name info) = Some (mi_silo info) \<and> s_State (sv_heap sv ! mi_silo info) = StateRunning \<and>
        s_IDHex (sv_heap sv ! mi_silo info) = mi_ID info"
    if "\<not> md_isClosing (sv_meta sv)"
      "go_lookup (silosByName (sv_meta sv)) key = Some info \<or> go_lookup (silosByID (sv_meta sv)) key = Some info" for key info
  proof -
    have inv: "md_inv (sv_meta sv)" using t(2) by (simp add: meta_ok_def)
    have "go_lookup (silosByName (sv_meta sv)) (mi_Name info) = Some info"
      using that(2) dir.name_key [OF inv] dir.ident_listed [OF inv] by blast
    from listed_in_table [OF t(2) that(1) this] show ?thesis by (simp add: listed_ok_def Let_def)
  qed
  from tab meta owed_facts [OF ok p0 assms(6)] t(1) show ?thesis by (simp add: table_ok_def list_all_iff)
qed


lemma listed_one_owner:
  assumes ok: "sv_ok p0 k sv" and p0: "pool_inv q n m p0 {}" "k \<le> m" and up: "\<not> md_isClosing (sv_meta sv)"
  shows "one_owner (silosByID (sv_meta sv))"
proof -
  from ok have t: "md_inv (sv_meta sv)" by (auto simp: sv_ok_def sv_inv_def meta_ok_def)
  have wf: "wf_map (silosByID (sv_meta sv))" using t by (simp add: md_inv_def)
  note same = same_address_same_name [OF ok p0]
  show ?thesis
    unfolding one_owner_def
  proof (intro allI impI)
    fix key info key' info' a
    assume "(key, info) \<in> set (silosByID (sv_meta sv))" "(key', info') \<in> set (silosByID (sv_meta sv))"
    then have l: "go_lookup (silosByID (sv_meta sv)) key = Some info" "go_lookup (silosByID (sv_meta sv)) key' = Some info'"
      using gm.entries_lookup [OF wf] by blast+
    assume a: "has_address a info" "has_address a info'"
    obtain p i where i: "go_lookup (sv_silos sv) (mi_Name info) = Some p" "net_silo i (sv_heap sv ! p)" "s_State (sv_heap sv ! p) = StateRunning"
      "a = IP_String (SiloIP i)" using listed_silo [OF ok up dir.ident_listed [OF t l(1)]] a(1) by metis
    obtain p' j where j: "go_lookup (sv_silos sv) (mi_Name info') = Some p'" "net_silo j (sv_heap sv ! p')" "s_State (sv_heap sv ! p') = StateRunning"
      "a = IP_String (SiloIP j)" using listed_silo [OF ok up dir.ident_listed [OF t l(2)]] a(2) by metis
    have "mi_Name info = mi_Name info'" using same [OF i(1-3) j(1-3)] i(4) j(4) by simp
    with dir.ident_unique [OF t l] show "key = key'" by blast
  qed
qed

text \<open>
  C14. The metadata service knows who is asking. In every reachable state with the service up, a caller
  that is recognised by its address is recognised as the one running silo of the table that has that
  address: the ID is that silo's, and no other running silo has the address. No address leads to two
  IDs, so neither HTTP nor DNS depends on the order in which Go visits the map.
\<close>

theorem callers_are_identified:
  assumes "length q = 4" "n \<le> 32" "c_AddressPool c = cidr_string q n" "NewServer h keypair c t0 = (Ok sv0, t1)"
    and "sv_run h sv0 t1 k sv t" "4 * k \<le> 2 ^ 127" and up: "\<not> md_isClosing (sv_meta sv)"
  shows "one_owner (silosByID (sv_meta sv)) \<and>
    (findSiloIDForIP (sv_meta sv) addr \<noteq> [] \<longrightarrow>
      (\<exists>name p i. go_lookup (sv_silos sv) name = Some p \<and> s_State (sv_heap sv ! p) = StateRunning \<and>
        s_IDHex (sv_heap sv ! p) = findSiloIDForIP (sv_meta sv) addr \<and>
        s_Interfaces (sv_heap sv ! p) = [IPInterf i, LoopbackInterface] \<and> IP_String (SiloIP i) = host_part addr \<and>
        (\<forall>name' p' j. go_lookup (sv_silos sv) name' = Some p' \<longrightarrow> s_State (sv_heap sv ! p') = StateRunning \<longrightarrow>
          s_Interfaces (sv_heap sv ! p') = [IPInterf j, LoopbackInterface] \<longrightarrow> IP_String (SiloIP j) = host_part addr \<longrightarrow>
          name' = name)))"
proof -
  note p0 = history_ok(1) [OF assms(1-6)] and ok = history_ok(2) [OF assms(1-6)]
  from ok have t: "table_ok sv" "md_inv (sv_meta sv)" by (auto simp: sv_ok_def sv_inv_def meta_ok_def)
  note same = same_address_same_name [OF ok p0 assms(6)]
  have "\<exists>name p i. go_lookup (sv_silos sv) name = Some p \<and> s_State (sv_heap sv ! p) = StateRunning \<and>
        s_IDHex (sv_heap sv ! p) = findSiloIDForIP (sv_meta sv) addr \<and>
        s_Interfaces (sv_heap sv ! p) = [IPInterf i, LoopbackInterface] \<and> IP_String (SiloIP i) = host_part addr \<and>
        (\<forall>name' p' j. go_lookup (sv_silos sv) name' = Some p' \<longrightarrow> s_State (sv_heap sv ! p') = StateRunning \<longrightarrow>
          s_Interfaces (sv_heap sv ! p') = [IPInterf j, LoopbackInterface] \<longrightarrow> IP_String (SiloIP j) = host_part addr \<longrightarrow>
          name' = name)" if f: "findSiloIDForIP (sv_meta sv) addr \<noteq> []"
  proof -
    obtain info where info: "has_address (host_part addr) info" "go_lookup (silosByID (sv_meta sv)) (mi_ID info) = Some info"
      "mi_ID info = findSiloIDForIP (sv_meta sv) addr" using caller_owner [OF t(2) f] by metis
    obtain p i where i: "go_lookup (sv_silos sv) (mi_Name info) = Some p" "net_silo i (sv_heap sv ! p)" "s_State (sv_heap sv ! p) = StateRunning"
      "mi_ID info = s_IDHex (sv_heap sv ! p)" "host_part addr = IP_String (SiloIP i)"
      using listed_silo [OF ok up dir.ident_listed [OF t(2) info(2)]] info(1) by metis
    have u: "name' = mi_Name info" if l: "go_lookup (sv_silos sv) name' = Some p'" "s_State (sv_heap sv ! p') = StateRunning"
      "s_Interfaces (sv_heap sv ! p') = [IPInterf j, LoopbackInterface]" "IP_String (SiloIP j) = host_part addr" for name' p' j
    proof -
      have "net_silo j (sv_heap sv ! p')" using table_lookup(3) [OF t(1) l(1)] l(3) by (auto simp: stored_ok_def net_silo_def)
      then show ?thesis using same [OF l(1) _ l(2) i(1-3)] l(4) i(5) by simp
    qed
    have "s_Interfaces (sv_heap sv ! p) = [IPInterf i, LoopbackInterface]" using i(2) by (simp add: net_silo_def)
    moreover have "s_IDHex (sv_heap sv ! p) = findSiloIDForIP (sv_meta sv) addr" using i(4) info(3) by simp
    ultimately show ?thesis using i(1,3) i(5) [symmetric] u by blast
  qed
  with listed_one_owner [OF ok p0 assms(6) up] show ?thesis by blast
qed


section \<open>An example\<close>

text \<open>A daemon with the pool 10.0.0.1/29, before and after a request for the silo web.\<close>

definition ex_conf :: config where
  "ex_conf = ex_config\<lparr>c_AddressPool := ''10.0.0.1/29'', c_KeySource := ''embedded'', c_Mode := ''open''\<rparr>"

definition ex_spec :: "string \<Rightarrow> conf_Silo" where
  "ex_spec name =
     \<lparr>cs_Name = name, cs_Class = ''web'', cs_Tags = [], cs_Base = ''img://busybox'',
      cs_Network = \<lparr>n_InternetAccess = True, n_Nameservers = [], n_Hosts = None\<rparr>,
      cs_Binary = \<lparr>b_Path = ''/bin/sh'', b_Env = [], b_Args = []\<rparr>,
      cs_Resources = \<lparr>r_CPUPercent = 0, r_MaxMemoryBytes = 0\<rparr>, cs_Grant = [], cs_Files = [], cs_FileBalls = [], cs_Binds = []\<rparr>"

definition ex_up :: "string \<Rightarrow> request" where
  "ex_up name = (ex_req ''/up'')\<lparr>rq_Up := Inr \<lparr>up_SiloConf = Some (ex_spec name), up_Files = []\<rparr>\<rparr>"

definition ex_sv_host :: host where
  "ex_sv_host = ex_start_host\<lparr>h_str := (\<lambda>_ _. ''1'' @ [CHR 0x0A])\<rparr>"

definition ex_new :: "Server res \<times> trace" where
  "ex_new = NewServer ex_sv_host (\<lambda>_ _. None) ex_conf []"

definition ex_server :: Server where
  "ex_server = (case fst ex_new of Ok sv \<Rightarrow> sv)"

definition ex_upped :: "response res \<times> Server \<times> trace" where
  "ex_upped = ServeHTTP ex_sv_host (ex_up ''web'') ex_server (snd ex_new)"

abbreviation "ex_sv \<equiv> fst (snd ex_upped)"

lemma ex_new_ok: "NewServer ex_sv_host (\<lambda>_ _. None) ex_conf [] = (Ok ex_server, snd ex_new)"
proof -
  have "fst ex_new = Ok ex_server" by code_simp
  then show ?thesis unfolding ex_new_def [symmetric] by (metis prod.collapse)
qed

lemma ex_cidr: "length [10, 0, 0, 1 :: byte] = 4" "(29 :: nat) \<le> 32" "c_AddressPool ex_conf = cidr_string [10, 0, 0, 1] 29"
  by code_simp+

lemma ex_run: "sv_run ex_sv_host ex_server (snd ex_new) 1 ex_sv (snd (snd ex_upped))"
proof -
  have "ServeHTTP ex_sv_host (ex_up ''web'') ex_server (snd ex_new) = (fst ex_upped, ex_sv, snd (snd ex_upped))"
    by (simp add: ex_upped_def)
  from sv_run.request [OF sv_run.start this] show ?thesis by simp
qed

text \<open>What the evaluation of the request gives.\<close>

lemma ex_facts: "sv_silos ex_sv = [(''web'', 0)]" "\<not> md_isClosing (sv_meta ex_sv)"
    "findSiloIDForIP (sv_meta ex_sv) ''10.0.0.2:999'' = ''01020304''" "host_part ''10.0.0.2:999'' = ''10.0.0.2''"
proof -
  have "(case ex_upped of (_, sv, _) \<Rightarrow> (sv_silos sv, md_isClosing (sv_meta sv), findSiloIDForIP (sv_meta sv) ''10.0.0.2:999'')) =
      ([(''web'', 0)], False, ''01020304'')" by code_simp
  then show "sv_silos ex_sv = [(''web'', 0)]" "\<not> md_isClosing (sv_meta ex_sv)"
    "findSiloIDForIP (sv_meta ex_sv) ''10.0.0.2:999'' = ''01020304''"
    by (simp_all add: case_prod_unfold)
  show "host_part ''10.0.0.2:999'' = ''10.0.0.2''" by code_simp
qed

theorem daemon_invariant_witness:
  "go_lookup (sv_silos ex_sv) ''web'' = Some 0 \<and> s_Name (sv_heap ex_sv ! 0) = ''web'' \<and> distinct (owed ex_sv @ pool_free (sv_ipPool ex_sv))"
proof -
  have l: "go_lookup (sv_silos ex_sv) ''web'' = Some 0" by (simp add: ex_facts)
  with daemon_invariant [OF ex_cidr ex_new_ok ex_run] show ?thesis by auto
qed

theorem callers_are_identified_witness:
  "\<exists>name p i. go_lookup (sv_silos ex_sv) name = Some p \<and> s_IDHex (sv_heap ex_sv ! p) = ''01020304'' \<and>
     s_Interfaces (sv_heap ex_sv ! p) = [IPInterf i, LoopbackInterface] \<and> IP_String (SiloIP i) = ''10.0.0.2''"
proof -
  note c = callers_are_identified [OF ex_cidr ex_new_ok ex_run _ ex_facts(2), of "''10.0.0.2:999''"]
  from ex_facts(3) have ne: "findSiloIDForIP (sv_meta ex_sv) ''10.0.0.2:999'' \<noteq> []" by simp
  have "(4::nat) * 1 \<le> 2 ^ 127" by simp
  from c [OF this] ne have "\<exists>name p i. go_lookup (sv_silos ex_sv) name = Some p \<and> s_IDHex (sv_heap ex_sv ! p) = findSiloIDForIP (sv_meta ex_sv) ''10.0.0.2:999'' \<and>
     s_Interfaces (sv_heap ex_sv ! p) = [IPInterf i, LoopbackInterface] \<and> IP_String (SiloIP i) = host_part ''10.0.0.2:999''" by blast
  then show ?thesis unfolding ex_facts(3,4) .
qed

end
