(* ===== verification/Requests.thy ===== *)
theory Requests
  imports Daemon
begin

text \<open>
  What one request to the daemon does: a silo that was asked for runs as asked, a request about one
  name leaves the other silos alone, and how enrolment opens and closes.
\<close>

section \<open>What one request does\<close>

text \<open>Runs that return a value.\<close>

named_theorems srv_ok \<open>inversion of successful runs over a server\<close>

lemma bind_s_ok [srv_ok]:
  "bind_s m f sv t = (Ok y, sv', t') \<longleftrightarrow> (\<exists>x sv1 t1. m sv t = (Ok x, sv1, t1) \<and> f x sv1 t1 = (Ok y, sv', t'))"
  by (auto simp: bind_s_def split: prod.splits res.splits)

lemma ret_s_ok [srv_ok]: "ret_s x sv t = (Ok y, sv', t') \<longleftrightarrow> y = x \<and> sv' = sv \<and> t' = t"
  and fail_s_ok [srv_ok]: "fail_s e sv t = (Ok y, sv', t') \<longleftrightarrow> False"
  and io_s_ok [srv_ok]: "io_s m sv t = (Ok y, sv', t') \<longleftrightarrow> m t = (Ok y, t') \<and> sv' = sv"
  by (auto simp: srv_defs split: prod.splits)

lemma get_s_ok [srv_ok]: "get_s sv t = (Ok y, sv', t') \<longleftrightarrow> y = sv \<and> sv' = sv \<and> t' = t"
  by (auto simp: srv_defs)

lemma modify_s_ok [srv_ok]: "modify_s f sv t = (Ok y, sv', t') \<longleftrightarrow> sv' = f sv \<and> t' = t"
  by (auto simp: srv_defs)

lemma methods_ok [srv_ok]:
  "silo_Init h p sv t = (Ok (), sv', t') \<longleftrightarrow> (\<exists>s'. Init h (sv_heap sv ! p) t = (Ok (), s', t') \<and> sv' = sv\<lparr>sv_heap := (sv_heap sv)[p := s']\<rparr>)"
  "silo_Start h p sv t = (Ok (), sv', t') \<longleftrightarrow> (\<exists>s'. Start h (sv_heap sv ! p) t = (Ok (), s', t') \<and> sv' = sv\<lparr>sv_heap := (sv_heap sv)[p := s']\<rparr>)"
  "alloc_silo s sv t = (Ok p, sv', t') \<longleftrightarrow> p = length (sv_heap sv) \<and> sv' = sv\<lparr>sv_heap := sv_heap sv @ [s]\<rparr> \<and> t' = t"
  by (auto simp: silo_Init_def silo_Start_def alloc_silo_def split: prod.splits)

text \<open>A handler that cleans up and fails does not return.\<close>

lemma catch_s_ok:
  assumes "\<And>e sv t y sv' t'. k e sv t \<noteq> (Ok y, sv', t')"
  shows "catch_s m k sv t = (Ok y, sv', t') \<longleftrightarrow> m sv t = (Ok y, sv', t')"
  using assms by (auto simp: catch_s_def split: prod.splits res.splits)

lemma launch_ok:
  assumes r: "launch_silo h n i b sv t = (Ok (), sv', t')" and f: "go_lookup (sv_silos sv) n = None"
  obtains s0 s1 s2 t1 t2 t3 md where
    "NewSilo h n (Finalize h b) t = (Ok s0, t1)" "Init h s0 t1 = (Ok (), s1, t2)" "Start h s1 t2 = (Ok (), s2, t3)"
    "sv' = sv\<lparr>sv_heap := sv_heap sv @ [s2], sv_silos := sv_silos sv @ [(n, length (sv_heap sv))], sv_meta := md,
              sv_spawned := sv_spawned sv @ [length (sv_heap sv)]\<rparr>"
proof -
  have c: "catch_s m (\<lambda>e. bind_s k (\<lambda>_. fail_s e)) sv t = (Ok y, sv2, t2) \<longleftrightarrow> m sv t = (Ok y, sv2, t2)"
    for m :: "'x srv" and k :: "'y srv" and sv t y sv2 t2 by (rule catch_s_ok) (auto simp: srv_ok)
  have c': "catch_s m (\<lambda>e. bind_s k (\<lambda>_. bind_s k' (\<lambda>_. fail_s e))) sv t = (Ok y, sv2, t2) \<longleftrightarrow> m sv t = (Ok y, sv2, t2)"
    for m :: "'x srv" and k :: "'y srv" and k' :: "'z srv" and sv t y sv2 t2 by (rule catch_s_ok) (auto simp: srv_ok)
  let ?p = "length (sv_heap sv)"
  from r obtain s0 t1 s1 t2 s2 t3 where s: "NewSilo h n (Finalize h b) t = (Ok s0, t1)" "Init h s0 t1 = (Ok (), s1, t2)"
    "Start h s1 t2 = (Ok (), s2, t3)"
    and e: "enter_silo h n ?p (sv\<lparr>sv_heap := sv_heap sv @ [s2]\<rparr>) t3 = (Ok (), sv', t')"
    unfolding launch_silo_def
    by (auto simp: srv_ok c c')
  from f have "go_lookup (sv_silos (sv\<lparr>sv_heap := sv_heap sv @ [s2]\<rparr>)) n = None" by simp
  from enter_silo_effect [OF this, of h ?p t3] e obtain md where
    "sv' = sv\<lparr>sv_heap := sv_heap sv @ [s2], sv_silos := sv_silos sv @ [(n, ?p)], sv_meta := md, sv_spawned := sv_spawned sv @ [?p]\<rparr>"
    by (auto simp: Let_def)
  with s that show thesis by blast
qed

text \<open>Others: what a request about the name \<open>n\<close> must leave alone.\<close>

definition others_same :: "string \<Rightarrow> Server \<Rightarrow> Server \<Rightarrow> bool" where
  "others_same n sv sv' \<longleftrightarrow> (\<forall>m. m \<noteq> n \<longrightarrow> go_lookup (sv_silos sv') m = go_lookup (sv_silos sv) m \<and>
     (\<forall>p. go_lookup (sv_silos sv) m = Some p \<longrightarrow> sv_heap sv' ! p = sv_heap sv ! p))"

lemma others_same_refl: "others_same n sv sv"
  by (simp add: others_same_def)

lemma others_same_trans: "others_same n sv sv1 \<Longrightarrow> others_same n sv1 sv2 \<Longrightarrow> others_same n sv sv2"
  by (simp add: others_same_def)

lemma stop_others:
  assumes "table_ok sv" "stopSiloInternal h n sv t = (r, sv', t')"
  shows "others_same n sv sv'"
proof (cases "go_lookup (sv_silos sv) n")
  case None
  with stop_cases [OF assms(2)] show ?thesis by (auto simp: others_same_refl)
next
  case (Some p)
  with stop_cases [OF assms(2)] obtain s' where h: "sv_heap sv' = (sv_heap sv)[p := s']"
    and s: "sv_silos sv' = (if r = Ok () then go_delete n (sv_silos sv) else sv_silos sv)" by (auto simp del: list_update_id)
  have "(sv_heap sv)[p := s'] ! p' = sv_heap sv ! p'" if "m \<noteq> n" "go_lookup (sv_silos sv) m = Some p'" for m p'
    using table_lookup(3) [OF assms(1) Some] table_lookup(3) [OF assms(1) that(2)] that(1)
    by (cases "p' = p") (auto simp: stored_ok_def)
  then show ?thesis using h s by (simp add: others_same_def delete_conv')
qed

text \<open>
  During a launch, silos made before are not touched and names other than \<open>n\<close> neither; what is new in
  the table has a goroutine.
\<close>

definition enrolment :: "Server \<Rightarrow> int \<times> string \<times> config" where
  "enrolment sv = (sv_deadline sv, sv_key sv, sv_config sv)"

lemma enrolment_simps [simp]:
  "enrolment (sv\<lparr>sv_ipPool := a\<rparr>) = enrolment sv" "enrolment (sv\<lparr>sv_meta := b\<rparr>) = enrolment sv"
  "enrolment (sv\<lparr>sv_silos := c\<rparr>) = enrolment sv" "enrolment (sv\<lparr>sv_heap := d\<rparr>) = enrolment sv"
  "enrolment (sv\<lparr>sv_spawned := e\<rparr>) = enrolment sv" "enrolment (sv\<lparr>sv_waiting := e\<rparr>) = enrolment sv"
  "enrolment (sv\<lparr>sv_notices := f\<rparr>) = enrolment sv"
  by (simp_all add: enrolment_def)

definition grown :: "string \<Rightarrow> Server \<Rightarrow> Server \<Rightarrow> bool" where
  "grown n sv0 sv \<longleftrightarrow> length (sv_heap sv0) \<le> length (sv_heap sv) \<and> (\<forall>q < length (sv_heap sv0). sv_heap sv ! q = sv_heap sv0 ! q) \<and>
     (\<forall>m. m \<noteq> n \<longrightarrow> go_lookup (sv_silos sv) m = go_lookup (sv_silos sv0) m) \<and>
     (\<forall>m p. go_lookup (sv_silos sv) m = Some p \<longrightarrow> p \<in> set (sv_spawned sv) \<or> go_lookup (sv_silos sv0) m = Some p) \<and>
     set (sv_spawned sv0) \<subseteq> set (sv_spawned sv) \<and> sv_waiting sv = sv_waiting sv0 \<and> sv_notices sv = sv_notices sv0 \<and>
     sv_closing sv = sv_closing sv0 \<and> sv_collecting sv = sv_collecting sv0 \<and> enrolment sv = enrolment sv0"

lemma grown_same:
  "grown n sv0 sv \<Longrightarrow> sv_heap sv' = sv_heap sv \<Longrightarrow> sv_silos sv' = sv_silos sv \<Longrightarrow> sv_spawned sv' = sv_spawned sv \<Longrightarrow>
    sv_waiting sv' = sv_waiting sv \<Longrightarrow> sv_notices sv' = sv_notices sv \<Longrightarrow> sv_closing sv' = sv_closing sv \<Longrightarrow>
    sv_collecting sv' = sv_collecting sv \<Longrightarrow> enrolment sv' = enrolment sv \<Longrightarrow> grown n sv0 sv'"
  by (simp add: grown_def)

lemma grown_others: "table_ok sv0 \<Longrightarrow> grown n sv0 sv \<Longrightarrow> others_same n sv0 sv"
  using table_lookup(2) by (fastforce simp: grown_def others_same_def)

lemma grown_refl: "grown n sv sv"
  by (simp add: grown_def)

abbreviation keeps_grown :: "string \<Rightarrow> Server \<Rightarrow> 'a srv \<Rightarrow> bool" where
  "keeps_grown n sv0 m \<equiv> spec (grown n sv0) m (\<lambda>_. grown n sv0) (grown n sv0) (grown n sv0)"

lemma keeps_grownI:
  assumes "\<And>sv t. grown n sv0 sv \<Longrightarrow> grown n sv0 (fst (snd (m sv t)))"
  shows "keeps_grown n sv0 m"
proof (rule specI)
  fix sv t r sv' t'
  assume "grown n sv0 sv" "m sv t = (r, sv', t')"
  with assms [of sv t] show "case r of Ok x \<Rightarrow> grown n sv0 sv' | Err e \<Rightarrow> grown n sv0 sv' | Crash x \<Rightarrow> grown n sv0 sv'"
    by (simp split: res.splits)
qed

lemma enter_silo_any:
  "\<exists>md t'. enter_silo h n p sv t =
     (Ok (), sv\<lparr>sv_silos := go_insert n p (sv_silos sv), sv_meta := md, sv_spawned := sv_spawned sv @ [p]\<rparr>, t')"
proof -
  let ?s = "sv_heap sv ! p"
  let ?e = "\<lparr>ev_event = eventSiloStarted, ev_Name = s_Name ?s, ev_ID = s_IDHex ?s, ev_tags = s_Tags ?s,
      ev_interfaces = described ?s, ev_silo = p\<rparr>"
  obtain md t' where "HostEvent h ?e (sv_meta sv) t = (md, t')" by fastforce
  then show ?thesis
    by (intro exI [of _ md] exI [of _ t'])
       (simp add: enter_silo_def srv_defs buildSiloStartedMetadataEvent_def describeInterfaces_plain io_defs described_def)
qed

lemma grown_methods:
  assumes "length (sv_heap sv0) \<le> p"
  shows "keeps_grown n sv0 (silo_Init h p)" "keeps_grown n sv0 (silo_Start h p)" "keeps_grown n sv0 (silo_Close h p)"
    "keeps_grown n sv0 (free_slice i)" "keeps_grown n sv0 (fail_s e)" "keeps_grown n sv0 (ret_s x)"
    "keeps_grown n sv0 (enter_silo h n p)"
proof -
  have u: "grown n sv0 sv \<Longrightarrow> grown n sv0 (sv\<lparr>sv_heap := (sv_heap sv)[p := s]\<rparr>)" for sv s
    using assms by (auto simp: grown_def)
  show "keeps_grown n sv0 (silo_Init h p)" by (rule keeps_grownI) (simp add: silo_Init_def u case_prod_beta)
  show "keeps_grown n sv0 (silo_Start h p)" by (rule keeps_grownI) (simp add: silo_Start_def u case_prod_beta)
  show "keeps_grown n sv0 (silo_Close h p)"
    by (rule keeps_grownI, rule grown_same [OF u]) (simp_all add: silo_Close_def case_prod_beta)
  show "keeps_grown n sv0 (free_slice i)" "keeps_grown n sv0 (fail_s e)" "keeps_grown n sv0 (ret_s x)"
    by (rule keeps_grownI, auto simp: free_slice_def srv_defs elim: grown_same)+
  show "keeps_grown n sv0 (enter_silo h n p)"
  proof (rule keeps_grownI)
    fix sv t
    assume g: "grown n sv0 sv"
    obtain md t' where "enter_silo h n p sv t =
       (Ok (), sv\<lparr>sv_silos := go_insert n p (sv_silos sv), sv_meta := md, sv_spawned := sv_spawned sv @ [p]\<rparr>, t')"
      using enter_silo_any by blast
    with g show "grown n sv0 (fst (snd (enter_silo h n p sv t)))" by (auto simp: grown_def update_conv')
  qed
qed

lemma launch_grown: "keeps_grown n sv0 (launch_silo h n i b)"
  unfolding launch_silo_def
proof (rule spec_bind [where R = "\<lambda>_. grown n sv0"])
  note g = grown_methods [OF order_refl, of n sv0]
  show "keeps_grown n sv0 (catch_s (io_s (NewSilo h n (Finalize h b))) (\<lambda>e. bind_s (free_slice i) (\<lambda>_. fail_s e)))"
    by (rule spec_catch [OF spec_io spec_bind [OF g(4) g(5)]])
  fix s
  show "keeps_grown n sv0 (bind_s (alloc_silo s) (\<lambda>p.
     bind_s (catch_s (silo_Init h p)
              (\<lambda>e. bind_s (catch_s (silo_Close h p) (\<lambda>_. ret_s ())) (\<lambda>_.
                   bind_s (free_slice i) (\<lambda>_. fail_s e)))) (\<lambda>_.
     bind_s (catch_s (silo_Start h p)
              (\<lambda>e. bind_s (catch_s (silo_Close h p) (\<lambda>_. ret_s ())) (\<lambda>_. fail_s e))) (\<lambda>_.
       enter_silo h n p))))"
  proof (rule spec_bind [where R = "\<lambda>p sv. length (sv_heap sv0) \<le> p \<and> grown n sv0 sv"])
    show "spec (grown n sv0) (alloc_silo s) (\<lambda>p sv. length (sv_heap sv0) \<le> p \<and> grown n sv0 sv) (grown n sv0) (grown n sv0)"
      by (auto simp: spec_def alloc_silo_def grown_def nth_append)
    fix p
    show "spec (\<lambda>sv. length (sv_heap sv0) \<le> p \<and> grown n sv0 sv)
       (bind_s (catch_s (silo_Init h p)
              (\<lambda>e. bind_s (catch_s (silo_Close h p) (\<lambda>_. ret_s ())) (\<lambda>_.
                   bind_s (free_slice i) (\<lambda>_. fail_s e)))) (\<lambda>_.
        bind_s (catch_s (silo_Start h p)
              (\<lambda>e. bind_s (catch_s (silo_Close h p) (\<lambda>_. ret_s ())) (\<lambda>_. fail_s e))) (\<lambda>_.
        enter_silo h n p))) (\<lambda>_. grown n sv0) (grown n sv0) (grown n sv0)" (is "spec _ ?m _ _ _")
    proof (cases "length (sv_heap sv0) \<le> p")
      case True
      note g = grown_methods [OF True, of n]
      have "keeps_grown n sv0 ?m"
        by (rule spec_bind [OF spec_catch [OF g(1) spec_bind [OF spec_catch [OF g(3) g(6)] spec_bind [OF g(4) g(5)]]]
              spec_bind [OF spec_catch [OF g(2) spec_bind [OF spec_catch [OF g(3) g(6)] g(5)]] g(7)]])
      then show ?thesis by (rule spec_conseq) auto
    qed (simp add: spec_def)
  qed
qed


lemma start_grown:
  assumes r: "startSiloInternal h sc fs sv t = (r, sv', t')"
  shows "grown (cs_Name sc) sv sv'"
proof (cases "resolve_options (sv_config sv) sc fs")
  case (Inl e)
  with r show ?thesis by (auto simp: startSiloInternal_def srv_defs grown_refl)
next
  case (Inr b)
  obtain r1 sv1 t1 where i: "pool_interface sv t = (r1, sv1, t1)" by (cases "pool_interface sv t")
  have g: "grown (cs_Name sc) sv sv1"
    using i by (auto simp: pool_interface_def Let_def intro!: grown_same [OF grown_refl] split: prod.splits)
  show ?thesis
  proof (cases r1)
    case (Ok net0)
    let ?net = "net0\<lparr>InternetAccess := n_InternetAccess (cs_Network sc)\<rparr>"
    have l: "launch_silo h (cs_Name sc) ?net (network_options sc ?net b) sv1 t1 = (r, sv', t')"
      using r Inr i Ok by (simp add: startSiloInternal_def srv_defs Let_def)
    show ?thesis using specD [OF launch_grown [of "cs_Name sc" sv] g l] by (cases r) simp_all
  qed (use r Inr i g in \<open>auto simp: startSiloInternal_def srv_defs\<close>)
qed

lemma start_others:
  "table_ok sv \<Longrightarrow> startSiloInternal h sc fs sv t = (r, sv', t') \<Longrightarrow> others_same (cs_Name sc) sv sv'"
  by (rule grown_others [OF _ start_grown])

text \<open>What a handler that is given a silo to start does, in its stages.\<close>

lemma up_stages:
  assumes u: "rq_Up req = Inr pkt" "up_SiloConf pkt = Some sc" and r: "siloUpHandler h req sv t = (r, sv', t')"
  obtains (stop_failed) r1 t1 where "stopSiloInternal h (cs_Name sc) sv t = (r1, sv', t1)" "\<And>w resp. r = Ok w \<Longrightarrow> WriteUp resp \<notin> set w"
  | (tried) sv1 t1 r2 t2 where "stopSiloInternal h (cs_Name sc) sv t = (Ok (), sv1, t1) \<or> go_lookup (sv_silos sv) (cs_Name sc) = None \<and> sv1 = sv"
      "startSiloInternal h sc (up_Files pkt) sv1 t1 = (r2, sv', t2)"
      "\<And>w resp. r = Ok w \<Longrightarrow> WriteUp resp \<in> set w \<Longrightarrow> r2 = Ok () \<and>
         (\<exists>p. go_lookup (sv_silos sv') (cs_Name sc) = Some p \<and> resp = \<lparr>upr_IDHex = s_IDHex (sv_heap sv' ! p), upr_Interfaces = described (sv_heap sv' ! p)\<rparr>)"
proof -
  let ?n = "cs_Name sc"
  let ?stop = "if go_lookup (sv_silos sv) ?n \<noteq> None then stopSiloInternal h ?n else ret_s ()"
  obtain r1 sv1 t1 where s: "?stop sv t = (r1, sv1, t1)" by (cases "?stop sv t")
  obtain r2 sv2 t2 where st: "startSiloInternal h sc (up_Files pkt) sv1 t1 = (r2, sv2, t2)"
    by (cases "startSiloInternal h sc (up_Files pkt) sv1 t1")
  have def: "siloUpHandler h req sv t = (r, sv', t')" by (rule r)
  show thesis
  proof (cases "r1 = Ok ()")
    case False
    then have sv': "sv' = sv1 \<and> (\<forall>w resp. r = Ok w \<longrightarrow> WriteUp resp \<notin> set w)"
      using def s u by (cases r1) (auto simp: siloUpHandler_def srv_defs)
    have "go_lookup (sv_silos sv) ?n \<noteq> None" using s False by (auto simp: ret_s_def split: if_splits)
    then show thesis using s sv' stop_failed [of r1 t1] by auto
  next
    case True
    have sv': "sv' = sv2 \<and> (\<forall>w resp. r = Ok w \<longrightarrow> WriteUp resp \<in> set w \<longrightarrow> r2 = Ok () \<and>
        (\<exists>p. go_lookup (sv_silos sv2) ?n = Some p \<and> resp = \<lparr>upr_IDHex = s_IDHex (sv_heap sv2 ! p), upr_Interfaces = described (sv_heap sv2 ! p)\<rparr>))"
      using def s u True st by (cases r2; cases "go_lookup (sv_silos sv2) ?n")
        (auto simp: siloUpHandler_def srv_defs describeInterfaces_plain ret_def described_def)
    have "stopSiloInternal h ?n sv t = (Ok (), sv1, t1) \<or> go_lookup (sv_silos sv) ?n = None \<and> sv1 = sv"
      using s True by (auto simp: ret_s_def split: if_splits)
    then show thesis using st sv' tried by blast
  qed
qed

lemma up_others:
  assumes u: "rq_Up req = Inr pkt" "up_SiloConf pkt = Some sc" and r: "siloUpHandler h req sv t = (r, sv', t')"
    and inv: "sv_inv p0 k [] sv"
  shows "others_same (cs_Name sc) sv sv'"
proof (cases rule: up_stages [OF u r, case_names stop_failed tried])
  case (stop_failed r1 t1)
  have "table_ok sv" using inv by (simp add: sv_inv_def)
  then show ?thesis by (rule stop_others [OF _ stop_failed(1)])
next
  case (tried sv1 t1 r2 t2)
  have t: "table_ok sv" using inv by (simp add: sv_inv_def)
  have "others_same (cs_Name sc) sv sv1 \<and> table_ok sv1"
    using tried(1)
  proof
    assume s: "stopSiloInternal h (cs_Name sc) sv t = (Ok (), sv1, t1)"
    show ?thesis using stop_others [OF t s] stop_inv [OF inv s] by (simp add: sv_inv_def)
  qed (use t in \<open>simp add: others_same_refl\<close>)
  then show ?thesis using start_others [OF _ tried(2)] others_same_trans by blast
qed


lemma start_ok:
  assumes r: "startSiloInternal h sc fs sv t = (Ok (), sv', t')" and f: "go_lookup (sv_silos sv) (cs_Name sc) = None"
  obtains b net pool s0 s1 s2 t1 t2 t3 md where
    "resolve_options (sv_config sv) sc fs = Inr b" "pool_IPInterface (sv_ipPool sv) = (Inr net, pool)"
    "NewSilo h (cs_Name sc) (Finalize h (network_options sc (net\<lparr>InternetAccess := n_InternetAccess (cs_Network sc)\<rparr>) b)) t = (Ok s0, t1)"
    "Init h s0 t1 = (Ok (), s1, t2)" "Start h s1 t2 = (Ok (), s2, t3)"
    "sv' = sv\<lparr>sv_ipPool := pool, sv_heap := sv_heap sv @ [s2], sv_silos := sv_silos sv @ [(cs_Name sc, length (sv_heap sv))],
              sv_meta := md, sv_spawned := sv_spawned sv @ [length (sv_heap sv)]\<rparr>"
proof -
  from r obtain b net pool where b: "resolve_options (sv_config sv) sc fs = Inr b" "pool_IPInterface (sv_ipPool sv) = (Inr net, pool)"
    and l: "launch_silo h (cs_Name sc) (net\<lparr>InternetAccess := n_InternetAccess (cs_Network sc)\<rparr>)
      (network_options sc (net\<lparr>InternetAccess := n_InternetAccess (cs_Network sc)\<rparr>) b) (sv\<lparr>sv_ipPool := pool\<rparr>) t = (Ok (), sv', t')"
    by (auto simp: startSiloInternal_def srv_ok pool_interface_def Let_def split: sum.splits prod.splits)
  from f have "go_lookup (sv_silos (sv\<lparr>sv_ipPool := pool\<rparr>)) (cs_Name sc) = None" by simp
  then obtain s0 s1 s2 t1 t2 t3 md where
    s: "NewSilo h (cs_Name sc) (Finalize h (network_options sc (net\<lparr>InternetAccess := n_InternetAccess (cs_Network sc)\<rparr>) b)) t = (Ok s0, t1)"
      "Init h s0 t1 = (Ok (), s1, t2)" "Start h s1 t2 = (Ok (), s2, t3)" and sv': "sv' = (sv\<lparr>sv_ipPool := pool\<rparr>)
        \<lparr>sv_heap := sv_heap (sv\<lparr>sv_ipPool := pool\<rparr>) @ [s2],
         sv_silos := sv_silos (sv\<lparr>sv_ipPool := pool\<rparr>) @ [(cs_Name sc, length (sv_heap (sv\<lparr>sv_ipPool := pool\<rparr>)))], sv_meta := md,
         sv_spawned := sv_spawned (sv\<lparr>sv_ipPool := pool\<rparr>) @ [length (sv_heap (sv\<lparr>sv_ipPool := pool\<rparr>))]\<rparr>"
    using launch_ok [OF l] by metis
  show thesis by (rule that [OF b s, of md]) (simp add: sv')
qed

lemma setup_two_ok:
  assumes "setup_loop (Setup h pid k) 0 [IPInterf i, LoopbackInterface] t = (Ok (), is, t')" "\<not> isSetup i"
  shows "\<exists>j. is = [IPInterf j, LoopbackInterface] \<and> isSetup j"
  using assms by (auto simp: Let_def dest: ip_Setup_isSetup(1) split: prod.splits res.splits)

lemma NewSilo_fields:
  assumes "NewSilo h name opts t = (Ok s, t')"
  shows "s_Class s = o_Class opts" "s_Tags s = o_Tags opts" "s_Grant s = o_Grant opts" "s_Cmd s = o_Cmd opts" "s_Args s = o_Args opts" "s_Env s = o_Env opts"
  using assms by (auto simp: NewSilo_def new_silo_def io_ok Let_def ignore_io_def split: if_splits)

lemma Start_fields:
  assumes "Start h s t = (Ok (), s', t')"
  shows "s_Class s' = s_Class s \<and> s_Tags s' = s_Tags s \<and> s_Grant s' = s_Grant s \<and> s_Cmd s' = s_Cmd s \<and> s_Args s' = s_Args s \<and> s_Env s' = s_Env s \<and>
    s_Name s' = s_Name s \<and> s_IDHex s' = s_IDHex s \<and> s_cgroupConfig s' = s_cgroupConfig s \<and> s_State s' = StateRunning"
  using Start_cases [OF assms] by (auto simp: started_silo_def)

text \<open>The options that reach the silo are those of the packet.\<close>

lemma resolve_fields:
  assumes "resolve_options c sc fs = Inr b"
  shows "o_Class b = cs_Class sc \<and> o_Tags b = cs_Tags sc \<and> o_Grant b = cs_Grant sc \<and> o_Cmd b = b_Path (cs_Binary sc) \<and>
    o_Args b = b_Args (cs_Binary sc) \<and> o_Env b = b_Env (cs_Binary sc) \<and> o_CPUSharePercent b = r_CPUPercent (cs_Resources sc) \<and>
    o_MaxMemoryBytes b = r_MaxMemoryBytes (cs_Resources sc) \<and> \<not> (0 < r_CPUPercent (cs_Resources sc) \<and> r_CPUPercent (cs_Resources sc) < 4)"
proof -
  let ?same = "\<lambda>b' b. \<exists>bs. b' = b\<lparr>o_Bases := bs\<rparr>"
  have image: "find_image k base imgs b = Inr b' \<Longrightarrow> ?same b' b" for k base imgs b b'
    by (induction imgs arbitrary: k) (auto simp: AddFS_def split: if_splits)
  have self: "?same b b" for b :: Options by (rule exI [of _ "o_Bases b"]) simp
  have files: "?same (resolveFiles fs b) b" for fs b
    by (induction fs b rule: resolveFiles.induct) (auto simp: AddFS_def self)
  have binds: "resolveBinds specs ms b = Inr b' \<Longrightarrow> ?same b' b" for specs ms b b'
    by (induction specs ms b rule: resolveBinds.induct) (auto simp: AddFS_def self split: option.splits)
  from assms obtain b1 where b: "resolveBase c (cs_Base sc) (up_builder c sc) = Inr b1"
    "resolveBinds (c_Binds c) (cs_Binds sc) (resolveFiles fs b1) = Inr b" "\<not> (0 < r_CPUPercent (cs_Resources sc) \<and> r_CPUPercent (cs_Resources sc) < 4)"
    by (auto simp: resolve_options_def result_simps split: if_splits)
  have "?same b1 (up_builder c sc)" using b(1) image by (auto simp: resolveBase_def AddFS_def split: if_splits)
  with binds [OF b(2)] files [of fs b1] b(3) show ?thesis by (auto simp: up_builder_def)
qed

text \<open>The limits that a description asks for, as microseconds per period of a twentieth of a second and as bytes.\<close>

definition asked_limits :: "conf_Silo \<Rightarrow> CGroupConfig option" where
  "asked_limits sc =
     (let cpu = r_CPUPercent (cs_Resources sc); mem = r_MaxMemoryBytes (cs_Resources sc) in
      if cpu \<le> 0 \<and> mem \<le> 0 then None
      else Some \<lparr>CPUTimeBetweenPeriodsUS = (if 0 < cpu then 50000 else 0),
                 CPUTimePerPeriodUS = (if 0 < cpu then wrap64 (500 * cpu) else 0), MemoryMaxBytes = max 0 mem\<rparr>)"

lemma up_starts:
  assumes u: "rq_Up req = Inr pkt" "up_SiloConf pkt = Some sc"
    and r: "siloUpHandler h req sv t = (Ok w, sv', t')" "WriteUp resp \<in> set w"
  shows "\<exists>s i. go_lookup (sv_silos sv') (cs_Name sc) = Some (length (sv_heap sv)) \<and> sv_heap sv' ! length (sv_heap sv) = s \<and>
    length (sv_heap sv) \<in> set (sv_spawned sv') \<and>
    s_State s = StateRunning \<and> s_Name s = cs_Name sc \<and> s_Class s = cs_Class sc \<and> s_Tags s = cs_Tags sc \<and> s_Grant s = cs_Grant sc \<and>
    s_Cmd s = b_Path (cs_Binary sc) \<and> s_Args s = b_Args (cs_Binary sc) \<and> take (length (b_Env (cs_Binary sc))) (s_Env s) = b_Env (cs_Binary sc) \<and>
    \<not> (0 < r_CPUPercent (cs_Resources sc) \<and> r_CPUPercent (cs_Resources sc) < 4) \<and> s_cgroupConfig s = asked_limits sc \<and>
    s_Interfaces s = [IPInterf i, LoopbackInterface] \<and> isSetup i \<and>
    upr_IDHex resp = s_IDHex s \<and> upr_Interfaces resp = map plain_interface (concat (map Info (s_Interfaces s)))"
proof (cases rule: up_stages [OF u r(1), case_names stop_failed tried])
  case (stop_failed r1 t1)
  with r(2) show ?thesis by blast
next
  case (tried sv1 t1 r2 t2)
  have r2: "r2 = Ok ()" and p: "\<exists>p. go_lookup (sv_silos sv') (cs_Name sc) = Some p \<and>
      resp = \<lparr>upr_IDHex = s_IDHex (sv_heap sv' ! p), upr_Interfaces = described (sv_heap sv' ! p)\<rparr>"
    using tried(3) [OF refl r(2)] by blast+
  have sv1: "go_lookup (sv_silos sv1) (cs_Name sc) = None" "length (sv_heap sv1) = length (sv_heap sv)"
    using tried(1) stop_cases [of h "cs_Name sc" sv t "Ok ()" sv1 t1] by (auto simp: delete_conv')
  from tried(2) r2 have st: "startSiloInternal h sc (up_Files pkt) sv1 t1 = (Ok (), sv', t2)" by simp
  obtain b net pool s0 s1 s2 u1 u2 u3 md where b: "resolve_options (sv_config sv1) sc (up_Files pkt) = Inr b"
    and n: "pool_IPInterface (sv_ipPool sv1) = (Inr net, pool)"
    and s: "NewSilo h (cs_Name sc) (Finalize h (network_options sc (net\<lparr>InternetAccess := n_InternetAccess (cs_Network sc)\<rparr>) b)) t1 = (Ok s0, u1)"
      "Init h s0 u1 = (Ok (), s1, u2)" "Start h s1 u2 = (Ok (), s2, u3)"
    and sv': "sv' = sv1\<lparr>sv_ipPool := pool, sv_heap := sv_heap sv1 @ [s2], sv_silos := sv_silos sv1 @ [(cs_Name sc, length (sv_heap sv1))],
              sv_meta := md, sv_spawned := sv_spawned sv1 @ [length (sv_heap sv1)]\<rparr>"
    by (rule start_ok [OF st sv1(1)])
  let ?i = "net\<lparr>InternetAccess := n_InternetAccess (cs_Network sc)\<rparr>"
  let ?o = "Finalize h (network_options sc ?i b)"
  have l: "go_lookup (sv_silos sv') (cs_Name sc) = Some (length (sv_heap sv))" "sv_heap sv' ! length (sv_heap sv) = s2"
    "length (sv_heap sv) \<in> set (sv_spawned sv')"
    using sv1(1) nth_append_length [of "sv_heap sv1" s2] by (auto simp: sv' map_add_def sv1(2) [symmetric])
  note rf = resolve_fields [OF b] resolve_interfaces [OF b]
  have f0: "s_Class s0 = cs_Class sc" "s_Tags s0 = cs_Tags sc" "s_Grant s0 = cs_Grant sc" "s_Cmd s0 = b_Path (cs_Binary sc)"
    "s_Args s0 = b_Args (cs_Binary sc)" "take (length (b_Env (cs_Binary sc))) (s_Env s0) = b_Env (cs_Binary sc)" "s_Name s0 = cs_Name sc"
    "s_Interfaces s0 = [IPInterf ?i, LoopbackInterface]"
    "s_cgroupConfig s0 = asked_limits sc"
    using NewSilo_fields [OF s(1)] NewSilo_ok [OF s(1)] rf
    by (auto simp: Finalize_def network_options_def Let_def silo_limits_def asked_limits_def)
  have f1: "init_frame s0 s1" "s_State s1 = StatePending" "s_child s1 \<noteq> None" using Init_cases [OF s(2)] by auto
  have f2: "s_Interfaces s1 = [IPInterf ?i, LoopbackInterface]" using f0(8) f1(1) by (simp add: init_frame_def)
  have "\<not> isSetup ?i" using pool_IPInterface_fields [OF n] by simp
  with Start_cases [OF s(3)] f1(2,3) f2 obtain j where j: "s_Interfaces s2 = [IPInterf j, LoopbackInterface]" "isSetup j"
    by (auto simp: started_silo_def simp del: setup_loop.simps dest!: setup_two_ok)
  have "resp = \<lparr>upr_IDHex = s_IDHex s2, upr_Interfaces = described s2\<rparr>" using p l by auto
  with l j f0 f1(1) Start_fields [OF s(3)] rf(1) show ?thesis
    by (intro exI [of _ s2] exI [of _ j]) (simp add: init_frame_def described_def)
qed

text \<open>Running silos of different names in a good state share no address, and none of theirs is free.\<close>

lemma running_slices:
  assumes ok: "sv_ok p0 k sv" "pool_inv q n m p0 {}" "k \<le> m"
    and l: "go_lookup (sv_silos sv) a = Some p" "s_State (sv_heap sv ! p) = StateRunning" "IPInterf i \<in> set (s_Interfaces (sv_heap sv ! p))"
  shows "Slice i \<noteq> []" "BridgeIP i \<in> set (Slice i)" "SiloIP i \<in> set (Slice i)" "set (Slice i) \<inter> set (pool_free (sv_ipPool sv)) = {}"
    "list_all (Contains (v4_net q n)) (Slice i)"
    "go_lookup (sv_silos sv) b = Some p' \<Longrightarrow> b \<noteq> a \<Longrightarrow> s_State (sv_heap sv ! p') = StateRunning \<Longrightarrow>
      IPInterf j \<in> set (s_Interfaces (sv_heap sv ! p')) \<Longrightarrow> set (Slice j) \<inter> set (Slice i) = {}"
proof -
  have t: "table_ok sv" using ok(1) by (auto simp: sv_ok_def sv_inv_def)
  note o = owed_facts [OF ok]
  have owes: "running_owes (sv_heap sv ! p) = Slice i \<and> net_silo i (sv_heap sv ! p)"
    if "go_lookup (sv_silos sv) a = Some p" "s_State (sv_heap sv ! p) = StateRunning" "IPInterf i \<in> set (s_Interfaces (sv_heap sv ! p))" for a p i
    using table_lookup(3) [OF t that(1)] that(2,3) by (auto simp: stored_ok_def net_silo_def running_owes_def)
  note i = owes [OF l]
  then show "Slice i \<noteq> []" "BridgeIP i \<in> set (Slice i)" "SiloIP i \<in> set (Slice i)" by (auto simp: net_silo_def)
  have sub: "set (Slice i) \<subseteq> set (owed sv)" using owed_member [OF l(1)] i by auto
  then show "set (Slice i) \<inter> set (pool_free (sv_ipPool sv)) = {}" "list_all (Contains (v4_net q n)) (Slice i)"
    using o by (auto simp: list_all_iff)
  assume j: "go_lookup (sv_silos sv) b = Some p'" "b \<noteq> a" "s_State (sv_heap sv ! p') = StateRunning"
    "IPInterf j \<in> set (s_Interfaces (sv_heap sv ! p'))"
  have d: "distinct (owed sv)" using o by simp
  show "set (Slice j) \<inter> set (Slice i) = {}"
    using owed_disjoint [OF d l(1) j(1) _ _ t] i owes [OF j(1,3,4)] j(2) by auto
qed

text \<open>
  C13. What a successful \<open>/up\<close> does, in any reachable state of a daemon made with an IPv4 pool. If the handler
  answers with a packet, the name of the request now stands for a new silo, made by this request: it is running,
  with the class, tags, grants, command and arguments asked for and an environment that begins with the one asked
  for; its CPU quota is 500 microseconds per percent in every 50000 and its memory limit the bytes asked for,
  each only if asked for (a CPU share of one to three percent is never accepted); it has the loopback and one
  interface, which has been set up, whose addresses lie in the subnet, are not free in the pool, and none of
  which belongs to an interface of another running silo; the packet has its ID and its interfaces; and a
  goroutine has been spawned that will await it.
\<close>

theorem up_starts_silo:
  assumes "length q = 4" "n \<le> 32" "c_AddressPool c = cidr_string q n" "NewServer h keypair c t0 = (Ok sv0, t1)"
    and "sv_run h sv0 t1 k sv tr" "4 * Suc k \<le> 2 ^ 127"
    and u: "rq_Up req = Inr pkt" "up_SiloConf pkt = Some sc"
    and r: "siloUpHandler h req sv t = (Ok w, sv', t')" "WriteUp resp \<in> set w"
  shows "\<exists>s i. go_lookup (sv_silos sv') (cs_Name sc) = Some (length (sv_heap sv)) \<and> sv_heap sv' ! length (sv_heap sv) = s \<and>
    length (sv_heap sv) \<in> set (sv_spawned sv') \<and>
    s_State s = StateRunning \<and> s_Name s = cs_Name sc \<and> s_Class s = cs_Class sc \<and> s_Tags s = cs_Tags sc \<and> s_Grant s = cs_Grant sc \<and>
    s_Cmd s = b_Path (cs_Binary sc) \<and> s_Args s = b_Args (cs_Binary sc) \<and> take (length (b_Env (cs_Binary sc))) (s_Env s) = b_Env (cs_Binary sc) \<and>
    \<not> (0 < r_CPUPercent (cs_Resources sc) \<and> r_CPUPercent (cs_Resources sc) < 4) \<and>
    s_cgroupConfig s =
      (let cpu = r_CPUPercent (cs_Resources sc); mem = r_MaxMemoryBytes (cs_Resources sc) in
       if cpu \<le> 0 \<and> mem \<le> 0 then None
       else Some \<lparr>CPUTimeBetweenPeriodsUS = (if 0 < cpu then 50000 else 0),
                  CPUTimePerPeriodUS = (if 0 < cpu then wrap64 (500 * cpu) else 0), MemoryMaxBytes = max 0 mem\<rparr>) \<and>
    s_Interfaces s = [IPInterf i, LoopbackInterface] \<and> isSetup i \<and> BridgeIP i \<in> set (Slice i) \<and> SiloIP i \<in> set (Slice i) \<and>
    list_all (Contains (v4_net q n)) (Slice i) \<and> set (Slice i) \<inter> set (pool_free (sv_ipPool sv')) = {} \<and>
    (\<forall>name p j. name \<noteq> cs_Name sc \<longrightarrow> go_lookup (sv_silos sv') name = Some p \<longrightarrow> s_State (sv_heap sv' ! p) = StateRunning \<longrightarrow>
       IPInterf j \<in> set (s_Interfaces (sv_heap sv' ! p)) \<longrightarrow> set (Slice j) \<inter> set (Slice i) = {}) \<and>
    upr_IDHex resp = s_IDHex s \<and> upr_Interfaces resp = map plain_interface (concat (map Info (s_Interfaces s)))"
proof -
  have k: "4 * k \<le> 2 ^ 127" "4 * k + 4 \<le> 2 ^ 127" using assms(6) by simp_all
  note p0 = history_ok(1) [OF assms(1-5) k(1)] and ok = history_ok(2) [OF assms(1-5) k(1)]
  have ok': "sv_ok (sv_ipPool sv0) (4 * k + 4) sv'" by (rule keeps_okD [OF keeps_ok_up [OF p0 k(2)] ok r(1)])
  show ?thesis
    using up_starts [OF u r]
  proof (elim exE, goal_cases)
    case (1 s i)
    have l: "go_lookup (sv_silos sv') (cs_Name sc) = Some (length (sv_heap sv))"
      "s_State (sv_heap sv' ! length (sv_heap sv)) = StateRunning" "IPInterf i \<in> set (s_Interfaces (sv_heap sv' ! length (sv_heap sv)))"
      using 1 by simp_all
    note sl = running_slices [OF ok' p0 k(2) l]
    have "\<forall>name p j. name \<noteq> cs_Name sc \<longrightarrow> go_lookup (sv_silos sv') name = Some p \<longrightarrow> s_State (sv_heap sv' ! p) = StateRunning \<longrightarrow>
       IPInterf j \<in> set (s_Interfaces (sv_heap sv' ! p)) \<longrightarrow> set (Slice j) \<inter> set (Slice i) = {}"
      using sl(6) by blast
    with 1 sl(2-5) show ?case
      unfolding asked_limits_def by (intro exI [of _ s] exI [of _ i] conjI) (simp_all only: simp_thms)
  qed
qed

section \<open>Examples\<close>

definition ex_handled :: "response res \<times> Server \<times> trace" where
  "ex_handled = siloUpHandler ex_sv_host (ex_up ''web'') ex_server (snd ex_new)"

definition ex_answer :: UpPacketResponse where
  "ex_answer = (case fst ex_handled of Ok [WriteUp resp] \<Rightarrow> resp)"

lemma ex_handled_ok: "siloUpHandler ex_sv_host (ex_up ''web'') ex_server (snd ex_new) = (Ok [WriteUp ex_answer], snd ex_handled)"
proof -
  have "(case fst ex_handled of Ok [WriteUp resp] \<Rightarrow> True | _ \<Rightarrow> False)" by code_simp
  then have "fst ex_handled = Ok [WriteUp ex_answer]" by (auto simp: ex_answer_def split: res.splits list.splits wevent.splits)
  then show ?thesis unfolding ex_handled_def [symmetric] by (metis prod.collapse)
qed

theorem up_starts_silo_witness:
  "\<exists>s. go_lookup (sv_silos (fst (snd ex_handled))) ''web'' = Some 0 \<and> sv_heap (fst (snd ex_handled)) ! 0 = s \<and>
     s_State s = StateRunning \<and> s_Cmd s = ''/bin/sh'' \<and> s_cgroupConfig s = None \<and> upr_IDHex ex_answer = s_IDHex s"
proof -
  have e: "sv_heap ex_server = []" by code_simp
  have r: "siloUpHandler ex_sv_host (ex_up ''web'') ex_server (snd ex_new) = (Ok [WriteUp ex_answer], fst (snd ex_handled), snd (snd ex_handled))"
    using ex_handled_ok by simp
  have "4 * Suc 0 \<le> (2 :: nat) ^ 127" by simp
  from up_starts_silo [OF ex_cidr ex_new_ok sv_run.start this _ _ r, of "\<lparr>up_SiloConf = Some (ex_spec ''web''), up_Files = []\<rparr>" "ex_spec ''web''" ex_answer]
  show ?thesis by (auto simp: ex_up_def ex_spec_def e)
qed

section \<open>Isolation\<close>

text \<open>The name that a request is about.\<close>

definition target :: "request \<Rightarrow> Server \<Rightarrow> string option" where
  "target req sv =
     (if rq_Path req = ''/up'' then (case rq_Up req of Inl _ \<Rightarrow> None | Inr pkt \<Rightarrow> map_option cs_Name (up_SiloConf pkt))
      else if rq_Path req = ''/down'' then
        (case rq_Down req of
           Inl _ \<Rightarrow> None
         | Inr pkt \<Rightarrow>
           if dn_SiloID pkt = [] \<and> dn_SiloName pkt = [] \<or> dn_SiloID pkt \<noteq> [] \<and> dn_SiloName pkt \<noteq> [] then None
           else Some (if dn_SiloID pkt = [] then dn_SiloName pkt else name_of_id (dn_SiloID pkt) (sv_heap sv) (sv_silos sv)))
      else None)"

definition silos_same :: "Server \<Rightarrow> Server \<Rightarrow> bool" where
  "silos_same sv sv' \<longleftrightarrow> sv_silos sv' = sv_silos sv \<and> sv_heap sv' = sv_heap sv \<and> sv_ipPool sv' = sv_ipPool sv \<and> sv_meta sv' = sv_meta sv"

lemma silos_same_others: "silos_same sv sv' \<Longrightarrow> others_same n sv sv'"
  by (simp add: silos_same_def others_same_def)

lemma stop_request_others:
  assumes "table_ok sv" "stop_request h n sv t = (r, sv', t')"
  shows "others_same n sv sv'"
proof -
  obtain r1 sv1 t1 where s: "stopSiloInternal h n sv t = (r1, sv1, t1)" by (cases "stopSiloInternal h n sv t")
  with assms(2) have "sv' = sv1" by (cases r1) (auto simp: stop_request_def srv_defs)
  with stop_others [OF assms(1) s] show ?thesis by simp
qed

text \<open>The handlers that are about no silo.\<close>

lemma plain_handlers:
  "enableEnrollHandler h u sv t = (r, sv', t') \<Longrightarrow> silos_same sv sv'"
  "blindEnrollHandler h req sv t = (r, sv', t') \<Longrightarrow> silos_same sv sv'"
  "listSilosHandler h req sv t = (r, sv', t') \<Longrightarrow> silos_same sv sv'"
  "setHostHandler req sv t = (r, sv', t') \<Longrightarrow> silos_same sv sv'"
  by (auto simp: enableEnrollHandler_def blindEnrollHandler_def listSilosHandler_def setHostHandler_def srv_defs now_s_def
      silos_same_def split: option.splits sum.splits prod.splits res.splits if_splits)

lemma untargeted_dispatch:
  assumes "dispatch h u req sv t = (r, sv', t')" "target req sv = None"
  shows "silos_same sv sv'"
proof (cases "rq_Path req = ''/up'' \<or> rq_Path req = ''/down''")
  case True
  with assms show ?thesis
    by (auto simp: dispatch_def target_def siloUpHandler_def siloDownHandler_def srv_defs silos_same_def split: sum.splits if_splits option.splits)
next
  case False
  with assms(1) plain_handlers show ?thesis
    by (auto simp: dispatch_def ret_s_def silos_same_def split: if_splits)
qed

lemma targeted_dispatch:
  assumes "dispatch h u req sv t = (r, sv', t')" "target req sv = Some n" "sv_inv p0 k [] sv"
  shows "others_same n sv sv'"
proof (cases "rq_Path req = ''/up''")
  case True
  with assms(2) obtain pkt sc where u: "rq_Up req = Inr pkt" "up_SiloConf pkt = Some sc" "n = cs_Name sc"
    by (auto simp: target_def split: sum.splits)
  have "siloUpHandler h req sv t = (r, sv', t')" using True assms(1) by (simp add: dispatch_def)
  from up_others [OF u(1,2) this assms(3)] show ?thesis by (simp add: u(3))
next
  case False
  with assms(2) have d: "rq_Path req = ''/down''" by (auto simp: target_def split: if_splits)
  have t: "table_ok sv" using assms(3) by (simp add: sv_inv_def)
  from assms d have "stop_request h n sv t = (r, sv', t') \<or> sv' = sv"
    by (auto simp: dispatch_def siloDownHandler_def target_def srv_defs Let_def split: sum.splits if_splits)
  then show ?thesis using stop_request_others [OF t] others_same_refl by blast
qed

text \<open>
  C3. One request, one silo. In every reachable state of the daemon a request changes at most the silo
  of the name it is about, however it ends: for a request to start or to stop a silo all other names keep
  their entry in the table, and the silos there are exactly as they were; any other request, and one that
  names no silo, leaves all silos, the address pool and the metadata service alone.
\<close>

theorem requests_are_isolated:
  assumes "length q = 4" "n \<le> 32" "c_AddressPool c = cidr_string q n" "NewServer h keypair c t0 = (Ok sv0, t1)"
    and "sv_run h sv0 t1 k sv t" "4 * k \<le> 2 ^ 127" and r: "ServeHTTP h req sv t = (r, sv', t')"
  shows "case target req sv of
      Some name \<Rightarrow> \<forall>other. other \<noteq> name \<longrightarrow> go_lookup (sv_silos sv') other = go_lookup (sv_silos sv) other \<and>
        (\<forall>p. go_lookup (sv_silos sv) other = Some p \<longrightarrow> sv_heap sv' ! p = sv_heap sv ! p)
    | None \<Rightarrow> sv_silos sv' = sv_silos sv \<and> sv_heap sv' = sv_heap sv \<and> sv_ipPool sv' = sv_ipPool sv \<and> sv_meta sv' = sv_meta sv"
proof -
  obtain j where inv: "sv_inv (sv_ipPool sv0) j [] sv"
    using history_ok(2) [OF assms(1-6)] by (auto simp: sv_ok_def)
  from r consider (refused) "sv' = sv" | (served) u t1 where "dispatch h u req sv t1 = (r, sv', t')"
    by (auto simp: ServeHTTP_def split: prod.splits res.splits)
  then show ?thesis
  proof cases
    case refused
    then show ?thesis by (simp split: option.split)
  next
    case served
    with untargeted_dispatch [OF served] targeted_dispatch [OF served _ inv] show ?thesis
      by (simp add: silos_same_def others_same_def split: option.split)
  qed
qed

definition ex_second :: "response res \<times> Server \<times> trace" where
  "ex_second = ServeHTTP ex_sv_host (ex_up ''db'') ex_sv (snd (snd ex_upped))"

theorem requests_are_isolated_witness:
  "target (ex_up ''db'') ex_sv = Some ''db'' \<and> go_lookup (sv_silos (fst (snd ex_second))) ''web'' = Some 0 \<and>
     sv_heap (fst (snd ex_second)) ! 0 = sv_heap ex_sv ! 0"
proof -
  have r: "ServeHTTP ex_sv_host (ex_up ''db'') ex_sv (snd (snd ex_upped)) = (fst ex_second, fst (snd ex_second), snd (snd ex_second))"
    by (simp add: ex_second_def)
  have t: "target (ex_up ''db'') ex_sv = Some ''db''" by (simp add: target_def ex_up_def ex_req_def ex_spec_def)
  have "(4::nat) * 1 \<le> 2 ^ 127" by simp
  from requests_are_isolated [OF ex_cidr ex_new_ok ex_run this r] t
  have "other \<noteq> ''db'' \<Longrightarrow> go_lookup (sv_silos ex_sv) other = Some p \<Longrightarrow>
      go_lookup (sv_silos (fst (snd ex_second))) other = Some p \<and> sv_heap (fst (snd ex_second)) ! p = sv_heap ex_sv ! p" for other p by auto
  from this [of "''web''" 0] t ex_facts(1) show ?thesis by simp
qed


section \<open>Enrolment\<close>

lemma ignore_call: "ignore_io (do_call h c) t = (Ok (), t @ [(c, h_err h t c)])"
  by (simp add: io_defs split: option.split)

lemma stop_enrolment:
  assumes "stopSiloInternal h n sv t = (r, sv', t')"
  shows "enrolment sv' = enrolment sv"
  using stop_cases [OF assms] by (auto simp: enrolment_def)

lemma up_enrolment:
  assumes r: "siloUpHandler h req sv t = (r, sv', t')"
  shows "enrolment sv' = enrolment sv"
proof (cases "\<exists>pkt sc. rq_Up req = Inr pkt \<and> up_SiloConf pkt = Some sc")
  case True
  then obtain pkt sc where u: "rq_Up req = Inr pkt" "up_SiloConf pkt = Some sc" by blast
  show ?thesis
  proof (cases rule: up_stages [OF u r, case_names stop_failed tried])
    case (stop_failed r1 t1)
    then show ?thesis using stop_enrolment by blast
  next
    case (tried sv1 t1 r2 t2)
    have "enrolment sv1 = enrolment sv" using tried(1) stop_enrolment by blast
    with start_grown [OF tried(2)] show ?thesis by (simp add: grown_def)
  qed
qed (use r in \<open>auto simp: siloUpHandler_def srv_defs split: sum.splits option.splits\<close>)

lemma down_enrolment:
  assumes r: "siloDownHandler h req sv t = (r, sv', t')"
  shows "enrolment sv' = enrolment sv"
proof -
  have "enrolment sv1 = enrolment sv" if q: "stop_request h n sv t = (r1, sv1, t1)" for n r1 sv1 t1
  proof -
    obtain r2 sv2 t2 where s: "stopSiloInternal h n sv t = (r2, sv2, t2)" by (cases "stopSiloInternal h n sv t")
    with q have "sv1 = sv2" by (cases r2) (auto simp: stop_request_def srv_defs)
    with stop_enrolment [OF s] show ?thesis by simp
  qed
  with r show ?thesis by (auto simp: siloDownHandler_def srv_defs Let_def split: sum.splits if_splits)
qed

text \<open>
  C17. Who can enrol. Only a call of the enable-enroll endpoint, in the open mode or by a caller whose
  certificate is on the list, moves the deadline or the key of the enrolment; and a call of the enroll
  endpoint after the deadline, or without the key, is refused without opening the list of certificates
  or changing anything.
\<close>

theorem enrolment_is_guarded:
  assumes r: "ServeHTTP h req sv t = (r, sv', t')"
  shows "((sv_deadline sv', sv_key sv') \<noteq> (sv_deadline sv, sv_key sv) \<longrightarrow>
      rq_Path req = ''/enable-enroll'' \<and>
      (c_Mode (sv_config sv) = ''open'' \<or> (\<exists>u t1. checkAuthorized h (sv_config sv) (rq_Path req) (rq_TLS req) t = (Ok (Some u), t1)))) \<and>
    (rq_Path req = ''/enroll'' \<longrightarrow>
      (let t1 = t @ [(Proc (Sleep 50), h_err h t (Proc (Sleep 50)))]; now = h_int h t1 (Proc Now) in
       sv_deadline sv < now \<or> query_get req ''key'' \<noteq> sv_key sv \<longrightarrow>
         r = Ok [WriteHeader 403, WriteText ''Failed''] \<and> sv' = sv \<and> t' = t1 @ [(Proc Now, None)]))"
proof
  show "(sv_deadline sv', sv_key sv') \<noteq> (sv_deadline sv, sv_key sv) \<longrightarrow>
      rq_Path req = ''/enable-enroll'' \<and>
      (c_Mode (sv_config sv) = ''open'' \<or> (\<exists>u t1. checkAuthorized h (sv_config sv) (rq_Path req) (rq_TLS req) t = (Ok (Some u), t1)))"
  proof
    assume ch: "(sv_deadline sv', sv_key sv') \<noteq> (sv_deadline sv, sv_key sv)"
    then obtain u t1 where a: "checkAuthorized h (sv_config sv) (rq_Path req) (rq_TLS req) t = (Ok u, t1)"
      and d: "dispatch h u req sv t1 = (r, sv', t')"
      using r by (auto simp: ServeHTTP_def split: prod.splits res.splits)
    have "enrolment sv' \<noteq> enrolment sv" using ch by (auto simp: enrolment_def)
    then have "rq_Path req \<noteq> ''/up''" "rq_Path req \<noteq> ''/down''"
      using d up_enrolment down_enrolment by (auto simp: dispatch_def)
    moreover have "blindEnrollHandler h req sv t1 = (r, sv', t') \<Longrightarrow> sv' = sv" "listSilosHandler h req sv t1 = (r, sv', t') \<Longrightarrow> sv' = sv"
      "setHostHandler req sv t1 = (r, sv', t') \<Longrightarrow> sv_deadline sv' = sv_deadline sv \<and> sv_key sv' = sv_key sv"
      by (auto simp: blindEnrollHandler_def listSilosHandler_def setHostHandler_def srv_defs now_s_def
          split: option.splits sum.splits prod.splits res.splits if_splits)
    ultimately have p: "rq_Path req = ''/enable-enroll''" using d ch by (auto simp: dispatch_def ret_s_def split: if_splits)
    then show "rq_Path req = ''/enable-enroll'' \<and> (c_Mode (sv_config sv) = ''open'' \<or>
        (\<exists>u t1. checkAuthorized h (sv_config sv) (rq_Path req) (rq_TLS req) t = (Ok (Some u), t1)))"
      using a by (cases u) (auto simp: checkAuthorized_def AuthModeOpen_def io_ok split: if_splits option.splits list.splits)
  qed
next
  show "rq_Path req = ''/enroll'' \<longrightarrow>
      (let t1 = t @ [(Proc (Sleep 50), h_err h t (Proc (Sleep 50)))]; now = h_int h t1 (Proc Now) in
       sv_deadline sv < now \<or> query_get req ''key'' \<noteq> sv_key sv \<longrightarrow>
         r = Ok [WriteHeader 403, WriteText ''Failed''] \<and> sv' = sv \<and> t' = t1 @ [(Proc Now, None)])"
    using r by (auto simp: ServeHTTP_def checkAuthorized_def AuthModeOpen_def ret_def dispatch_def blindEnrollHandler_def
        srv_defs now_s_def ignore_call httpErr_def Let_def split: if_splits)
qed

theorem enrolment_is_guarded_witness:
  "fst (ServeHTTP calm (ex_req ''/enroll'') (ex_server\<lparr>sv_key := ''x'', sv_deadline := 5\<rparr>) []) = Ok [WriteHeader 403, WriteText ''Failed'']"
proof -
  let ?s = "ex_server\<lparr>sv_key := ''x'', sv_deadline := 5\<rparr>"
  obtain r sv' t' where r: "ServeHTTP calm (ex_req ''/enroll'') ?s [] = (r, sv', t')" by (cases "ServeHTTP calm (ex_req ''/enroll'') ?s []")
  from enrolment_is_guarded [OF r] r show ?thesis by (simp add: ex_req_def query_get_def Let_def)
qed

text \<open>
  C39. The window opens before the key exists. When the random bytes for the key cannot be read, the call
  of enable-enroll answers 500, but the server it leaves differs from the one before exactly in the deadline,
  which has been moved to the configured window from now: the previous key is good again. An enrolment whose
  turn comes no later than that deadline and which carries the previous key (the empty one, that is no key at
  all, on a daemon that started without a window) is let through, and if the certificate presented can be added
  to the list it is, with the role root.
\<close>

theorem failed_enable_opens_enrolment:
  assumes f: "h_err h (t @ [(Proc Now, None)]) (Proc (RandRead 8)) = Some e"
    and en: "enableEnrollHandler h u sv t = (r, sv', t')"
    and soon: "h_int h (t'' @ [(Proc (Sleep 50), h_err h t'' (Proc (Sleep 50)))]) (Proc Now) \<le> sv_deadline sv'"
    and req: "query_get req ''key'' = sv_key sv"
    and enr: "enrollCertificate h (query_get req ''name'') ''root'' (sv_config sv)
      (rq_TLS req) (t'' @ [(Proc (Sleep 50), h_err h t'' (Proc (Sleep 50))), (Proc Now, None)]) = (Ok (), t3)"
  shows "r = Ok [WriteHeader 500, WriteError e] \<and>
    sv' = sv\<lparr>sv_deadline := h_int h t (Proc Now) + wrap64 (c_BlindEnrollmentWindow (sv_config sv) * 1000000000)\<rparr> \<and>
    blindEnrollHandler h req sv' t'' = (Ok [], sv', t3)"
proof -
  have s: "r = Ok [WriteHeader 500, WriteError e] \<and> sv' = sv\<lparr>sv_deadline := h_int h t (Proc Now) + window (sv_config sv)\<rparr>"
    using en by (auto simp: enableEnrollHandler_def srv_defs now_s_def RandBytes_def io_defs f)
  moreover from this have "blindEnrollHandler h req sv' t'' = (Ok [], sv', t3)"
    using enr soon req
    by (simp add: blindEnrollHandler_def srv_defs now_s_def ignore_call roleRoot_def)
  ultimately show ?thesis by (simp add: window_def)
qed

theorem failed_enable_opens_enrolment_witness:
  "\<exists>sv' t' t3. enableEnrollHandler (failing [(Proc (RandRead 8), EOther ''EIO'')]) None ex_server [] = (Ok [WriteHeader 500, WriteError (EOther ''EIO'')], sv', t') \<and>
     blindEnrollHandler (failing [(Proc (RandRead 8), EOther ''EIO'')]) ((ex_req ''/enroll'')\<lparr>rq_TLS := Some [ex_cert]\<rparr>) sv' t' = (Ok [], sv', t3)"
proof -
  let ?h = "failing [(Proc (RandRead 8), EOther ''EIO'')]" and ?r = "(ex_req ''/enroll'')\<lparr>rq_TLS := Some [ex_cert]\<rparr>"
  obtain r sv' t' where en: "enableEnrollHandler ?h None ex_server [] = (r, sv', t')" by (cases "enableEnrollHandler ?h None ex_server []")
  have c: "sv_config ex_server = ex_conf" "sv_key ex_server = []" by code_simp+
  have f: "h_err ?h t (Proc (RandRead 8)) = Some (EOther ''EIO'')" "h_int ?h t (Proc Now) = 1" for t by (simp_all add: failing_def calm_def)
  have "1 \<le> sv_deadline (fst (snd (enableEnrollHandler ?h None ex_server [])))" by code_simp
  then have soon: "h_int ?h (t' @ [(Proc (Sleep 50), h_err ?h t' (Proc (Sleep 50)))]) (Proc Now) \<le> sv_deadline sv'" using en f(2) by simp
  have "\<exists>t3. enrollCertificate ?h (query_get ?r ''name'') ''root'' (sv_config ex_server) (rq_TLS ?r) t = (Ok (), t3)" for t
    by (auto simp: enrollCertificate_def ex_cert_def io_defs lift_result_def failing_def calm_def ex_req_def)
  then obtain t3 where enr: "enrollCertificate ?h (query_get ?r ''name'') ''root'' (sv_config ex_server) (rq_TLS ?r)
      (t' @ [(Proc (Sleep 50), h_err ?h t' (Proc (Sleep 50))), (Proc Now, None)]) = (Ok (), t3)" by blast
  have q: "query_get ?r ''key'' = sv_key ex_server" by (simp add: query_get_def ex_req_def c(2))
  from failed_enable_opens_enrolment [OF f(1) en soon q enr] en show ?thesis by auto
qed

end
