(* ===== verification/Collector.thy ===== *)
theory Collector
  imports Requests
begin

text \<open>
  The goroutines of the daemon: every running silo of the table is awaited by somebody, so that once the
  processes of the silos have ended, the goroutines and the collector have removed them after a bounded
  number of turns.
\<close>

section \<open>Silos that somebody awaits\<close>

definition watched :: "Server \<Rightarrow> nat \<Rightarrow> bool" where
  "watched sv p \<longleftrightarrow> p \<in> set (sv_spawned sv) \<or> p \<in> set (sv_waiting sv) \<or>
     \<lparr>fin_name = s_Name (sv_heap sv ! p), fin_ID = s_IDHex (sv_heap sv ! p)\<rparr> \<in> set (sv_notices sv)"

definition running_at :: "Server \<Rightarrow> string \<Rightarrow> nat \<Rightarrow> bool" where
  "running_at sv n p \<longleftrightarrow> go_lookup (sv_silos sv) n = Some p \<and> s_State (sv_heap sv ! p) = StateRunning"

definition all_watched :: "Server \<Rightarrow> bool" where
  "all_watched sv \<longleftrightarrow> (\<not> sv_closing sv \<longrightarrow> sv_collecting sv \<and> (\<forall>n p. running_at sv n p \<longrightarrow> watched sv p))"

text \<open>A change after which what runs either ran before, as it was, or has a new goroutine.\<close>

definition tended :: "Server \<Rightarrow> Server \<Rightarrow> bool" where
  "tended sv sv' \<longleftrightarrow> sv_closing sv' = sv_closing sv \<and> sv_collecting sv' = sv_collecting sv \<and>
     set (sv_spawned sv) \<subseteq> set (sv_spawned sv') \<and> sv_waiting sv' = sv_waiting sv \<and> sv_notices sv' = sv_notices sv \<and>
     (\<forall>n p. running_at sv' n p \<longrightarrow> p \<in> set (sv_spawned sv') \<or>
        running_at sv n p \<and> s_Name (sv_heap sv' ! p) = s_Name (sv_heap sv ! p) \<and> s_IDHex (sv_heap sv' ! p) = s_IDHex (sv_heap sv ! p))"

lemma tended_refl: "tended sv sv"
  by (simp add: tended_def)

lemma tended_trans: "tended sv sv1 \<Longrightarrow> tended sv1 sv2 \<Longrightarrow> tended sv sv2"
  unfolding tended_def by (metis subset_trans subsetD)

lemma tended_watched: "tended sv sv' \<Longrightarrow> all_watched sv \<Longrightarrow> all_watched sv'"
  unfolding tended_def all_watched_def watched_def by (metis subsetD)

lemma stop_tended:
  assumes "stopSiloInternal h n sv t = (r, sv', t')"
  shows "tended sv sv'"
proof (cases "go_lookup (sv_silos sv) n")
  case None
  with stop_cases [OF assms] show ?thesis by (auto simp: tended_refl)
next
  case (Some p)
  with stop_cases [OF assms] obtain s' xs md where
    s': "s' = sv_heap sv ! p \<or> s' = (sv_heap sv ! p)\<lparr>s_State := StateFinished\<rparr>"
    and sv': "sv' = sv\<lparr>sv_meta := md, sv_heap := (sv_heap sv)[p := s'], sv_ipPool := FreeAssignment xs (sv_ipPool sv),
                sv_silos := (if r = Ok () then go_delete n (sv_silos sv) else sv_silos sv)\<rparr>" by auto
  have "(sv_heap sv)[p := s'] ! q = sv_heap sv ! q \<or> s_State ((sv_heap sv)[p := s'] ! q) = StateFinished" for q
    using s' by (cases "q = p"; cases "p < length (sv_heap sv)") (auto simp: list_update_beyond)
  then show ?thesis
    unfolding tended_def sv' running_at_def by (auto simp: delete_conv' split: if_splits) (metis State.distinct)+
qed

lemma grown_tended:
  assumes "table_ok sv" "grown n sv sv'"
  shows "tended sv sv'"
proof -
  have "p < length (sv_heap sv)" if "go_lookup (sv_silos sv) m = Some p" for m p using table_lookup(2) [OF assms(1) that] .
  then show ?thesis using assms(2) unfolding tended_def grown_def running_at_def by metis
qed

lemma up_tended:
  assumes u: "rq_Up req = Inr pkt" "up_SiloConf pkt = Some sc" and r: "siloUpHandler h req sv t = (r, sv', t')"
    and inv: "sv_inv p0 k [] sv"
  shows "tended sv sv'"
proof (cases rule: up_stages [OF u r, case_names stop_failed tried])
  case (stop_failed r1 t1)
  then show ?thesis using stop_tended by blast
next
  case (tried sv1 t1 r2 t2)
  have t: "table_ok sv" using inv by (simp add: sv_inv_def)
  have "tended sv sv1 \<and> table_ok sv1"
    using tried(1)
  proof
    assume s: "stopSiloInternal h (cs_Name sc) sv t = (Ok (), sv1, t1)"
    show ?thesis using stop_tended [OF s] stop_inv [OF inv s] by (simp add: sv_inv_def)
  qed (use t in \<open>simp add: tended_refl\<close>)
  then show ?thesis using grown_tended [OF _ start_grown [OF tried(2)]] tended_trans by blast
qed

lemma down_tended:
  assumes r: "siloDownHandler h req sv t = (r, sv', t')"
  shows "tended sv sv'"
proof -
  have "tended sv sv1" if q: "stop_request h n sv t = (r1, sv1, t1)" for n r1 sv1 t1
  proof -
    obtain r2 sv2 t2 where s: "stopSiloInternal h n sv t = (r2, sv2, t2)" by (cases "stopSiloInternal h n sv t")
    with q have "sv1 = sv2" by (cases r2) (auto simp: stop_request_def srv_defs)
    with stop_tended [OF s] show ?thesis by simp
  qed
  with r show ?thesis by (auto simp: siloDownHandler_def srv_defs Let_def tended_refl split: sum.splits if_splits)
qed

lemma plain_tended:
  "enableEnrollHandler h u sv t = (r, sv', t') \<Longrightarrow> tended sv sv'"
  "blindEnrollHandler h req sv t = (r, sv', t') \<Longrightarrow> tended sv sv'"
  "listSilosHandler h req sv t = (r, sv', t') \<Longrightarrow> tended sv sv'"
  "setHostHandler req sv t = (r, sv', t') \<Longrightarrow> tended sv sv'"
  by (auto simp: enableEnrollHandler_def blindEnrollHandler_def listSilosHandler_def setHostHandler_def srv_defs now_s_def
      tended_def running_at_def split: option.splits sum.splits prod.splits res.splits if_splits)

lemma ServeHTTP_tended:
  assumes r: "ServeHTTP h req sv t = (r, sv', t')" and inv: "sv_inv p0 k [] sv"
  shows "tended sv sv'"
proof -
  have up: "tended sv sv1" if q: "siloUpHandler h req sv t1 = (r1, sv1, t2)" for t1 r1 sv1 t2
  proof (cases "\<exists>pkt sc. rq_Up req = Inr pkt \<and> up_SiloConf pkt = Some sc")
    case True
    then show ?thesis using up_tended [OF _ _ q inv] by blast
  qed (use q in \<open>auto simp: siloUpHandler_def srv_defs tended_refl split: sum.splits option.splits\<close>)
  from r consider "sv' = sv" | u t1 where "dispatch h u req sv t1 = (r, sv', t')"
    by (auto simp: ServeHTTP_def split: prod.splits res.splits)
  then show ?thesis
  proof cases
    case 2
    then show ?thesis using up down_tended plain_tended
      by (auto simp: dispatch_def ret_s_def tended_refl split: if_splits)
  qed (simp add: tended_refl)
qed

section \<open>Turns of the goroutines\<close>

lemma wait_begin_watched:
  assumes w: "all_watched sv"
  shows "all_watched (wait_begin p sv)"
proof -
  let ?sv = "wait_begin p sv"
  have f: "sv_silos ?sv = sv_silos sv" "sv_heap ?sv = sv_heap sv" "sv_closing ?sv = sv_closing sv" "sv_collecting ?sv = sv_collecting sv"
    by (simp_all add: wait_begin_def notify_def Let_def)
  have "watched ?sv q" if "watched sv q" "s_State (sv_heap sv ! q) = StateRunning" for q
    using that by (cases "q = p") (auto simp: wait_begin_def notify_def Let_def watched_def in_set_remove1)
  with w show ?thesis unfolding all_watched_def running_at_def f by blast
qed

lemma wait_end_watched:
  assumes w: "all_watched sv" and t: "table_ok sv" and r: "wait_end h p sv t = (sv', t')"
  shows "all_watched sv'"
proof (cases "s_child (sv_heap sv ! p)")
  case None
  then have sv': "sv' = sv\<lparr>sv_waiting := remove1 p (sv_waiting sv)\<rparr>" using r by (simp add: wait_end_def)
  have "q \<noteq> p" if "running_at sv n q" for n q
    using that table_lookup(3) [OF t, of n q] None by (auto simp: running_at_def stored_ok_def)
  moreover have "watched sv' q" if "watched sv q" "q \<noteq> p" for q using that by (auto simp: sv' watched_def in_set_remove1)
  moreover have "running_at sv' n q \<longleftrightarrow> running_at sv n q" for n q by (simp add: sv' running_at_def)
  ultimately show ?thesis using w by (fastforce simp: all_watched_def sv')
next
  case (Some cmd)
  let ?s = "sv_heap sv ! p"
  obtain cmd' where sv': "sv' = notify p (sv\<lparr>sv_waiting := remove1 p (sv_waiting sv), sv_heap := (sv_heap sv)[p := ?s\<lparr>s_child := Some cmd'\<rparr>]\<rparr>)"
    using r Some by (auto simp: wait_end_def split: prod.splits)
  have f: "s_State (sv_heap sv' ! q) = s_State (sv_heap sv ! q)" "s_Name (sv_heap sv' ! q) = s_Name (sv_heap sv ! q)"
    "s_IDHex (sv_heap sv' ! q) = s_IDHex (sv_heap sv ! q)" for q
    by (cases "q = p"; cases "p < length (sv_heap sv)"; simp add: sv' notify_fields list_update_beyond)+
  have g: "sv_silos sv' = sv_silos sv" "sv_spawned sv' = sv_spawned sv" "sv_closing sv' = sv_closing sv" "sv_collecting sv' = sv_collecting sv"
    "sv_waiting sv' = remove1 p (sv_waiting sv)" by (simp_all add: sv' notify_fields) (simp_all add: notify_def)
  have n: "set (sv_notices sv) \<subseteq> set (sv_notices sv')"
    "\<not> sv_closing sv \<Longrightarrow> \<lparr>fin_name = s_Name (sv_heap sv' ! p), fin_ID = s_IDHex (sv_heap sv' ! p)\<rparr> \<in> set (sv_notices sv')"
    by (auto simp: sv' notify_def)
  have "watched sv' q" if "watched sv q" "\<not> sv_closing sv" for q
    using that n by (cases "q = p") (auto simp: watched_def f g in_set_remove1)
  with w show ?thesis unfolding all_watched_def running_at_def f g by blast
qed

text \<open>With kills that succeed, a silo that was stopped no longer runs.\<close>

lemma stop_not_running:
  assumes k: "\<And>t pid. h_err h t (Proc (KillProcess pid)) = None" and t: "table_ok sv"
    and r: "stopSiloInternal h n sv t = (r, sv', t')"
  shows "\<not> running_at sv' n p"
proof (cases "go_lookup (sv_silos sv) n")
  case None
  with stop_cases [OF r] show ?thesis by (auto simp: running_at_def)
next
  case (Some q)
  let ?s = "sv_heap sv ! q"
  from table_lookup(3) [OF t Some] obtain cmd pid where c: "s_child ?s = Some cmd" "Process cmd = Some pid"
    and st: "s_State ?s \<in> {StateRunning, StateFinished}" by (auto simp: stored_ok_def)
  have kill: "\<exists>t1. close_kill h pid t = (Ok (), t1)" for t
    by (auto simp: close_kill_def io_defs k split: option.splits)
  obtain md t1 where e: "HostEvent h \<lparr>ev_event = eventSiloStopped, ev_Name = n, ev_ID = s_IDHex ?s, ev_tags = [],
      ev_interfaces = [], ev_silo = q\<rparr> (sv_meta sv) t = (md, t1)" by fastforce
  obtain r1 s' pool t2 where cl: "Close h ?s (sv_ipPool sv) t1 = (r1, s', pool, t2)" by (cases "Close h ?s (sv_ipPool sv) t1")
  have "s_State s' = StateFinished"
    using cl c st kill [of t1] by (auto simp: Close_def Let_def split: prod.splits)
  moreover have "sv_heap sv' ! q = s'" "sv_silos sv' = (if r = Ok () then go_delete n (sv_silos sv) else sv_silos sv)"
    using r Some e cl table_lookup(2) [OF t Some] by (cases r1; simp add: stopSiloInternal_def; auto)+
  ultimately show ?thesis using Some by (auto simp: running_at_def delete_conv')
qed

lemma collect_watched:
  assumes k: "\<And>t pid. h_err h t (Proc (KillProcess pid)) = None" and t: "table_ok sv" and w: "all_watched sv"
    and r: "collect h n (sv\<lparr>sv_notices := remove1 n (sv_notices sv)\<rparr>) t = (r, sv', t')"
  shows "all_watched sv'"
proof -
  let ?sv = "sv\<lparr>sv_notices := remove1 n (sv_notices sv)\<rparr>"
  have t': "table_ok ?sv" by (rule table_cong [OF t]) simp_all
  have key: "tended ?sv sv' \<and> (\<forall>m p. running_at sv' m p \<longrightarrow> m \<noteq> fin_name n \<or> s_IDHex (sv_heap sv' ! p) \<noteq> fin_ID n)"
  proof (cases "\<exists>p. go_lookup (sv_silos sv) (fin_name n) = Some p \<and> s_IDHex (sv_heap sv ! p) = fin_ID n")
    case True
    then have "catch_s (stopSiloInternal h (fin_name n)) (\<lambda>_. ret_s ()) ?sv t = (r, sv', t')" using r by (auto simp: collect_def)
    then obtain r1 t1 where "stopSiloInternal h (fin_name n) ?sv t = (r1, sv', t1)"
      by (auto simp: catch_s_def ret_s_def split: prod.splits res.splits)
    with stop_tended stop_not_running [OF k t'] show ?thesis by blast
  next
    case False
    then have "sv' = ?sv" using r by (auto simp: collect_def split: option.splits if_splits)
    with False show ?thesis by (auto simp: tended_refl running_at_def)
  qed
  have "watched sv' p" if cl: "\<not> sv_closing sv'" and run: "running_at sv' m p" for m p
  proof (cases "p \<in> set (sv_spawned sv')")
    case False
    with key run have old: "running_at ?sv m p" "s_Name (sv_heap sv' ! p) = s_Name (sv_heap ?sv ! p)"
      "s_IDHex (sv_heap sv' ! p) = s_IDHex (sv_heap ?sv ! p)" unfolding tended_def by blast+
    then have "running_at sv m p" by (simp add: running_at_def)
    with w cl key have "watched sv p" by (auto simp: all_watched_def tended_def)
    moreover have "s_Name (sv_heap sv ! p) = m" using old(1) table_lookup(3) [OF t] by (auto simp: running_at_def stored_ok_def)
    then have "\<lparr>fin_name = s_Name (sv_heap sv ! p), fin_ID = s_IDHex (sv_heap sv ! p)\<rparr> \<noteq> n"
      using key run old(3) by auto
    ultimately show ?thesis using key old by (auto simp: watched_def tended_def in_set_remove1)
  qed (simp add: watched_def)
  with w key show ?thesis by (simp add: all_watched_def tended_def)
qed


section \<open>Histories\<close>

lemma stop_all_closing: "stop_all h ns sv t = (r, sv', t') \<Longrightarrow> sv_closing sv' = sv_closing sv"
proof (induction ns arbitrary: sv t)
  case (Cons n ns)
  obtain r1 sv1 t1 where s: "stopSiloInternal h n sv t = (r1, sv1, t1)" by (cases "stopSiloInternal h n sv t")
  have "sv_closing sv1 = sv_closing sv" using stop_tended [OF s] by (simp add: tended_def)
  with Cons s show ?case by (cases r1) (auto simp: bind_s_def)
qed (simp add: ret_s_def)

lemma Close_closing: "sv_Close h sv t = (r, sv', t') \<Longrightarrow> sv_closing sv' \<or> sv' = sv"
proof -
  assume c: "sv_Close h sv t = (r, sv', t')"
  obtain r1 md t1 where m: "md_Close h (sv_meta sv) t = (r1, md, t1)" by (cases "md_Close h (sv_meta sv) t")
  let ?sv = "sv\<lparr>sv_meta := md, sv_closing := True, sv_collecting := False\<rparr>"
  obtain r2 sv2 t2 where s: "stop_all h (map fst (sv_silos sv)) ?sv t1 = (r2, sv2, t2)" by (cases "stop_all h (map fst (sv_silos sv)) ?sv t1")
  from stop_all_closing [OF s] c m s show ?thesis
    by (cases r2) (auto simp: sv_Close_def srv_defs md_Close_def split: if_splits prod.splits)
qed

lemma sv_run_watched:
  assumes "sv_run h sv0 t0 k sv t" "sv_ok p0 0 sv0" "pool_inv q n m p0 {}" "4 * k \<le> m" "all_watched sv0"
    and kills: "\<And>t pid. h_err h t (Proc (KillProcess pid)) = None"
  shows "all_watched sv"
  using assms(1,4)
proof induction
  case (request k sv t req r sv' t')
  from sv_run_ok [OF request.hyps(1) assms(2,3)] request.prems obtain j where "sv_inv p0 j [] sv" by (auto simp: sv_ok_def)
  with ServeHTTP_tended [OF request.hyps(2)] request show ?case using tended_watched by fastforce
next
  case (wait_begin k sv t p)
  then show ?case using wait_begin_watched by blast
next
  case (wait_end k sv t p sv' t')
  from sv_run_ok [OF wait_end.hyps(1) assms(2,3) wait_end.prems] have "table_ok sv" by (auto simp: sv_ok_def sv_inv_def)
  with wait_end wait_end_watched show ?case by blast
next
  case (collect k sv t n r sv' t')
  from sv_run_ok [OF collect.hyps(1) assms(2,3) collect.prems] have "table_ok sv" by (auto simp: sv_ok_def sv_inv_def)
  with collect collect_watched [OF kills] show ?case by blast
next
  case (close k sv t r sv' t')
  then show ?case using Close_closing [OF close.hyps(2)] by (auto simp: all_watched_def)
qed (use assms(5) in simp_all)

text \<open>
  A turn of a goroutine: one that has just been spawned looks at its silo, the process of a silo ends, or
  the collector takes a notice. \<open>work\<close> bounds the turns to come.
\<close>

inductive turn :: "host \<Rightarrow> Server \<Rightarrow> trace \<Rightarrow> Server \<Rightarrow> trace \<Rightarrow> bool" for h where
  look: "p \<in> set (sv_spawned sv) \<Longrightarrow> turn h sv t (wait_begin p sv) t"
| ended: "p \<in> set (sv_waiting sv) \<Longrightarrow> wait_end h p sv t = (sv', t') \<Longrightarrow> turn h sv t sv' t'"
| taken: "n \<in> set (sv_notices sv) \<Longrightarrow> sv_collecting sv \<Longrightarrow>
    collect h n (sv\<lparr>sv_notices := remove1 n (sv_notices sv)\<rparr>) t = (r, sv', t') \<Longrightarrow> turn h sv t sv' t'"

inductive turns :: "host \<Rightarrow> nat \<Rightarrow> Server \<Rightarrow> trace \<Rightarrow> Server \<Rightarrow> trace \<Rightarrow> bool" for h where
  none: "turns h 0 sv t sv t"
| more: "turn h sv t sv1 t1 \<Longrightarrow> turns h i sv1 t1 sv' t' \<Longrightarrow> turns h (Suc i) sv t sv' t'"

definition work :: "Server \<Rightarrow> nat" where
  "work sv = 3 * length (sv_spawned sv) + 2 * length (sv_waiting sv) + length (sv_notices sv)"

lemma turn_work:
  assumes "turn h sv t sv' t'"
  shows "work sv' < work sv"
  using assms
proof cases
  case (look p)
  then obtain l where l: "length (sv_spawned sv) = Suc l" by (cases "sv_spawned sv") auto
  with look show ?thesis by (auto simp: work_def wait_begin_def notify_def Let_def length_remove1)
next
  case (ended p)
  then obtain l where "length (sv_waiting sv) = Suc l" by (cases "sv_waiting sv") auto
  with ended show ?thesis
    by (auto simp: work_def wait_end_def notify_def length_remove1 Let_def split: option.splits prod.splits if_splits)
next
  case (taken n r)
  let ?sv = "sv\<lparr>sv_notices := remove1 n (sv_notices sv)\<rparr>"
  have "sv' = ?sv \<or> (\<exists>r1 t1. stopSiloInternal h (fin_name n) ?sv t = (r1, sv', t1))"
    using taken(3) by (auto simp: collect_def catch_s_def ret_s_def split: option.splits if_splits prod.splits res.splits)
  then have "sv_spawned sv' = sv_spawned sv" "sv_waiting sv' = sv_waiting sv" "sv_notices sv' = remove1 n (sv_notices sv)"
    using stop_cases [of h "fin_name n" ?sv t _ sv'] by auto
  moreover have "0 < length (sv_notices sv)" using taken(1) by auto
  ultimately show ?thesis using taken(1) by (simp add: work_def length_remove1)
qed

lemma turn_closing:
  assumes "turn h sv t sv' t'"
  shows "sv_closing sv' = sv_closing sv"
  using assms
proof cases
  case (taken n r)
  let ?sv = "sv\<lparr>sv_notices := remove1 n (sv_notices sv)\<rparr>"
  have "sv' = ?sv \<or> (\<exists>r1 t1. stopSiloInternal h (fin_name n) ?sv t = (r1, sv', t1))"
    using taken(3) by (auto simp: collect_def catch_s_def ret_s_def split: option.splits if_splits prod.splits res.splits)
  then show ?thesis using stop_cases [of h "fin_name n" ?sv t _ sv'] by auto
qed (auto simp: wait_begin_def wait_end_def notify_def Let_def split: option.splits prod.splits if_splits)

lemma turn_exists:
  assumes "0 < work sv" "sv_collecting sv"
  shows "\<exists>sv' t'. turn h sv t sv' t'"
proof -
  from assms(1) consider "sv_spawned sv \<noteq> []" | "sv_waiting sv \<noteq> []" | "sv_notices sv \<noteq> []" by (auto simp: work_def)
  then show ?thesis
  proof cases
    case 1
    then show ?thesis using turn.look [OF hd_in_set] by blast
  next
    case 2
    then show ?thesis using turn.ended [OF hd_in_set] by (metis surj_pair)
  next
    case 3
    then show ?thesis using turn.taken [OF hd_in_set assms(2)] by (metis prod_cases3)
  qed
qed

lemma turn_run: "sv_run h sv0 t0 k sv t \<Longrightarrow> turn h sv t sv' t' \<Longrightarrow> sv_run h sv0 t0 k sv' t'"
  by (erule turn.cases) (auto intro: sv_run.intros)

lemma turns_run:
  "turns h i sv t sv' t' \<Longrightarrow> sv_run h sv0 t0 k sv t \<Longrightarrow> sv_run h sv0 t0 k sv' t' \<and> i + work sv' \<le> work sv \<and> sv_closing sv' = sv_closing sv"
proof (induction rule: turns.induct)
  case (more sv t sv1 t1 i sv' t')
  with turn_run [OF more.prems more.hyps(1)] turn_work [OF more.hyps(1)] turn_closing [OF more.hyps(1)] show ?case by simp
qed simp

text \<open>
  C4. No silo is forgotten. On a host where a process can be killed, in every reachable state of a daemon
  that is not being closed, take any run of turns of its goroutines in which no request comes in between.
  It has at most \<open>work\<close> turns; unless nothing is left to do, another turn is possible; and when nothing is
  left to do, no silo of the table is running any more. So once the processes of all silos have ended, the
  daemon has collected all of them after finitely many turns, in whatever order these come.
\<close>

theorem ended_silos_are_collected:
  assumes "length q = 4" "n \<le> 32" "c_AddressPool c = cidr_string q n" "NewServer h keypair c t0 = (Ok sv0, t1)"
    and "sv_run h sv0 t1 k sv t" "4 * k \<le> 2 ^ 127" and open_: "\<not> sv_closing sv"
    and kills: "\<And>t pid. h_err h t (Proc (KillProcess pid)) = None"
    and turns: "turns h i sv t sv' t'"
  shows "i \<le> work sv \<and> (0 < work sv' \<longrightarrow> (\<exists>sv2 t2. turn h sv' t' sv2 t2)) \<and>
    (work sv' = 0 \<longrightarrow> (\<forall>name p. go_lookup (sv_silos sv') name = Some p \<longrightarrow> s_State (sv_heap sv' ! p) = StateFinished))"
proof -
  from NewServer_ok [OF assms(4)] have new: "NewIPPool (cidr_string q n) = Inr (sv_ipPool sv0)" "sv_ok (sv_ipPool sv0) 0 sv0" "sv_silos sv0 = []"
    using assms(3) by auto
  have p0: "pool_inv q n (2 ^ 127) (sv_ipPool sv0) {}" using NewIPPool_cidr_inv [OF assms(1,2) new(1)] by blast
  have "sv_collecting sv0" using assms(4) by (auto simp: NewServer_def io_ok lift_result_ok split: prod.splits)
  then have w0: "all_watched sv0" using new(3) by (simp add: all_watched_def running_at_def)
  note run = turns_run [OF turns assms(5)]
  have w: "all_watched sv'" using sv_run_watched [OF _ new(2) p0 assms(6) w0 kills] run by blast
  then have c: "sv_collecting sv'" "\<And>name p. running_at sv' name p \<Longrightarrow> watched sv' p" using run open_ by (auto simp: all_watched_def)
  have t: "table_ok sv'" using sv_run_ok [OF _ new(2) p0 assms(6)] run by (auto simp: sv_ok_def sv_inv_def)
  have "s_State (sv_heap sv' ! p) = StateFinished" if "work sv' = 0" "go_lookup (sv_silos sv') name = Some p" for name p
    using that c(2) [of name p] table_lookup(3) [OF t that(2)] by (auto simp: work_def watched_def running_at_def stored_ok_def)
  with run turn_exists [OF _ c(1)] show ?thesis by auto
qed

text \<open>In the example, three turns remove the silo.\<close>

definition ex_looked :: Server where "ex_looked = wait_begin 0 ex_sv"

definition ex_ended :: "Server \<times> trace" where "ex_ended = wait_end ex_sv_host 0 ex_looked (snd (snd ex_upped))"

definition ex_taken :: "unit res \<times> Server \<times> trace" where
  "ex_taken = (case sv_notices (fst ex_ended) of n # _ \<Rightarrow>
     collect ex_sv_host n ((fst ex_ended)\<lparr>sv_notices := remove1 n (sv_notices (fst ex_ended))\<rparr>) (snd ex_ended))"

definition goroutines :: "Server \<Rightarrow> nat list \<times> nat list \<times> siloFinishedInfo list \<times> bool \<times> bool \<times> bool list" where
  "goroutines sv = (sv_spawned sv, sv_waiting sv, sv_notices sv, sv_closing sv, sv_collecting sv,
     map (\<lambda>s. s_State s = StateRunning \<and> s_child s \<noteq> None) (sv_heap sv))"

theorem ended_silos_are_collected_witness:
  "3 \<le> work ex_sv \<and> \<not> sv_closing ex_sv \<and>
   \<not> (\<exists>name p. go_lookup (sv_silos (fst (snd ex_taken))) name = Some p \<and> s_State (sv_heap (fst (snd ex_taken)) ! p) = StateRunning)"
proof -
  have v: "goroutines ex_sv = ([0], [], [], False, True, [True])" by code_simp
  then have s: "sv_spawned ex_sv = [0]" "\<not> sv_closing ex_sv" by (simp_all add: goroutines_def)
  from v have "sv_heap ex_sv \<noteq> []" "s_State (sv_heap ex_sv ! 0) = StateRunning \<and> s_child (sv_heap ex_sv ! 0) \<noteq> None"
    by (auto simp: goroutines_def)
  with v have l: "(sv_spawned ex_looked, sv_waiting ex_looked, sv_notices ex_looked, sv_closing ex_looked, sv_collecting ex_looked) = ([], [0], [], False, True)"
    "s_child (sv_heap ex_looked ! 0) \<noteq> None" by (simp_all add: goroutines_def ex_looked_def wait_begin_def)
  then obtain cmd where c: "s_child (sv_heap ex_looked ! 0) = Some cmd" by blast
  obtain r cmd' t1 where "cmd_Wait ex_sv_host cmd (snd (snd ex_upped)) = (r, cmd', t1)" by (cases "cmd_Wait ex_sv_host cmd (snd (snd ex_upped))")
  with c l(1) have "\<exists>n. sv_notices (fst ex_ended) = [n] \<and> sv_collecting (fst ex_ended) \<and> work (fst ex_ended) = 1"
    by (simp add: ex_ended_def wait_end_def notify_def work_def)
  then obtain n where n: "sv_notices (fst ex_ended) = [n]" "sv_collecting (fst ex_ended)" "work (fst ex_ended) = 1" by blast
  have "turn ex_sv_host ex_looked (snd (snd ex_upped)) (fst ex_ended) (snd ex_ended)"
    using l(1) by (intro turn.ended [of 0]) (simp_all add: ex_ended_def)
  moreover have taken: "turn ex_sv_host (fst ex_ended) (snd ex_ended) (fst (snd ex_taken)) (snd (snd ex_taken))"
    by (rule turn.taken [of n _ _ _ "fst ex_taken"]) (simp_all add: s n ex_taken_def)
  moreover have "turn ex_sv_host ex_sv (snd (snd ex_upped)) ex_looked (snd (snd ex_upped))"
    unfolding ex_looked_def by (rule turn.look) (simp add: s)
  ultimately have "turns ex_sv_host (Suc (Suc (Suc 0))) ex_sv (snd (snd ex_upped)) (fst (snd ex_taken)) (snd (snd ex_taken))"
    using turns.none by (intro turns.more)
  moreover have "h_err ex_sv_host t (Proc (KillProcess pid)) = None" for t pid by (simp add: ex_sv_host_def ex_start_host_def)
  moreover have "(4::nat) * 1 \<le> 2 ^ 127" by simp
  ultimately have "Suc (Suc (Suc 0)) \<le> work ex_sv \<and> (work (fst (snd ex_taken)) = 0 \<longrightarrow>
      (\<forall>name p. go_lookup (sv_silos (fst (snd ex_taken))) name = Some p \<longrightarrow> s_State (sv_heap (fst (snd ex_taken)) ! p) = StateFinished))"
    using ended_silos_are_collected [OF ex_cidr ex_new_ok ex_run _ s(2)] by blast
  with s(2) n(3) turn_work [OF taken] show ?thesis by (auto simp: numeral_3_eq_3)
qed

end
