(* ===== verification/Leases.thy ===== *)
theory Leases
  imports Collector
begin

text \<open>
  The daemon against an abstract specification: a registry of leases. What a client sees of the table of
  silos is a map from names to the ID and the addresses of the silo that runs under the name. The
  specification says how each event may change the map; every step of the daemon is such a change.
\<close>

section \<open>The registry\<close>

type_synonym registry = "string \<rightharpoonup> string \<times> ip list"

datatype label =
    Up string
  | DownName string
  | DownID string
  | Finished string string
  | CloseAll
  | Other

text \<open>
  A request to start a silo may give the name a lease of four good addresses that no other name has, or take
  the old lease away when the new silo could not be started. A request to stop a silo takes away the lease of
  the name, or that with the ID. The end of a silo takes away its own lease only, not one that has been given
  to the same name since. Closing takes leases away. Everything else leaves the registry as it is.
\<close>

inductive lease_step :: "(ip \<Rightarrow> bool) \<Rightarrow> label \<Rightarrow> registry \<Rightarrow> registry \<Rightarrow> bool" for good where
  keep: "lease_step good l L L"
| granted: "length xs = 4 \<Longrightarrow> distinct xs \<Longrightarrow> list_all good xs \<Longrightarrow>
    (\<And>m j ys. m \<noteq> n \<Longrightarrow> L m = Some (j, ys) \<Longrightarrow> set xs \<inter> set ys = {}) \<Longrightarrow> lease_step good (Up n) L (L(n \<mapsto> (i, xs)))"
| replaced: "lease_step good (Up n) L (L(n := None))"
| stopped: "lease_step good (DownName n) L (L(n := None))"
| stopped_ID: "L n = Some (i, xs) \<Longrightarrow> lease_step good (DownID i) L (L(n := None))"
| finished: "L n = Some (i, xs) \<Longrightarrow> lease_step good (Finished n i) L (L(n := None))"
| closed: "L' \<subseteq>\<^sub>m L \<Longrightarrow> lease_step good CloseAll L L'"

text \<open>What the specification promises: no address is leased twice.\<close>

definition exclusive :: "registry \<Rightarrow> bool" where
  "exclusive L \<longleftrightarrow> (\<forall>m n i j xs ys. m \<noteq> n \<longrightarrow> L m = Some (i, xs) \<longrightarrow> L n = Some (j, ys) \<longrightarrow> set xs \<inter> set ys = {})"

lemma exclusive_le: "exclusive L \<Longrightarrow> L' \<subseteq>\<^sub>m L \<Longrightarrow> exclusive L'"
  unfolding exclusive_def map_le_def by (metis domI)

lemma lease_step_exclusive:
  assumes "lease_step good l L L'" "exclusive L"
  shows "exclusive L'"
  using assms
proof cases
  case (granted xs n i)
  show ?thesis unfolding granted(2) exclusive_def
  proof (intro allI impI)
    fix m k i' j' ys zs
    assume ne: "m \<noteq> k" and l: "(L(n \<mapsto> (i, xs))) m = Some (i', ys)" "(L(n \<mapsto> (i, xs))) k = Some (j', zs)"
    consider "m = n" "k \<noteq> n" | "m \<noteq> n" "k = n" | "m \<noteq> n" "k \<noteq> n" using ne by blast
    then show "set ys \<inter> set zs = {}"
    proof cases
      case 1
      then show ?thesis using l granted(6) [of k j' zs] by simp
    next
      case 2
      then show ?thesis using l granted(6) [of m i' ys] by (simp add: Int_commute)
    next
      case 3
      then show ?thesis using l ne assms(2) unfolding exclusive_def by (metis fun_upd_other)
    qed
  qed
qed (auto intro!: exclusive_le [OF assms(2)] simp: map_le_def split: if_splits)

section \<open>The daemon as a registry\<close>

definition leases :: "Server \<Rightarrow> registry" where
  "leases sv n = (case go_lookup (sv_silos sv) n of
     None \<Rightarrow> None
   | Some p \<Rightarrow> if s_State (sv_heap sv ! p) = StateRunning then Some (s_IDHex (sv_heap sv ! p), running_owes (sv_heap sv ! p)) else None)"

text \<open>The steps of the daemon by the event that causes them; together they are its histories.\<close>

datatype event =
    Request request
  | Query
  | Looked nat
  | Ended nat
  | Collected siloFinishedInfo
  | Closed

inductive sv_step :: "host \<Rightarrow> event \<Rightarrow> Server \<Rightarrow> trace \<Rightarrow> Server \<Rightarrow> trace \<Rightarrow> bool" for h where
  request: "ServeHTTP h req sv t = (r, sv', t') \<Longrightarrow> sv_step h (Request req) sv t sv' t'"
| query: "md_ServeHTTP h (sv_heap sv) (sv_meta sv) mreq t = (rm, t') \<Longrightarrow> sv_step h Query sv t sv t'"
| looked: "p \<in> set (sv_spawned sv) \<Longrightarrow> sv_step h (Looked p) sv t (wait_begin p sv) t"
| ended: "p \<in> set (sv_waiting sv) \<Longrightarrow> wait_end h p sv t = (sv', t') \<Longrightarrow> sv_step h (Ended p) sv t sv' t'"
| collected: "n \<in> set (sv_notices sv) \<Longrightarrow> sv_collecting sv \<Longrightarrow>
    collect h n (sv\<lparr>sv_notices := remove1 n (sv_notices sv)\<rparr>) t = (rc, sv', t') \<Longrightarrow> sv_step h (Collected n) sv t sv' t'"
| closed: "sv_Close h sv t = (rc, sv', t') \<Longrightarrow> sv_step h Closed sv t sv' t'"

fun cost :: "event \<Rightarrow> nat" where
  "cost (Request req) = 1"
| "cost _ = 0"

lemma step_run: "sv_step h e sv t sv' t' \<Longrightarrow> sv_run h sv0 t0 k sv t \<Longrightarrow> sv_run h sv0 t0 (k + cost e) sv' t'"
  by (erule sv_step.cases) (auto intro: sv_run.intros)

lemma run_step:
  assumes "sv_run h sv0 t0 k sv t"
  shows "k = 0 \<and> sv = sv0 \<and> t = t0 \<or>
    (\<exists>e k1 sv1 t1. sv_run h sv0 t0 k1 sv1 t1 \<and> sv_step h e sv1 t1 sv t \<and> k = k1 + cost e)"
  using assms
proof cases
  case (request k sv1 t1 req r)
  then show ?thesis using sv_step.request [OF request(3)] by (metis cost.simps(1) Suc_eq_plus1)
next
  case (metadata t1 req r)
  then show ?thesis using sv_step.query [OF metadata(2)] by (metis cost.simps(2) add_0_right)
next
  case (wait_begin sv1 p)
  then show ?thesis using sv_step.looked [OF wait_begin(3)] by (metis cost.simps(3) add_0_right)
next
  case (wait_end sv1 t1 p)
  then show ?thesis using sv_step.ended [OF wait_end(2,3)] by (metis cost.simps(4) add_0_right)
next
  case (collect sv1 t1 n r)
  then show ?thesis using sv_step.collected [OF collect(2-4)] by (metis cost.simps(5) add_0_right)
next
  case (close sv1 t1 r)
  then show ?thesis using sv_step.closed [OF close(2)] by (metis cost.simps(6) add_0_right)
qed simp

definition request_label :: "request \<Rightarrow> label" where
  "request_label req =
     (if rq_Path req = ''/up'' then
        (case rq_Up req of Inl _ \<Rightarrow> Other | Inr pkt \<Rightarrow> (case up_SiloConf pkt of None \<Rightarrow> Other | Some sc \<Rightarrow> Up (cs_Name sc)))
      else if rq_Path req = ''/down'' then
        (case rq_Down req of
           Inl _ \<Rightarrow> Other
         | Inr pkt \<Rightarrow>
             if dn_SiloID pkt \<noteq> [] then if dn_SiloName pkt \<noteq> [] then Other else DownID (dn_SiloID pkt)
             else if dn_SiloName pkt \<noteq> [] then DownName (dn_SiloName pkt) else Other)
      else Other)"

fun label_of :: "event \<Rightarrow> label" where
  "label_of (Request req) = request_label req"
| "label_of (Collected n) = Finished (fin_name n) (fin_ID n)"
| "label_of Closed = CloseAll"
| "label_of _ = Other"

section \<open>Facts\<close>

lemma leases_cong:
  "sv_silos sv' = sv_silos sv \<Longrightarrow> (\<And>p. s_State (sv_heap sv' ! p) = s_State (sv_heap sv ! p) \<and>
     s_IDHex (sv_heap sv' ! p) = s_IDHex (sv_heap sv ! p) \<and> s_Interfaces (sv_heap sv' ! p) = s_Interfaces (sv_heap sv ! p)) \<Longrightarrow>
   leases sv' = leases sv"
  by (rule ext) (simp add: leases_def running_owes_def split: option.split)

lemma leases_others:
  assumes "others_same n sv sv'"
  shows "leases sv' = (leases sv)(n := leases sv' n)"
proof
  fix m
  show "leases sv' m = ((leases sv)(n := leases sv' n)) m"
    using assms by (cases "m = n"; cases "go_lookup (sv_silos sv) m") (auto simp: others_same_def leases_def)
qed

lemma stop_leases:
  assumes t: "table_ok sv" and r: "stopSiloInternal h n sv t = (r, sv', t')"
  shows "leases sv' = leases sv \<or> leases sv' = (leases sv)(n := None)"
proof (cases "go_lookup (sv_silos sv) n")
  case None
  with stop_cases [OF r] show ?thesis by auto
next
  case (Some p)
  with stop_cases [OF r] obtain s' xs md where
    s': "s' = sv_heap sv ! p \<or> s' = (sv_heap sv ! p)\<lparr>s_State := StateFinished\<rparr>"
    and sv': "sv' = sv\<lparr>sv_meta := md, sv_heap := (sv_heap sv)[p := s'], sv_ipPool := FreeAssignment xs (sv_ipPool sv),
                sv_silos := (if r = Ok () then go_delete n (sv_silos sv) else sv_silos sv)\<rparr>" by auto
  have ne: "q \<noteq> p" if "m \<noteq> n" "go_lookup (sv_silos sv) m = Some q" for m q
    using that table_lookup(3) [OF t that(2)] table_lookup(3) [OF t Some] by (auto simp: stored_ok_def)
  have others: "leases sv' m = leases sv m" if "m \<noteq> n" for m
    using ne [OF that] that by (auto simp: leases_def sv' delete_conv' split: option.splits)
  have "leases sv' n = None \<or> leases sv' n = leases sv n"
    using s' Some table_lookup(2) [OF t Some] by (auto simp: leases_def sv' delete_conv')
  then show ?thesis using others by (metis fun_upd_other fun_upd_same ext)
qed

lemma stop_all_leases:
  "stop_all h ns sv t = (r, sv', t') \<Longrightarrow> sv_inv p0 k [] sv \<Longrightarrow> leases sv' \<subseteq>\<^sub>m leases sv"
proof (induction ns arbitrary: sv t)
  case (Cons n ns)
  obtain r1 sv1 t1 where s: "stopSiloInternal h n sv t = (r1, sv1, t1)" by (cases "stopSiloInternal h n sv t")
  have t: "table_ok sv" using Cons.prems(2) by (simp add: sv_inv_def)
  have le: "leases sv1 \<subseteq>\<^sub>m leases sv" using stop_leases [OF t s] by (auto simp: map_le_def split: if_splits)
  have inv: "sv_inv p0 k [] sv1" using stop_inv [OF Cons.prems(2) s] by blast
  show ?case
  proof (cases r1)
    case (Ok x)
    with Cons.prems(1) s have "stop_all h ns sv1 t1 = (r, sv', t')" by (simp add: bind_s_def)
    from map_le_trans [OF Cons.IH [OF this inv] le] show ?thesis .
  qed (use Cons.prems(1) s le in \<open>auto simp: bind_s_def\<close>)
qed (simp add: ret_s_def)

lemma name_of_id_found:
  "wf_map m \<Longrightarrow> name_of_id k heap m \<noteq> [] \<Longrightarrow> \<exists>p. go_lookup m (name_of_id k heap m) = Some p \<and> s_IDHex (heap ! p) = k"
proof (induction m)
  case (Cons e m)
  obtain n p where e: "e = (n, p)" by fastforce
  show ?case
  proof (cases "s_IDHex (heap ! p) = k")
    case False
    with Cons e have "\<exists>p. go_lookup m (name_of_id k heap m) = Some p \<and> s_IDHex (heap ! p) = k" by (simp add: wf_map_def)
    with False Cons.prems(1) e show ?thesis using map_of_SomeD by (force simp: wf_map_def)
  qed (simp add: e)
qed simp

lemma lease_facts:
  assumes ok: "sv_ok p0 k sv" and p0: "pool_inv q nn m p0 {}" and k: "k \<le> m" and l: "leases sv n = Some (i, xs)"
  shows "length xs = 4" "distinct xs" "list_all (Contains (v4_net q nn)) xs"
    "n' \<noteq> n \<Longrightarrow> leases sv n' = Some (j, ys) \<Longrightarrow> set xs \<inter> set ys = {}"
proof -
  from ok have t: "table_ok sv" by (auto simp: sv_ok_def sv_inv_def)
  note o = owed_facts [OF ok p0 k]
  obtain p where p: "go_lookup (sv_silos sv) n = Some p" "s_State (sv_heap sv ! p) = StateRunning" "xs = running_owes (sv_heap sv ! p)"
    using l by (auto simp: leases_def split: option.splits if_splits)
  from table_lookup(3) [OF t p(1)] p show "length xs = 4" by (auto simp: stored_ok_def net_silo_def running_owes_def)
  have "xs \<in> set (map (\<lambda>(_, p). running_owes (sv_heap sv ! p)) (sv_silos sv))" using map_of_SomeD [OF p(1)] p(3) by force
  then show "distinct xs" using o by (auto simp: owed_def distinct_concat_iff)
  show "list_all (Contains (v4_net q nn)) xs" using o owed_member [OF p(1)] p(3) by (auto simp: list_all_iff)
  assume n': "n' \<noteq> n" "leases sv n' = Some (j, ys)"
  then obtain p' where p': "go_lookup (sv_silos sv) n' = Some p'" "ys = running_owes (sv_heap sv ! p')"
    by (auto simp: leases_def split: option.splits if_splits)
  show "set xs \<inter> set ys = {}" using owed_disjoint [OF _ p(1) p'(1) _ _ t] o n'(1) p(3) p'(2) by auto
qed

section \<open>Simulation\<close>

lemma stop_request_leases:
  assumes "table_ok sv" "stop_request h n sv t = (r, sv', t')"
  shows "leases sv' = leases sv \<or> leases sv' = (leases sv)(n := None)"
proof -
  obtain r1 sv1 t1 where s: "stopSiloInternal h n sv t = (r1, sv1, t1)" by (cases "stopSiloInternal h n sv t")
  with assms(2) have "sv' = sv1" by (cases r1) (auto simp: stop_request_def srv_defs)
  with stop_leases [OF assms(1) s] show ?thesis by simp
qed

text \<open>Taking away the lease of a name whose silo has a given ID.\<close>

lemma revoke_ID:
  assumes "L' = L \<or> L' = L(n := None)" "\<And>j xs. L n = Some (j, xs) \<Longrightarrow> j = i"
    and "\<And>xs. L n = Some (i, xs) \<Longrightarrow> lease_step good l L (L(n := None))"
  shows "lease_step good l L L'"
proof (cases "L n")
  case None
  then have "L(n := None) = L" by (simp add: fun_upd_idem)
  with assms(1) show ?thesis by (auto intro: lease_step.keep)
next
  case (Some a)
  with assms show ?thesis by (cases a) (auto intro: lease_step.keep)
qed

lemma leases_ID: "leases sv n = Some (i, xs) \<Longrightarrow> go_lookup (sv_silos sv) n = Some p \<Longrightarrow> i = s_IDHex (sv_heap sv ! p)"
  by (simp add: leases_def split: if_splits)

lemma down_simulated:
  assumes t: "table_ok sv" and r: "siloDownHandler h req sv t = (r, sv', t')" and p: "rq_Path req = ''/down''"
  shows "lease_step good (request_label req) (leases sv) (leases sv')"
proof (cases "rq_Down req")
  case (Inl e)
  with r show ?thesis by (auto simp: siloDownHandler_def srv_defs intro: lease_step.keep)
next
  case (Inr pkt)
  let ?i = "dn_SiloID pkt" and ?n = "dn_SiloName pkt"
  let ?name = "name_of_id ?i (sv_heap sv) (sv_silos sv)"
  consider (none) "sv' = sv" | (name) "?i = []" "?n \<noteq> []" "stop_request h ?n sv t = (r, sv', t')"
    | (ident) "?i \<noteq> []" "?n = []" "?name \<noteq> []" "stop_request h ?name sv t = (r, sv', t')"
    using r Inr by (auto simp: siloDownHandler_def srv_defs Let_def split: if_splits)
  then show ?thesis
  proof cases
    case name
    with Inr p have "request_label req = DownName ?n" by (simp add: request_label_def)
    with stop_request_leases [OF t name(3)] show ?thesis by (auto intro: lease_step.intros)
  next
    case ident
    have wf: "wf_map (sv_silos sv)" using t by (simp add: table_ok_def)
    from name_of_id_found [OF wf ident(3)] obtain q where q: "go_lookup (sv_silos sv) ?name = Some q" "s_IDHex (sv_heap sv ! q) = ?i" by blast
    have "request_label req = DownID ?i" using ident Inr p by (simp add: request_label_def)
    with revoke_ID [OF stop_request_leases [OF t ident(4)], of ?i good "DownID ?i"] leases_ID [OF _ q(1)] q(2)
    show ?thesis by (auto intro: lease_step.stopped_ID)
  qed (simp add: lease_step.keep)
qed

lemma label_target: "request_label req = Other \<longleftrightarrow> target req sv = None" "request_label req = Up n \<Longrightarrow> target req sv = Some n"
  by (auto simp: request_label_def target_def split: sum.splits option.splits if_splits)

lemma label_cases: "rq_Path req = ''/down'' \<or> (\<exists>n. request_label req = Up n) \<or> request_label req = Other"
  by (simp add: request_label_def split: sum.split option.split)

lemma request_simulated:
  assumes r: "ServeHTTP h req sv t = (r, sv', t')" and inv: "sv_inv p0 k [] sv"
    and ok': "sv_ok p0 k' sv'" and p0: "pool_inv q nn m p0 {}" "k' \<le> m"
  shows "lease_step (Contains (v4_net q nn)) (request_label req) (leases sv) (leases sv')"
proof -
  have t: "table_ok sv" using inv by (simp add: sv_inv_def)
  from r consider (refused) "sv' = sv" | (served) u t1 where "dispatch h u req sv t1 = (r, sv', t')"
    by (auto simp: ServeHTTP_def split: prod.splits res.splits)
  then show ?thesis
  proof cases
    case served
    from label_cases [of req] consider (down) "rq_Path req = ''/down''" | (up) n where "request_label req = Up n" | (other) "request_label req = Other"
      by blast
    then show ?thesis
    proof cases
      case down
      with served have "siloDownHandler h req sv t1 = (r, sv', t')" by (simp add: dispatch_def)
      from down_simulated [OF t this down] show ?thesis .
    next
      case Up: up
      have up: "leases sv' = (leases sv)(n := leases sv' n)"
        by (rule leases_others [OF targeted_dispatch [OF served label_target(2) [OF Up] inv]])
      show ?thesis
      proof (cases "leases sv' n")
        case None
        with up Up show ?thesis using lease_step.replaced by metis
      next
        case (Some a)
        obtain i xs where a: "leases sv' n = Some (i, xs)" using Some by (cases a) auto
        note f = lease_facts [OF ok' p0 a]
        have "leases sv' m = Some (j, ys)" if "m \<noteq> n" "leases sv m = Some (j, ys)" for m j ys using that up by (metis fun_upd_other)
        with f(4) have "lease_step (Contains (v4_net q nn)) (Up n) (leases sv) ((leases sv)(n \<mapsto> (i, xs)))"
          by (intro lease_step.granted f(1-3)) blast
        with up Up a show ?thesis by simp
      qed
    next
      case other
      with untargeted_dispatch [OF served] label_target(1) [of req sv] have "silos_same sv sv'" by simp
      then have "leases sv' = leases sv" by (intro leases_cong) (simp_all add: silos_same_def)
      then show ?thesis by (simp add: lease_step.keep)
    qed
  qed (simp add: lease_step.keep)
qed

lemma leases_ended:
  assumes "wait_end h p sv t = (sv', t')"
  shows "leases sv' = leases sv"
proof (rule leases_cong)
  show "sv_silos sv' = sv_silos sv" using assms by (auto simp: wait_end_def notify_def Let_def split: option.splits prod.splits if_splits)
  fix q
  have "sv_heap sv' = sv_heap sv \<or> (\<exists>c. sv_heap sv' = (sv_heap sv)[p := (sv_heap sv ! p)\<lparr>s_child := Some c\<rparr>])"
    using assms by (auto simp: wait_end_def notify_def Let_def split: option.splits prod.splits if_splits)
  then show "s_State (sv_heap sv' ! q) = s_State (sv_heap sv ! q) \<and> s_IDHex (sv_heap sv' ! q) = s_IDHex (sv_heap sv ! q) \<and>
     s_Interfaces (sv_heap sv' ! q) = s_Interfaces (sv_heap sv ! q)"
    by (cases "q = p"; cases "p < length (sv_heap sv)") (auto simp: list_update_beyond)
qed

lemma collect_simulated:
  assumes t: "table_ok sv" and r: "collect h f (sv\<lparr>sv_notices := ns\<rparr>) t = (r, sv', t')"
  shows "lease_step good (Finished (fin_name f) (fin_ID f)) (leases sv) (leases sv')"
proof -
  let ?sv = "sv\<lparr>sv_notices := ns\<rparr>"
  have l: "leases ?sv = leases sv" by (rule leases_cong) simp_all
  have t': "table_ok ?sv" by (rule table_cong [OF t]) simp_all
  show ?thesis
  proof (cases "\<exists>p. go_lookup (sv_silos sv) (fin_name f) = Some p \<and> s_IDHex (sv_heap sv ! p) = fin_ID f")
    case True
    then obtain p where p: "go_lookup (sv_silos sv) (fin_name f) = Some p" "s_IDHex (sv_heap sv ! p) = fin_ID f" by blast
    then have "catch_s (stopSiloInternal h (fin_name f)) (\<lambda>_. ret_s ()) ?sv t = (r, sv', t')" using r by (simp add: collect_def)
    then obtain r1 t1 where s: "stopSiloInternal h (fin_name f) ?sv t = (r1, sv', t1)"
      by (auto simp: catch_s_def ret_s_def split: prod.splits res.splits)
    have i: "j = fin_ID f" if "leases sv (fin_name f) = Some (j, xs)" for j xs using leases_ID [OF that p(1)] p(2) by simp
    from revoke_ID [OF stop_leases [OF t' s, unfolded l] i lease_step.finished] show ?thesis .
  next
    case False
    then have "sv' = ?sv" using r by (auto simp: collect_def split: option.splits if_splits)
    then show ?thesis by (simp add: l lease_step.keep)
  qed
qed

lemma close_simulated:
  assumes r: "sv_Close h sv t = (r, sv', t')" and inv: "sv_inv p0 k [] sv"
  shows "leases sv' \<subseteq>\<^sub>m leases sv"
proof -
  obtain r1 md u where md: "md_Close h (sv_meta sv) t = (r1, md, u)" by (cases "md_Close h (sv_meta sv) t")
  let ?sv = "sv\<lparr>sv_meta := md, sv_closing := True, sv_collecting := False\<rparr>"
  have l: "leases ?sv = leases sv" by (rule leases_cong) simp_all
  have "sv_ok p0 k sv" using inv by (auto simp: sv_ok_def)
  from keeps_okD [OF keeps_ok_md_Close this, of h t r1 "sv\<lparr>sv_meta := md\<rparr>" u] md have "sv_ok p0 k (sv\<lparr>sv_meta := md\<rparr>)" by simp
  then have "sv_ok p0 k ?sv" by (rule sv_ok_other) simp_all
  then obtain j where inv': "sv_inv p0 j [] ?sv" by (auto simp: sv_ok_def)
  obtain r2 sv2 t2 where s: "stop_all h (map fst (sv_silos sv)) ?sv u = (r2, sv2, t2)" by (cases "stop_all h (map fst (sv_silos sv)) ?sv u")
  have "sv' = sv \<or> sv' = ?sv \<or> sv' = sv2"
    using r md s by (cases r2) (auto simp: sv_Close_def srv_defs md_Close_def split: if_splits prod.splits)
  with stop_all_leases [OF s inv'] show ?thesis by (auto simp: l)
qed

text \<open>
  C2. The daemon implements the registry of leases. In every reachable state of a daemon made with an IPv4
  pool, every step it takes (a request, a query of the metadata service, a turn of a goroutine, the collection
  of a silo that ended, or its own closing) changes the leases as the specification allows for that event, and
  from the empty registry it starts with, no address is ever leased to two names.
\<close>

theorem daemon_refines_leases:
  assumes "length q = 4" "n \<le> 32" "c_AddressPool c = cidr_string q n" "NewServer h keypair c t0 = (Ok sv0, t1)"
    and "sv_run h sv0 t1 k sv t" "4 * (k + cost e) \<le> 2 ^ 127" and step: "sv_step h e sv t sv' t'"
  shows "leases sv0 = Map.empty \<and> lease_step (Contains (v4_net q n)) (label_of e) (leases sv) (leases sv') \<and> exclusive (leases sv')"
proof -
  have k: "4 * k \<le> 2 ^ 127" using assms(6) by simp
  note ok = history_ok [OF assms(1-5) k] and ok' = history_ok [OF assms(1-4) step_run [OF step assms(5)] assms(6)]
  from ok(2) obtain j where inv: "sv_inv (sv_ipPool sv0) j [] sv" by (auto simp: sv_ok_def)
  then have t: "table_ok sv" by (simp add: sv_inv_def)
  have new: "leases sv0 = Map.empty" using NewServer_ok [OF assms(4)] by (auto simp: leases_def)
  have ex: "exclusive (leases sv)" unfolding exclusive_def using lease_facts(4) [OF ok(2,1) k] by blast
  have sim: "lease_step (Contains (v4_net q n)) (label_of e) (leases sv) (leases sv')"
    using step
  proof cases
    case (request req r)
    then show ?thesis using request_simulated [OF request(2) inv ok'(2,1) assms(6)] by simp
  next
    case (looked p)
    have "leases sv' = leases sv" unfolding looked(2) by (rule leases_cong) (simp_all add: wait_begin_def notify_def Let_def)
    then show ?thesis by (simp add: looked(1) lease_step.keep)
  next
    case (ended p)
    have "leases sv' = leases sv" by (rule leases_ended [OF ended(3)])
    then show ?thesis by (simp add: ended(1) lease_step.keep)
  next
    case (collected f rc)
    then show ?thesis using collect_simulated [OF t collected(4)] by simp
  next
    case (closed rc)
    then show ?thesis using close_simulated [OF closed(2) inv] by (simp add: lease_step.closed)
  qed (simp add: lease_step.keep)
  from new sim lease_step_exclusive [OF sim ex] show ?thesis by blast
qed

text \<open>In the example, the request leases a network to the name.\<close>

theorem daemon_refines_leases_witness:
  "lease_step (Contains (v4_net [10, 0, 0, 1] 29)) (Up ''web'') Map.empty (leases ex_sv) \<and> exclusive (leases ex_sv) \<and>
     map_option fst (leases ex_sv ''web'') = Some ''01020304''"
proof -
  have s: "sv_step ex_sv_host (Request (ex_up ''web'')) ex_server (snd ex_new) ex_sv (snd (snd ex_upped))"
    by (rule sv_step.request [where r = "fst ex_upped"]) (simp add: ex_upped_def)
  have l: "label_of (Request (ex_up ''web'')) = Up ''web''" by (simp add: request_label_def ex_up_def ex_req_def ex_spec_def)
  have "(4::nat) * (0 + cost (Request (ex_up ''web''))) \<le> 2 ^ 127" by simp
  note r = daemon_refines_leases [OF ex_cidr ex_new_ok sv_run.start this s, unfolded l]
  then have e: "leases ex_server = Map.empty" by (rule conjunct1)
  from r have "lease_step (Contains (v4_net [10, 0, 0, 1] 29)) (Up ''web'') Map.empty (leases ex_sv)" "exclusive (leases ex_sv)"
    unfolding e by blast+
  moreover have "map_option fst (leases ex_sv ''web'') = Some ''01020304''" by code_simp
  ultimately show ?thesis by blast
qed

end
