(* ===== verification/Client.thy ===== *)
theory Client
  imports SiloConf Cert
begin

text \<open>
  The command line client (\<open>colexd/colex-cli\<close>): the user's certificate, the pinned certificates of the
  daemons (\<open>certpin.go\<close>), the commands and the program (\<open>main.go\<close>). What a command prints is kept where
  it is a table: the rows that are rendered; other output is left out. Every request is made by a client
  of its own, so each has its own TLS handshake, in which the code's callback decides about the daemon's
  certificates. \<open>url.Parse\<close> and \<open>bytefmt.ByteSize\<close> are parameters, the HCL parser too. \<open>errorOut\<close>, which
  prints and exits with status 1, is an error of the program. In the texts of errors, what the code quotes
  with \<open>%q\<close> is left unquoted and the prefix that \<open>net/http\<close> puts before an error of the transport is left out;
  the redirects a response may ask for are part of the call. Encoding a packet of these types with gob does
  not fail.
\<close>

section \<open>Pinned certificates\<close>

text \<open>\<open>strings.NewReplacer\<close> with single characters: each is replaced on its own.\<close>

fun sanitize_char :: "char \<Rightarrow> string" where
  "sanitize_char c =
     (if c = CHR '':'' then ''-'' else if c = CHR ''/'' \<or> c = CHR 0x27 \<or> c = CHR 0x22 then [] else [c])"

definition sanitizeAddress :: "string \<Rightarrow> string" where
  "sanitizeAddress addr = concat (map sanitize_char addr)"

definition known_hosts :: "string \<Rightarrow> string" where
  "known_hosts home = path_Join [home, ''.colex'', ''known_hosts'']"

definition getPinnedCert :: "host \<Rightarrow> string \<Rightarrow> string io" where
  "getPinnedCert h address =
     bind_io (perform h (Cli CurrentUser) (h_str h)) (\<lambda>home.
       let p = path_Join [home, ''.colex'', ''known_hosts'', sanitizeAddress address] in
       then_io (do_call h (Fs (Stat p))) (perform h (Fs (ReadFile p)) (h_str h)))"

definition pinCertificate :: "host \<Rightarrow> string \<Rightarrow> string \<Rightarrow> unit io" where
  "pinCertificate h addr crt =
     bind_io (perform h (Cli CurrentUser) (h_str h)) (\<lambda>home.
       let knownHostsDir = known_hosts home in
       then_io (catch_io (do_call h (Fs (Stat knownHostsDir)))
                  (\<lambda>e. if \<not> IsNotExist e then fail e else do_call h (Fs (MkdirAll knownHostsDir (oct 755)))))
               (do_call h (Fs (WriteFile (path_Join [knownHostsDir, sanitizeAddress addr]) crt (oct 755)))))"

section \<open>Talking to the daemon\<close>

definition prompt :: "host \<Rightarrow> string \<Rightarrow> string io" where
  "prompt h msg = catch_io (perform h (Cli (Prompt msg)) (h_str h)) (\<lambda>_. ret [])"

definition make_home :: "host \<Rightarrow> string \<Rightarrow> unit io" where
  "make_home h home =
     (let d = path_Join [home, ''.colex''] in
      catch_io (do_call h (Fs (Stat d)))
        (\<lambda>e. if \<not> IsNotExist e then fail e else do_call h (Fs (MkdirAll d (oct 755)))))"

text \<open>
  \<open>getClientCert\<close> calls itself after it has written a new pair, so its depth is up to the file system.
  The first argument is the depth at which Go's stack would overflow.
\<close>

fun getClientCert :: "nat \<Rightarrow> host \<Rightarrow> string io" where
  "getClientCert 0 h = crash ''stack overflow''"
| "getClientCert (Suc depth) h =
     bind_io (perform h (Cli CurrentUser) (h_str h)) (\<lambda>home.
       let basePath = path_Join [home, ''.colex'']; certFile = path_Join [basePath, ''cert.pem''];
           keyFile = path_Join [basePath, ''key.pem''] in
       catch_io (perform h (Cli (LoadX509KeyPair certFile keyFile)) (h_str h))
         (\<lambda>e. if \<not> IsNotExist e then fail e
              else then_io (make_home h home)
                  (bind_io (MakeServerCert h) (\<lambda>(certPEM, keyPEM).
                     then_io (do_call h (Fs (WriteFile certFile certPEM (oct 700))))
                    (then_io (do_call h (Fs (WriteFile keyFile keyPEM (oct 700))))
                             (getClientCert depth h))))))"

definition ContainsAny :: "string \<Rightarrow> string \<Rightarrow> bool" where
  "ContainsAny s chars = list_ex (\<lambda>c. c \<in> set chars) s"

text \<open>The callback \<open>VerifyPeerCertificate\<close> of \<open>client\<close>, and a request by a client with this certificate.\<close>

definition verifyPeerCertificate :: "host \<Rightarrow> string \<Rightarrow> string list \<Rightarrow> unit io" where
  "verifyPeerCertificate h serv rawCerts t =
     (case getPinnedCert h serv t of
        (Ok pinned, t1) \<Rightarrow>
          if pinned \<in> set rawCerts then ret () t1 else fail (ErrNew ''pinned certificate mismatch'') t1
      | (Err e, t1) \<Rightarrow>
          if IsNotExist e then
            bind_io (prompt h ''Would you like to proceed? [y/N]:'') (\<lambda>answer.
              if ContainsAny answer ''yY''
              then (case rawCerts of [] \<Rightarrow> crash ''index out of range'' | c # _ \<Rightarrow> pinCertificate h serv c)
              else fail (ErrNew ''no pinned certificate available'')) t1
          else fail e t1
      | (Crash x, t1) \<Rightarrow> (Crash x, t1))"

definition http_do :: "host \<Rightarrow> string \<Rightarrow> string \<Rightarrow> string \<Rightarrow> clicall \<Rightarrow> http_response io" where
  "http_do h serv crt fmt c =
     wrap_io fmt
       (bind_io (perform h (Cli (Handshake serv crt)) (\<lambda>t c. map fst (h_dir h t c))) (\<lambda>rawCerts.
          then_io (verifyPeerCertificate h serv rawCerts) (perform h (Cli c) (h_resp h))))"

section \<open>Commands\<close>

definition status_error :: "string \<Rightarrow> http_response \<Rightarrow> gerr" where
  "status_error fmt resp = ErrNew (fmt @ '' RPC failed: status='' @ resp_Status resp @ '', error='' @ resp_Text resp)"

definition decode_error :: "'a result \<Rightarrow> 'a result" where
  "decode_error r = (case r of Inl e \<Rightarrow> Inl (ErrWrap ''response decode failed: '' e) | Inr x \<Rightarrow> Inr x)"

text \<open>A text that \<open>url.Parse\<close> refuses leaves a nil pointer behind.\<close>

definition url_io :: "(string \<Rightarrow> string option) \<Rightarrow> string \<Rightarrow> string io" where
  "url_io url_parse s = (case url_parse s of None \<Rightarrow> crash ''nil pointer dereference'' | Some u \<Rightarrow> ret u)"

definition enableEnrollCommand :: "(string \<Rightarrow> string option) \<Rightarrow> nat \<Rightarrow> host \<Rightarrow> string \<Rightarrow> string list \<Rightarrow> string list list io" where
  "enableEnrollCommand url_parse depth h serv args =
     bind_io (getClientCert depth h) (\<lambda>crt.
     bind_io (url_io url_parse (''https://'' @ serv @ ''/enable-enroll'')) (\<lambda>u.
     bind_io (http_do h serv crt ''enable-enroll failed: '' (HttpGet u)) (\<lambda>resp.
       if resp_StatusCode resp \<noteq> 200 then fail (status_error ''enable-enroll'' resp)
       else bind_io (lift_result (decode_error (resp_EnableEnroll resp))) (\<lambda>_. ret []))))"

definition enrollCommand :: "(string \<Rightarrow> string option) \<Rightarrow> nat \<Rightarrow> host \<Rightarrow> string \<Rightarrow> string list \<Rightarrow> string list list io" where
  "enrollCommand url_parse depth h serv args =
     bind_io (prompt h ''Enrollment key: '') (\<lambda>key.
     bind_io (prompt h ''Name: '') (\<lambda>name.
     bind_io (getClientCert depth h) (\<lambda>crt.
     bind_io (url_io url_parse (''https://'' @ serv @ ''/enroll?key='' @ key @ ''&name='' @ name)) (\<lambda>u.
     bind_io (http_do h serv crt ''enrollment failed: '' (HttpGet u)) (\<lambda>resp.
       if resp_StatusCode resp \<noteq> 200 then fail (status_error ''enroll'' resp) else ret [])))))"

text \<open>Arguments are taken by position: one that is missing is a panic.\<close>

definition arg_io :: "string list \<Rightarrow> nat \<Rightarrow> string io" where
  "arg_io args i = (if i < length args then ret (args ! i) else crash ''index out of range'')"

definition setHostCommand :: "(string \<Rightarrow> string option) \<Rightarrow> nat \<Rightarrow> host \<Rightarrow> string \<Rightarrow> string list \<Rightarrow> string list list io" where
  "setHostCommand url_parse depth h serv args =
     bind_io (arg_io args 0) (\<lambda>host.
     bind_io (arg_io args 1) (\<lambda>ip.
     bind_io (getClientCert depth h) (\<lambda>crt.
     bind_io (url_io url_parse (''https://'' @ serv @ ''/set-host'')) (\<lambda>u.
     bind_io (http_do h serv crt ''set-host failed: '' (HttpPost u (SetHostBody \<lparr>sh_Host = host, sh_IP = ip\<rparr>))) (\<lambda>resp.
       if resp_StatusCode resp \<noteq> 200 then fail (status_error ''set-host'' resp) else ret [])))))"

subsection \<open>Listing\<close>

fun strings_Join :: "string list \<Rightarrow> string \<Rightarrow> string" where
  "strings_Join [] sep = []"
| "strings_Join [x] sep = x"
| "strings_Join (x # y # ys) sep = x @ sep @ strings_Join (y # ys) sep"

definition add_stats :: "LinkStatistics64 \<Rightarrow> LinkStatistics64 \<Rightarrow> LinkStatistics64" where
  "add_stats out s = out\<lparr>
     RxPackets := RxPackets out + RxPackets s, TxPackets := TxPackets out + TxPackets s,
     RxBytes := RxBytes out + RxBytes s, TxBytes := TxBytes out + TxBytes s,
     RxErrors := RxErrors out + RxErrors s, TxErrors := TxErrors out + TxErrors s,
     RxDropped := RxDropped out + RxDropped s, TxDropped := TxDropped out + TxDropped s\<rparr>"

fun sum_loop :: "Interface list \<Rightarrow> LinkStatistics64 \<Rightarrow> LinkStatistics64" where
  "sum_loop [] out = out"
| "sum_loop (i # is) out = sum_loop is (if wi_Kind i = ''loopback'' then out else add_stats out (wi_Stats i))"

definition sumInterfaceStatistics :: "Interface list \<Rightarrow> LinkStatistics64" where
  "sumInterfaceStatistics is = sum_loop is zero_stats"

fun filterSysInterfaces :: "Interface list \<Rightarrow> Interface list" where
  "filterSysInterfaces [] = []"
| "filterSysInterfaces (i # is) =
     (if wi_Kind i = ''loopback'' \<or> wi_Kind i = ''host-veth'' \<or> wi_Kind i = ''bridge'' then filterSysInterfaces is
      else i # filterSysInterfaces is)"

definition list_row :: "(64 word \<Rightarrow> string) \<Rightarrow> nat \<Rightarrow> wire_Silo \<Rightarrow> string list" where
  "list_row ByteSize i silo =
     (let ss = sumInterfaceStatistics (ws_Interfaces silo) in
      [ws_Name silo, ws_IDHex silo @ '' ('' @ FormatInt (int i) @ '')'', ws_Class silo, strings_Join (ws_Tags silo) '','',
       strings_Join (map wi_Address (filterSysInterfaces (ws_Interfaces silo))) '', '',
       ''Net='' @ ByteSize (TxBytes ss + RxBytes ss) @ ''b Mem='' @ ByteSize (mem_Resident (st_Mem (ws_Stats silo))) @ ''b''])"

fun list_rows :: "(64 word \<Rightarrow> string) \<Rightarrow> nat \<Rightarrow> wire_Silo list \<Rightarrow> string list list" where
  "list_rows ByteSize i [] = []"
| "list_rows ByteSize i (s # ss) = list_row ByteSize i s # list_rows ByteSize (Suc i) ss"

definition listCommand :: "(64 word \<Rightarrow> string) \<Rightarrow> nat \<Rightarrow> host \<Rightarrow> string \<Rightarrow> string list \<Rightarrow> string list list io" where
  "listCommand ByteSize depth h serv args =
     bind_io (getClientCert depth h) (\<lambda>crt.
     bind_io (http_do h serv crt ''rpc failed: '' (HttpPost (''https://'' @ serv @ ''/list'') ListBody)) (\<lambda>resp.
       if resp_StatusCode resp \<noteq> 200 then fail (status_error ''list'' resp)
       else bind_io (lift_result (decode_error (resp_List resp))) (\<lambda>pkt. ret (list_rows ByteSize 0 (lp_Matches pkt)))))"

subsection \<open>Starting and stopping\<close>

text \<open>The maps of files are visited in the order of the list.\<close>

definition packUpPacket :: "host \<Rightarrow> conf_Silo \<Rightarrow> UpPacket io" where
  "packUpPacket h c =
     bind_io (map_io (\<lambda>(_, f).
        bind_io (wrap_io ''could not read file resource: '' (perform h (Fs (ReadFile (cf_Path f))) (h_str h))) (\<lambda>d.
          ret \<lparr>f_Type = [], f_LocalPath = cf_Path f, f_SiloPath = cf_SiloPath f, f_Data = d\<rparr>)) (cs_Files c)) (\<lambda>files.
     bind_io (map_io (\<lambda>(_, f).
        bind_io (wrap_io ''failed to build tarball: '' (perform h (Cli (CmdOutput ''tar'' [''-c'', cf_Path f])) (h_str h))) (\<lambda>d.
          ret \<lparr>f_Type = ''tarball'', f_LocalPath = cf_Path f, f_SiloPath = cf_SiloPath f, f_Data = d\<rparr>)) (cs_FileBalls c)) (\<lambda>balls.
       ret \<lparr>up_SiloConf = Some c, up_Files = files @ balls\<rparr>))"

fun interface_info :: "Interface list \<Rightarrow> string" where
  "interface_info [] = []"
| "interface_info (i # is) =
     wi_Name i @ (if wi_Address i \<noteq> [] then '' ('' @ wi_Address i @ '')'' else []) @
     (if is \<noteq> [] then '', '' else []) @ interface_info is"

definition load_silos :: "host \<Rightarrow> (string \<Rightarrow> ('ast \<times> bool) result) \<Rightarrow> ('ast \<Rightarrow> SiloFile result) \<Rightarrow> string list \<Rightarrow> conf_Silo list io" where
  "load_silos h parse decode args =
     bind_io (arg_io args 0) (\<lambda>path.
     bind_io (wrap_io ''could not load silo configuration: '' (LoadSiloFile h parse decode path)) (\<lambda>c. ret (Silos c)))"

definition up_one :: "nat \<Rightarrow> host \<Rightarrow> string \<Rightarrow> conf_Silo \<Rightarrow> string list io" where
  "up_one depth h serv silo =
     bind_io (wrap_io ''pack error: '' (packUpPacket h silo)) (\<lambda>pkt.
     bind_io (getClientCert depth h) (\<lambda>crt.
     bind_io (http_do h serv crt ''rpc failed: '' (HttpPost (''https://'' @ serv @ ''/up'') (UpBody pkt))) (\<lambda>resp.
       if resp_StatusCode resp \<noteq> 200 then ret [cs_Name silo, [], ''Error: '' @ resp_Text resp, []]
       else bind_io (lift_result (decode_error (resp_Up resp))) (\<lambda>r.
         ret [cs_Name silo, upr_IDHex r, ''UP'', interface_info (filterSysInterfaces (upr_Interfaces r))]))))"

definition upCommand ::
  "(string \<Rightarrow> ('ast \<times> bool) result) \<Rightarrow> ('ast \<Rightarrow> SiloFile result) \<Rightarrow> nat \<Rightarrow> host \<Rightarrow> string \<Rightarrow> string list \<Rightarrow> string list list io" where
  "upCommand parse decode depth h serv args =
     bind_io (load_silos h parse decode args) (\<lambda>silos. map_io (up_one depth h serv) silos)"

definition down_one :: "nat \<Rightarrow> host \<Rightarrow> string \<Rightarrow> conf_Silo \<Rightarrow> unit io" where
  "down_one depth h serv silo =
     bind_io (getClientCert depth h) (\<lambda>crt.
     bind_io (http_do h serv crt ''rpc failed: ''
        (HttpPost (''https://'' @ serv @ ''/down'') (DownBody \<lparr>dn_SiloName = cs_Name silo, dn_SiloID = []\<rparr>))) (\<lambda>resp. ret ()))"

definition downCommand ::
  "(string \<Rightarrow> ('ast \<times> bool) result) \<Rightarrow> ('ast \<Rightarrow> SiloFile result) \<Rightarrow> nat \<Rightarrow> host \<Rightarrow> string \<Rightarrow> string list \<Rightarrow> string list list io" where
  "downCommand parse decode depth h serv args =
     bind_io (load_silos h parse decode args) (\<lambda>silos. then_io (each_io (down_one depth h serv) silos) (ret []))"

definition helpCommand :: "string list \<Rightarrow> string list list io" where
  "helpCommand args = ret []"

section \<open>The program\<close>

text \<open>What the code outside colex does for the client.\<close>

record 'ast library =
  lib_parse :: "string \<Rightarrow> ('ast \<times> bool) result"
  lib_decode :: "'ast \<Rightarrow> SiloFile result"
  lib_url :: "string \<Rightarrow> string option"
  lib_ByteSize :: "64 word \<Rightarrow> string"

record command =
  minArgs :: nat
  handler :: "string list \<Rightarrow> string list list io"

definition commands :: "'ast library \<Rightarrow> nat \<Rightarrow> host \<Rightarrow> string \<Rightarrow> (string, command) gomap" where
  "commands lib depth h serv =
     [(''list'', \<lparr>minArgs = 0, handler = listCommand (lib_ByteSize lib) depth h serv\<rparr>),
      (''down'', \<lparr>minArgs = 2, handler = downCommand (lib_parse lib) (lib_decode lib) depth h serv\<rparr>),
      (''up'', \<lparr>minArgs = 2, handler = upCommand (lib_parse lib) (lib_decode lib) depth h serv\<rparr>),
      (''enroll'', \<lparr>minArgs = 1, handler = enrollCommand (lib_url lib) depth h serv\<rparr>),
      (''enable-enroll'', \<lparr>minArgs = 1, handler = enableEnrollCommand (lib_url lib) depth h serv\<rparr>),
      (''set-host'', \<lparr>minArgs = 2, handler = setHostCommand (lib_url lib) depth h serv\<rparr>),
      (''help'', \<lparr>minArgs = 0, handler = helpCommand\<rparr>)]"

text \<open>\<open>flag.Arg\<close>: the empty string out of range.\<close>

definition flag_Arg :: "string list \<Rightarrow> int \<Rightarrow> string" where
  "flag_Arg args i = (if 0 \<le> i \<and> i < int (length args) then args ! nat i else [])"

definition run_command :: "command \<Rightarrow> string list \<Rightarrow> bool \<Rightarrow> string list list io" where
  "run_command c args commandLeading =
     (if length args < minArgs c
      then fail (ErrNew (''Expected '' @ FormatInt (int (minArgs c)) @ '' arguments, got '' @ FormatInt (int (length args)) @ [CHR 0x0A]))
      else handler c (if commandLeading then tl args else args))"

definition cli_main :: "'ast library \<Rightarrow> nat \<Rightarrow> host \<Rightarrow> string \<Rightarrow> string list \<Rightarrow> string list list io" where
  "cli_main lib depth h serv args =
     (let cmds = commands lib depth h serv; final = flag_Arg args (int (length args) - 1) in
      if serv = [] \<and> flag_Arg args 0 \<noteq> ''help'' then fail (ErrNew ''Expected 'serv' flag'')
      else case go_lookup cmds final of
        Some c \<Rightarrow> run_command c args False
      | None \<Rightarrow>
        (case go_lookup cmds (flag_Arg args 0) of
           None \<Rightarrow> fail (ErrNew (''Unrecognised command '' @ final @ [CHR 0x0A]))
         | Some c \<Rightarrow> run_command c args True))"


section \<open>Facts\<close>

lemma path_Join_plain:
  assumes "list_all plain_comp cs" "list_all plain_comp ds" "ds \<noteq> []"
  shows "path_Join (abs_path cs # ds) = abs_path (cs @ ds)"
proof -
  have ne: "filter (\<lambda>c. c \<noteq> []) ds = ds" using assms(2) by (auto simp: plain_comp_def list_all_iff)
  have s: "list_all (\<lambda>p. slash \<notin> set p) ds" using assms(2) by (auto simp: plain_comp_def list_all_iff)
  let ?p = "Join ds [slash]"
  have split: "Split ?p slash = ds" using Split_Join [of ds slash] assms(3) s by simp
  have p: "?p \<noteq> []" using split assms(2,3) by (cases ds) (auto simp: plain_comp_def)
  have "path_Join (abs_path cs # ds) = path_Join [abs_path cs, ?p]"
    using ne p assms(3) by (cases ds) (simp_all add: path_Join_def abs_path_def)
  also have "\<dots> = abs_path (clean_comps True (rev cs) (Split ?p slash))" by (rule path_Join_abs [OF assms(1) p])
  also have "\<dots> = abs_path (cs @ ds)" unfolding split using clean_comps_plain [OF assms(2), of True "rev cs"] by simp
  finally show ?thesis .
qed

text \<open>The file that holds the certificate of a daemon.\<close>

definition pin_file :: "string \<Rightarrow> string \<Rightarrow> string" where
  "pin_file home address = path_Join [home, ''.colex'', ''known_hosts'', sanitizeAddress address]"

lemma sanitize_no_slash: "slash \<notin> set (sanitizeAddress a)"
  by (auto simp: sanitizeAddress_def split: if_splits)

lemma pin_file_same:
  assumes "list_all plain_comp cs" "plain_comp (sanitizeAddress a)"
  shows "path_Join [known_hosts (abs_path cs), sanitizeAddress a] = pin_file (abs_path cs) a"
    "pin_file (abs_path cs) a = abs_path (cs @ [''.colex'', ''known_hosts'', sanitizeAddress a])"
proof -
  have k: "list_all plain_comp [''.colex'', ''known_hosts'']" by (simp add: plain_comp_def dotdot_def)
  have kh: "known_hosts (abs_path cs) = abs_path (cs @ [''.colex'', ''known_hosts''])"
    unfolding known_hosts_def using path_Join_plain [OF assms(1) k] by simp
  have "list_all plain_comp (cs @ [''.colex'', ''known_hosts''])" using assms(1) k by simp
  from path_Join_plain [OF this, of "[sanitizeAddress a]"] assms(2)
  have j: "path_Join [known_hosts (abs_path cs), sanitizeAddress a] = abs_path (cs @ [''.colex'', ''known_hosts'', sanitizeAddress a])"
    unfolding kh by simp
  show p: "pin_file (abs_path cs) a = abs_path (cs @ [''.colex'', ''known_hosts'', sanitizeAddress a])"
    unfolding pin_file_def using path_Join_plain [OF assms(1), of "[''.colex'', ''known_hosts'', sanitizeAddress a]"] k assms(2) by simp
  show "path_Join [known_hosts (abs_path cs), sanitizeAddress a] = pin_file (abs_path cs) a" unfolding j p ..
qed

lemma getPinnedCert_ok:
  "getPinnedCert h a t = (Ok pinned, t') \<longleftrightarrow>
     (\<exists>p. h_err h t (Cli CurrentUser) = None \<and> p = pin_file (h_str h t (Cli CurrentUser)) a \<and>
        (let t1 = t @ [(Cli CurrentUser, None)]; t2 = t1 @ [(Fs (Stat p), None)] in
         h_err h t1 (Fs (Stat p)) = None \<and> h_err h t2 (Fs (ReadFile p)) = None \<and> pinned = h_str h t2 (Fs (ReadFile p)) \<and>
         t' = t2 @ [(Fs (ReadFile p), None)]))"
  by (auto simp: getPinnedCert_def io_ok Let_def pin_file_def)

lemma verify_ok:
  assumes "verifyPeerCertificate h serv raw t = (Ok (), t')"
  shows "(\<exists>pinned. getPinnedCert h serv t = (Ok pinned, t') \<and> pinned \<in> set raw) \<or>
    (\<exists>e t1 t2 c cs. getPinnedCert h serv t = (Err e, t1) \<and> IsNotExist e \<and> raw = c # cs \<and>
       prompt h ''Would you like to proceed? [y/N]:'' t1 = (Ok (h_str h t1 (Cli (Prompt ''Would you like to proceed? [y/N]:''))), t2) \<and>
       ContainsAny (h_str h t1 (Cli (Prompt ''Would you like to proceed? [y/N]:''))) ''yY'' \<and> pinCertificate h serv c t2 = (Ok (), t'))"
proof (cases "getPinnedCert h serv t")
  case (Pair r t1)
  show ?thesis
  proof (cases r)
    case (Ok pinned)
    with Pair assms show ?thesis by (auto simp: verifyPeerCertificate_def ret_def fail_def split: if_splits)
  next
    case (Err e)
    let ?q = "''Would you like to proceed? [y/N]:''"
    from Pair Err assms have e: "IsNotExist e" by (auto simp: verifyPeerCertificate_def fail_def split: if_splits)
    obtain ans t2 where p: "prompt h ?q t1 = (Ok ans, t2)"
      by (cases "h_err h t1 (Cli (Prompt ?q))") (auto simp: prompt_def io_defs)
    with Pair Err e assms have a: "ContainsAny ans ''yY''" "\<exists>c cs. raw = c # cs \<and> pinCertificate h serv c t2 = (Ok (), t')"
      by (auto simp: verifyPeerCertificate_def bind_io_def fail_def crash_def split: if_splits list.splits)
    have "ans = h_str h t1 (Cli (Prompt ?q))"
      using p a(1) by (cases "h_err h t1 (Cli (Prompt ?q))") (auto simp: prompt_def io_defs ContainsAny_def)
    with Pair Err e p a show ?thesis by blast
  qed (use Pair assms in \<open>auto simp: verifyPeerCertificate_def\<close>)
qed

lemma pinCertificate_writes:
  assumes "pinCertificate h a c t = (Ok (), t')"
  shows "h_err h t (Cli CurrentUser) = None \<and> (\<exists>t1. t' = t @ (Cli CurrentUser, None) # t1 @
     [(Fs (WriteFile (path_Join [known_hosts (h_str h t (Cli CurrentUser)), sanitizeAddress a]) c (oct 755)), None)])"
proof -
  let ?d = "known_hosts (h_str h t (Cli CurrentUser))"
  let ?m = "catch_io (do_call h (Fs (Stat ?d))) (\<lambda>e. if \<not> IsNotExist e then fail e else do_call h (Fs (MkdirAll ?d (oct 755))))"
  from assms obtain t1 where m: "h_err h t (Cli CurrentUser) = None" "?m (t @ [(Cli CurrentUser, None)]) = (Ok (), t1)"
    "t' = t1 @ [(Fs (WriteFile (path_Join [?d, sanitizeAddress a]) c (oct 755)), None)]"
    by (auto simp: pinCertificate_def io_ok Let_def)
  have "grows ?m" by (intro grows_catch grows_intros)
  then have "\<exists>ev. snd (?m (t @ [(Cli CurrentUser, None)])) = (t @ [(Cli CurrentUser, None)]) @ ev" unfolding grows_def by blast
  then obtain ev where "t1 = (t @ [(Cli CurrentUser, None)]) @ ev" unfolding m(2) by auto
  with m show ?thesis by simp
qed

text \<open>The bodies posted to the daemon, in order.\<close>

definition posts :: "trace \<Rightarrow> rpc_body list" where
  "posts t = concat (map (\<lambda>(c, e). case c of Cli (HttpPost u b) \<Rightarrow> if e = None then [b] else [] | _ \<Rightarrow> []) t)"

lemma posts_append [simp]: "posts (t @ t') = posts t @ posts t'"
  by (simp add: posts_def)

lemma posts_Cons: "posts ((c, e) # t) = (case c of Cli (HttpPost u b) \<Rightarrow> if e = None then [b] else [] | _ \<Rightarrow> []) @ posts t"
  by (simp add: posts_def)

lemma posts_Nil [simp]: "posts [] = []"
  by (simp add: posts_def)

text \<open>The requests of a trace, answered or not, and programs that make none.\<close>

fun is_request :: "call \<Rightarrow> bool" where
  "is_request (Cli (HttpGet u)) = True"
| "is_request (Cli (HttpPost u b)) = True"
| "is_request _ = False"

definition requests :: "trace \<Rightarrow> trace" where
  "requests t = filter (\<lambda>(c, e). is_request c) t"

lemma requests_append [simp]: "requests (t @ t') = requests t @ requests t'"
  by (simp add: requests_def)

lemma requests_Cons: "requests ((c, e) # t) = (if is_request c then [(c, e)] else []) @ requests t"
  by (simp add: requests_def)

lemma requests_Nil [simp]: "requests [] = []"
  by (simp add: requests_def)

lemma posts_requests: "posts (requests t) = posts t"
  by (induction t) (auto simp: requests_Cons posts_Cons split: call.splits clicall.splits)

definition silent :: "'a io \<Rightarrow> bool" where
  "silent m \<longleftrightarrow> (\<forall>t. requests (snd (m t)) = requests t)"

lemma silent_requests: "silent m \<Longrightarrow> m t = (r, t') \<Longrightarrow> requests t' = requests t"
  unfolding silent_def by (metis snd_conv)

lemma silentD: "silent m \<Longrightarrow> m t = (r, t') \<Longrightarrow> posts t' = posts t"
  using silent_requests posts_requests by metis

named_theorems silent_intros \<open>programs that make no request\<close>

interpretation sl: trace_order "\<lambda>t t'. requests t' = requests t"
  by unfold_locales simp_all

lemma silent_follows: "silent m \<longleftrightarrow> follows (\<lambda>t t'. requests t' = requests t) m"
  by (simp add: silent_def follows_def)

lemma silent_perform [silent_intros]: "\<not> is_request c \<Longrightarrow> silent (perform h c v)"
  by (simp add: silent_follows sl.follows_perform requests_Cons)

lemma silent_do_call [silent_intros]: "\<not> is_request c \<Longrightarrow> silent (do_call h c)"
  by (simp add: do_call_def silent_perform)

lemmas silent_ret [silent_intros] = sl.follows_ret [folded silent_follows]
lemmas silent_fail [silent_intros] = sl.follows_fail [folded silent_follows]
lemmas silent_crash [silent_intros] = sl.follows_crash [folded silent_follows]
lemmas silent_bind [silent_intros] = sl.follows_bind [folded silent_follows]
lemmas silent_then [silent_intros] = sl.follows_then [folded silent_follows]
lemmas silent_catch [silent_intros] = sl.follows_catch [folded silent_follows]
lemmas silent_wrap [silent_intros] = sl.follows_wrap [folded silent_follows]
lemmas silent_map [silent_intros] = sl.follows_map [folded silent_follows]

lemma silent_lift [silent_intros]: "silent (lift_result r)"
  by (auto simp: silent_def lift_result_def io_defs split: sum.splits)

lemma silent_MakeServerCert [silent_intros]: "silent (MakeServerCert h)"
  by (auto simp: silent_def MakeServerCert_def makeBasicCert_def GenerateRSA_def io_defs Let_def requests_Cons split: option.splits)

lemma silent_getClientCert [silent_intros]: "silent (getClientCert d h)"
  by (induction d) (auto simp: make_home_def Let_def intro!: silent_intros split: prod.splits)

lemma silent_pins:
  "silent (getPinnedCert h a)" "silent (pinCertificate h a c)" "silent (prompt h msg)"
  by (auto simp: getPinnedCert_def pinCertificate_def prompt_def Let_def intro!: silent_intros)

lemma silent_verify [silent_intros]: "silent (verifyPeerCertificate h serv raw)"
  unfolding silent_def
proof
  fix t
  obtain r t1 where g: "getPinnedCert h serv t = (r, t1)" by fastforce
  have s: "silent (bind_io (prompt h ''Would you like to proceed? [y/N]:'') (\<lambda>answer.
      if ContainsAny answer ''yY'' then (case raw of [] \<Rightarrow> crash ''index out of range'' | c # _ \<Rightarrow> pinCertificate h serv c)
      else fail (ErrNew ''no pinned certificate available'')))"
    by (cases raw) (auto intro!: silent_intros silent_pins)
  show "requests (snd (verifyPeerCertificate h serv raw t)) = requests t"
    using silent_requests [OF silent_pins(1) g] s g
    by (cases r) (auto simp: verifyPeerCertificate_def silent_def ret_def fail_def)
qed

lemma silent_packUpPacket [silent_intros]: "silent (packUpPacket h c)"
  unfolding packUpPacket_def by (intro silent_intros) (auto intro!: silent_intros split: prod.splits)

lemma http_do_posts:
  assumes "http_do h serv crt fmt (HttpPost u b) t = (Ok resp, t')"
  shows "posts t' = posts t @ [b]"
proof -
  from assms obtain t2 where v: "verifyPeerCertificate h serv (map fst (h_dir h t (Cli (Handshake serv crt)))) (t @ [(Cli (Handshake serv crt), None)]) = (Ok (), t2)"
    and t': "t' = t2 @ [(Cli (HttpPost u b), None)]" by (auto simp: http_do_def io_ok)
  from silentD [OF silent_verify v] show ?thesis by (simp add: t' posts_Cons)
qed

text \<open>A request is made only once the daemon's certificates have been accepted.\<close>

lemma http_do_request:
  assumes r: "http_do h serv crt fmt c t = (r, t')" and n: "requests t' \<noteq> requests t"
  shows "\<exists>t2 x. verifyPeerCertificate h serv (map fst (h_dir h t (Cli (Handshake serv crt)))) (t @ [(Cli (Handshake serv crt), None)]) = (Ok (), t2) \<and>
    t' = t2 @ [(Cli c, x)] \<and> requests t2 = requests t"
proof (cases "h_err h t (Cli (Handshake serv crt))")
  case None
  let ?t1 = "t @ [(Cli (Handshake serv crt), None)]" and ?raw = "map fst (h_dir h t (Cli (Handshake serv crt)))"
  obtain r2 t2 where v: "verifyPeerCertificate h serv ?raw ?t1 = (r2, t2)" by fastforce
  have q: "requests t2 = requests t" using silent_requests [OF silent_verify v] by (simp add: requests_Cons)
  show ?thesis
  proof (cases r2)
    case (Ok u)
    have "\<exists>x. t' = t2 @ [(Cli c, x)]"
      using r None v Ok by (cases "h_err h t2 (Cli c)") (auto simp: http_do_def io_defs)
    with v Ok q show ?thesis by auto
  qed (use r None v q n in \<open>auto simp: http_do_def io_defs\<close>)
qed (use r n in \<open>auto simp: http_do_def io_defs requests_Cons\<close>)

section \<open>Properties\<close>

text \<open>Why the certificates of a daemon were accepted.\<close>

lemma verify_trusted:
  assumes v: "verifyPeerCertificate h serv raw t = (Ok (), t2)" and pin: "\<And>t. pin_file (h_str h t (Cli CurrentUser)) serv = f"
      "\<And>t. path_Join [known_hosts (h_str h t (Cli CurrentUser)), sanitizeAddress serv] = f"
  shows "h_str h (t @ [(Cli CurrentUser, None), (Fs (Stat f), None)]) (Fs (ReadFile f)) \<in> set raw \<and>
       t2 = t @ [(Cli CurrentUser, None), (Fs (Stat f), None), (Fs (ReadFile f), None)] \<or>
     (\<exists>e u answer. getPinnedCert h serv t = (Err e, u) \<and> IsNotExist e \<and> raw \<noteq> [] \<and>
       answer = h_str h u (Cli (Prompt ''Would you like to proceed? [y/N]:'')) \<and> (CHR ''y'' \<in> set answer \<or> CHR ''Y'' \<in> set answer) \<and>
       (Fs (WriteFile f (hd raw) (oct 755)), None) \<in> set t2)"
  using verify_ok [OF v]
proof (elim disjE exE conjE)
  fix pinned
  assume "getPinnedCert h serv t = (Ok pinned, t2)" "pinned \<in> set raw"
  then show ?thesis by (intro disjI1) (simp add: getPinnedCert_ok pin Let_def)
next
  fix e u t3 d ds
  let ?a = "h_str h u (Cli (Prompt ''Would you like to proceed? [y/N]:''))"
  assume g: "getPinnedCert h serv t = (Err e, u)" "IsNotExist e" and raw: "raw = d # ds" and a: "ContainsAny ?a ''yY''"
    and p: "pinCertificate h serv d t3 = (Ok (), t2)"
  have "(Fs (WriteFile f (hd raw) (oct 755)), None) \<in> set t2"
    using pinCertificate_writes [OF p] raw by (auto simp: pin)
  moreover have "CHR ''y'' \<in> set ?a \<or> CHR ''Y'' \<in> set ?a" using a by (auto simp: ContainsAny_def list_ex_iff)
  moreover have "raw \<noteq> []" using raw by simp
  ultimately show ?thesis using g by (intro disjI2 exI [of _ e] exI [of _ u] exI [of _ ?a]) simp
qed

text \<open>
  C18. No request goes to a daemon that is not trusted. If a request is made, whether it succeeds or not, the
  daemon has shown its certificates before, and either one of them is the one in the file pinned for its
  address; or there is no such file, the user has said yes, and the first certificate has been written to
  that file. The request is the only one and the last call. A certificate that does not match the pinned one
  ends in an error before any request is made.
\<close>

theorem requests_go_to_trusted_daemons:
  assumes "list_all plain_comp cs" "plain_comp (sanitizeAddress serv)" "\<And>t. h_str h t (Cli CurrentUser) = abs_path cs"
    and r: "http_do h serv crt fmt c t = (r, t')"
  shows "(requests t' \<noteq> requests t \<longrightarrow>
      (let raw = map fst (h_dir h t (Cli (Handshake serv crt))); t1 = t @ [(Cli (Handshake serv crt), None)] in
       \<exists>t2 x. t' = t2 @ [(Cli c, x)] \<and> requests t2 = requests t \<and>
         (h_str h (t1 @ [(Cli CurrentUser, None), (Fs (Stat (pin_file (abs_path cs) serv)), None)]) (Fs (ReadFile (pin_file (abs_path cs) serv))) \<in> set raw \<and>
            t2 = t1 @ [(Cli CurrentUser, None), (Fs (Stat (pin_file (abs_path cs) serv)), None), (Fs (ReadFile (pin_file (abs_path cs) serv)), None)] \<or>
          (\<exists>e u answer. getPinnedCert h serv t1 = (Err e, u) \<and> IsNotExist e \<and> raw \<noteq> [] \<and>
            answer = h_str h u (Cli (Prompt ''Would you like to proceed? [y/N]:'')) \<and> (CHR ''y'' \<in> set answer \<or> CHR ''Y'' \<in> set answer) \<and>
            (Fs (WriteFile (pin_file (abs_path cs) serv) (hd raw) (oct 755)), None) \<in> set t2)))) \<and>
    (getPinnedCert h serv (t @ [(Cli (Handshake serv crt), None)]) = (Ok pinned, u) \<longrightarrow>
      h_err h t (Cli (Handshake serv crt)) = None \<longrightarrow> pinned \<notin> fst ` set (h_dir h t (Cli (Handshake serv crt))) \<longrightarrow>
      r = Err (ErrWrap fmt (ErrNew ''pinned certificate mismatch'')) \<and> t' = u \<and> requests t' = requests t)"
proof -
  let ?file = "pin_file (abs_path cs) serv"
  note f = pin_file_same [OF assms(1,2)]
  have pin: "pin_file (h_str h t (Cli CurrentUser)) serv = ?file" "path_Join [known_hosts (h_str h t (Cli CurrentUser)), sanitizeAddress serv] = ?file" for t
    unfolding assms(3) f(1) by simp_all
  let ?t1 = "t @ [(Cli (Handshake serv crt), None)]" and ?raw = "map fst (h_dir h t (Cli (Handshake serv crt)))"
  let ?trusted = "\<lambda>t2. h_str h (?t1 @ [(Cli CurrentUser, None), (Fs (Stat ?file), None)]) (Fs (ReadFile ?file)) \<in> set ?raw \<and>
            t2 = ?t1 @ [(Cli CurrentUser, None), (Fs (Stat ?file), None), (Fs (ReadFile ?file), None)] \<or>
          (\<exists>e u answer. getPinnedCert h serv ?t1 = (Err e, u) \<and> IsNotExist e \<and> ?raw \<noteq> [] \<and>
            answer = h_str h u (Cli (Prompt ''Would you like to proceed? [y/N]:'')) \<and> (CHR ''y'' \<in> set answer \<or> CHR ''Y'' \<in> set answer) \<and>
            (Fs (WriteFile ?file (hd ?raw) (oct 755)), None) \<in> set t2)"
  note trusted = verify_trusted [OF _ pin, of ?raw ?t1]
  have made: "\<exists>t2 x. t' = t2 @ [(Cli c, x)] \<and> requests t2 = requests t \<and> ?trusted t2" if "requests t' \<noteq> requests t"
  proof -
    from http_do_request [OF r that] obtain t2 x where
      v: "verifyPeerCertificate h serv ?raw ?t1 = (Ok (), t2)" and t2: "t' = t2 @ [(Cli c, x)]" "requests t2 = requests t" by blast
    show ?thesis by (intro exI [of _ t2] exI [of _ x]) (rule conjI [OF t2(1) conjI [OF t2(2) trusted [OF v]]])
  qed
  have refused: "r = Err (ErrWrap fmt (ErrNew ''pinned certificate mismatch'')) \<and> t' = u \<and> requests t' = requests t"
    if g: "getPinnedCert h serv ?t1 = (Ok pinned, u)" and "h_err h t (Cli (Handshake serv crt)) = None" "pinned \<notin> set ?raw"
    using that r silent_requests [OF silent_pins(1) g] by (auto simp: http_do_def io_defs verifyPeerCertificate_def requests_Cons)
  show ?thesis unfolding Let_def by (rule conjI, rule impI, erule made, intro impI, rule refused) simp_all
qed

text \<open>
  A host on which a pair that has been written is there: loading it may fail, but not because a file
  does not exist.
\<close>

definition keeps_pairs :: "host \<Rightarrow> bool" where
  "keeps_pairs h \<longleftrightarrow> (\<forall>t cf kf d d' m e. (Fs (WriteFile cf d m), None) \<in> set t \<longrightarrow> (Fs (WriteFile kf d' m), None) \<in> set t \<longrightarrow>
     h_err h t (Cli (LoadX509KeyPair cf kf)) = Some e \<longrightarrow> \<not> IsNotExist e)"

lemma no_crash_make_home: "no_crash (make_home h home)"
  by (auto simp: make_home_def Let_def intro!: no_crash_intros split: if_splits)

lemma no_crash_MakeServerCert: "no_crash (MakeServerCert h)"
  by (auto simp: no_crash_def MakeServerCert_def makeBasicCert_def GenerateRSA_def io_defs Let_def split: option.splits)

lemma grows_MakeServerCert: "grows (MakeServerCert h)"
  unfolding grows_def
  by (auto simp: MakeServerCert_def makeBasicCert_def GenerateRSA_def io_defs Let_def split: option.splits)

text \<open>The part of \<open>getClientCert\<close> that mints and writes a pair.\<close>

definition mint_pair :: "host \<Rightarrow> string \<Rightarrow> string \<Rightarrow> string \<Rightarrow> unit io" where
  "mint_pair h home certFile keyFile =
     then_io (make_home h home)
       (bind_io (MakeServerCert h) (\<lambda>(certPEM, keyPEM).
          then_io (do_call h (Fs (WriteFile certFile certPEM (oct 700)))) (do_call h (Fs (WriteFile keyFile keyPEM (oct 700))))))"

lemma mint_pair_no_crash: "no_crash (mint_pair h home cf kf)"
  unfolding mint_pair_def
  by (auto intro!: no_crash_intros no_crash_make_home no_crash_MakeServerCert split: prod.splits)

lemma mint_pair_writes:
  assumes "mint_pair h home cf kf t = (Ok (), t')"
  shows "\<exists>d d'. (Fs (WriteFile cf d (oct 700)), None) \<in> set t' \<and> (Fs (WriteFile kf d' (oct 700)), None) \<in> set t'"
  using assms by (auto simp: mint_pair_def io_ok split: prod.splits)

lemma mint_pair_then:
  "then_io (mint_pair h home cf kf) k =
     then_io (make_home h home)
       (bind_io (MakeServerCert h) (\<lambda>(certPEM, keyPEM).
          then_io (do_call h (Fs (WriteFile cf certPEM (oct 700)))) (then_io (do_call h (Fs (WriteFile kf keyPEM (oct 700)))) k)))"
  by (rule ext) (auto simp: mint_pair_def then_io_def bind_io_def split: prod.splits res.splits)

lemma getClientCert_step:
  "getClientCert (Suc d) h = bind_io (perform h (Cli CurrentUser) (h_str h)) (\<lambda>home.
     let basePath = path_Join [home, ''.colex'']; cf = path_Join [basePath, ''cert.pem'']; kf = path_Join [basePath, ''key.pem''] in
     catch_io (perform h (Cli (LoadX509KeyPair cf kf)) (h_str h))
       (\<lambda>e. if \<not> IsNotExist e then fail e else then_io (mint_pair h home cf kf) (getClientCert d h)))"
  unfolding getClientCert.simps mint_pair_then ..

lemma getClientCert_second:
  assumes k: "keeps_pairs h" and home: "\<And>t. h_str h t (Cli CurrentUser) = home"
    and w: "(Fs (WriteFile (path_Join [path_Join [home, ''.colex''], ''cert.pem'']) d m), None) \<in> set t"
      "(Fs (WriteFile (path_Join [path_Join [home, ''.colex''], ''key.pem'']) d' m), None) \<in> set t"
  shows "getClientCert (Suc n) h t = getClientCert (Suc 0) h t \<and> fst (getClientCert (Suc 0) h t) \<noteq> Crash x"
proof -
  let ?l = "Cli (LoadX509KeyPair (path_Join [path_Join [home, ''.colex''], ''cert.pem'']) (path_Join [path_Join [home, ''.colex''], ''key.pem'']))"
  let ?t = "t @ [(Cli CurrentUser, None)]"
  have "(Fs (WriteFile (path_Join [path_Join [home, ''.colex''], ''cert.pem'']) d m), None) \<in> set ?t"
    "(Fs (WriteFile (path_Join [path_Join [home, ''.colex''], ''key.pem'']) d' m), None) \<in> set ?t" using w by auto
  then have ne: "h_err h ?t ?l = Some e \<Longrightarrow> \<not> IsNotExist e" for e using k unfolding keeps_pairs_def by blast
  show ?thesis unfolding getClientCert_step
    by (cases "h_err h t (Cli CurrentUser)"; cases "h_err h ?t ?l") (use ne in \<open>auto simp: io_defs Let_def home\<close>)
qed

lemma getClientCert_two_frames:
  assumes k: "keeps_pairs h" and home: "\<And>t. h_str h t (Cli CurrentUser) = home"
  shows "getClientCert (Suc (Suc d)) h t = getClientCert 2 h t \<and>
    (\<exists>r t'. getClientCert (Suc (Suc d)) h t = (r, t') \<and> (\<forall>x. r \<noteq> Crash x))"
proof -
  let ?cf = "path_Join [path_Join [home, ''.colex''], ''cert.pem'']" and ?kf = "path_Join [path_Join [home, ''.colex''], ''key.pem'']"
  let ?l = "Cli (LoadX509KeyPair ?cf ?kf)"
  let ?t = "t @ [(Cli CurrentUser, None)]"
  obtain r u where m: "mint_pair h home ?cf ?kf (?t @ [(?l, h_err h ?t ?l)]) = (r, u)" by fastforce
  have nc: "r \<noteq> Crash x" for x using mint_pair_no_crash [of h home ?cf ?kf] m unfolding no_crash_def by (metis fst_conv)
  have sec: "getClientCert (Suc n) h u = getClientCert (Suc 0) h u \<and> fst (getClientCert (Suc 0) h u) \<noteq> Crash x" if "r = Ok ()" for n x
  proof -
    from mint_pair_writes m that obtain d d' where "(Fs (WriteFile ?cf d (oct 700)), None) \<in> set u" "(Fs (WriteFile ?kf d' (oct 700)), None) \<in> set u"
      by metis
    from getClientCert_second [OF k home this] show ?thesis by blast
  qed
  have st: "getClientCert (Suc n) h t = (case h_err h t (Cli CurrentUser) of
      Some e \<Rightarrow> (Err e, t @ [(Cli CurrentUser, Some e)])
    | None \<Rightarrow> (case h_err h ?t ?l of None \<Rightarrow> (Ok (h_str h ?t ?l), ?t @ [(?l, None)])
       | Some e \<Rightarrow> if IsNotExist e then (case r of Ok _ \<Rightarrow> getClientCert n h u | Err e \<Rightarrow> (Err e, u) | Crash x \<Rightarrow> (Crash x, u))
           else (Err e, ?t @ [(?l, Some e)])))" for n
    unfolding getClientCert_step using m by (cases "h_err h t (Cli CurrentUser)"; cases "h_err h ?t ?l"; cases r) (auto simp: io_defs Let_def home)
  have eq: "getClientCert (Suc (Suc d)) h t = getClientCert 2 h t"
    unfolding numeral_2_eq_2 st [of "Suc d"] st [of "Suc 0"] using sec [of d] by (simp del: getClientCert.simps split: option.split res.split)
  obtain r' t' where r': "getClientCert (Suc (Suc d)) h t = (r', t')" by fastforce
  have "fst (getClientCert (Suc (Suc d)) h t) \<noteq> Crash x" for x
    unfolding st [of "Suc d"] using sec [of d x] nc [of x] by (auto simp del: getClientCert.simps split: option.split res.split)
  with eq r' show ?thesis by auto
qed

text \<open>
  C22. Getting the user's certificate ends. If what is written stays there and the user's home is the same
  throughout, \<open>getClientCert\<close>, which calls itself after it has minted a pair, calls itself at most once: two
  frames are enough, more make no difference, and it returns a certificate or an error.
\<close>

theorem client_certificate_terminates:
  assumes k: "keeps_pairs h" and home: "\<And>t. h_str h t (Cli CurrentUser) = home"
  shows "getClientCert (Suc (Suc d)) h t = getClientCert 2 h t \<and>
    (\<exists>r t'. getClientCert (Suc (Suc d)) h t = (r, t') \<and> (\<forall>x. r \<noteq> Crash x))"
  by (rule getClientCert_two_frames [OF assms])


subsection \<open>Listing and starting\<close>

text \<open>
  The statistics that the client shows of a silo. Each counter is the sum, in 64-bit arithmetic, of that
  counter over the interfaces that are not loopbacks, and the counters that are not summed are zero; so the
  order of the interfaces does not matter.
\<close>

theorem statistics_are_sums:
  "(let s = sumInterfaceStatistics is; total = (\<lambda>f. \<Sum>i\<leftarrow>is. if wi_Kind i = ''loopback'' then 0 else f (wi_Stats i)) in
     RxPackets s = total RxPackets \<and> TxPackets s = total TxPackets \<and> RxBytes s = total RxBytes \<and> TxBytes s = total TxBytes \<and>
     RxErrors s = total RxErrors \<and> TxErrors s = total TxErrors \<and> RxDropped s = total RxDropped \<and> TxDropped s = total TxDropped \<and>
     OtherCounters s = replicate 15 0) \<and>
   sumInterfaceStatistics (rev is) = sumInterfaceStatistics is"
proof -
  let ?sum = "\<lambda>out js. add_stats out \<lparr>
      RxPackets = (\<Sum>i\<leftarrow>js. if wi_Kind i = ''loopback'' then 0 else RxPackets (wi_Stats i)),
      TxPackets = (\<Sum>i\<leftarrow>js. if wi_Kind i = ''loopback'' then 0 else TxPackets (wi_Stats i)),
      RxBytes = (\<Sum>i\<leftarrow>js. if wi_Kind i = ''loopback'' then 0 else RxBytes (wi_Stats i)),
      TxBytes = (\<Sum>i\<leftarrow>js. if wi_Kind i = ''loopback'' then 0 else TxBytes (wi_Stats i)),
      RxErrors = (\<Sum>i\<leftarrow>js. if wi_Kind i = ''loopback'' then 0 else RxErrors (wi_Stats i)),
      TxErrors = (\<Sum>i\<leftarrow>js. if wi_Kind i = ''loopback'' then 0 else TxErrors (wi_Stats i)),
      RxDropped = (\<Sum>i\<leftarrow>js. if wi_Kind i = ''loopback'' then 0 else RxDropped (wi_Stats i)),
      TxDropped = (\<Sum>i\<leftarrow>js. if wi_Kind i = ''loopback'' then 0 else TxDropped (wi_Stats i)), OtherCounters = []\<rparr>"
  have l: "sum_loop js out = ?sum out js" for js out
    by (induction js arbitrary: out) (simp_all add: add_stats_def algebra_simps)
  have r: "(\<Sum>i\<leftarrow>rev is. f i) = (\<Sum>i\<leftarrow>is. f i)" for f :: "Interface \<Rightarrow> 64 word"
    by (simp add: rev_map [symmetric] sum_list_rev)
  show ?thesis unfolding sumInterfaceStatistics_def l by (simp add: add_stats_def zero_stats_def Let_def r)
qed

text \<open>The files of a packet, but for their contents, are those the silo file names.\<close>

definition packed :: "conf_Silo \<Rightarrow> UpPacket \<Rightarrow> bool" where
  "packed c pkt \<longleftrightarrow> up_SiloConf pkt = Some c \<and>
     map (\<lambda>f. (f_Type f, f_LocalPath f, f_SiloPath f)) (up_Files pkt) =
     map (\<lambda>(_, f). ([], cf_Path f, cf_SiloPath f)) (cs_Files c) @ map (\<lambda>(_, f). (''tarball'', cf_Path f, cf_SiloPath f)) (cs_FileBalls c)"

lemma map_io_ok:
  "map_io f xs t = (Ok ys, t') \<Longrightarrow> (\<And>x y t t'. f x t = (Ok y, t') \<Longrightarrow> P x y) \<Longrightarrow> list_all2 P xs ys"
proof (induction xs arbitrary: t ys)
  case (Cons x xs)
  then obtain y t1 ys' where "f x t = (Ok y, t1)" "map_io f xs t1 = (Ok ys', t')" "ys = y # ys'" by (auto simp: io_ok)
  with Cons show ?case by auto
qed (auto simp: io_ok)

lemma packUpPacket_packed:
  assumes "packUpPacket h c t = (Ok pkt, t')"
  shows "packed c pkt"
proof -
  let ?f = "\<lambda>ty s f. (f_Type f, f_LocalPath f, f_SiloPath f) = (ty, cf_Path (snd s), cf_SiloPath (snd s))"
  from assms obtain files balls t1 where m:
    "map_io (\<lambda>(_, f). bind_io (wrap_io ''could not read file resource: '' (perform h (Fs (ReadFile (cf_Path f))) (h_str h))) (\<lambda>d.
          ret \<lparr>f_Type = [], f_LocalPath = cf_Path f, f_SiloPath = cf_SiloPath f, f_Data = d\<rparr>)) (cs_Files c) t = (Ok files, t1)"
    "map_io (\<lambda>(_, f). bind_io (wrap_io ''failed to build tarball: '' (perform h (Cli (CmdOutput ''tar'' [''-c'', cf_Path f])) (h_str h))) (\<lambda>d.
          ret \<lparr>f_Type = ''tarball'', f_LocalPath = cf_Path f, f_SiloPath = cf_SiloPath f, f_Data = d\<rparr>)) (cs_FileBalls c) t1 = (Ok balls, t')"
    "pkt = \<lparr>up_SiloConf = Some c, up_Files = files @ balls\<rparr>"
    by (auto simp: packUpPacket_def io_ok)
  have l: "map (\<lambda>f. (f_Type f, f_LocalPath f, f_SiloPath f)) ys = map (\<lambda>(_, f). (ty, cf_Path f, cf_SiloPath f)) xs"
    if "list_all2 (?f ty) xs ys" for ty and xs :: "(string \<times> conf_File) list" and ys
    using that by (induction rule: list_all2_induct) auto
  have a: "list_all2 (?f []) (cs_Files c) files" by (rule map_io_ok [OF m(1)]) (auto simp: io_ok split: prod.splits)
  have b: "list_all2 (?f ''tarball'') (cs_FileBalls c) balls" by (rule map_io_ok [OF m(2)]) (auto simp: io_ok split: prod.splits)
  from m(3) l [OF a] l [OF b] show ?thesis by (simp add: packed_def)
qed

lemma up_one_posts:
  assumes "up_one depth h serv silo t = (Ok row, t')"
  shows "\<exists>pkt. packed silo pkt \<and> posts t' = posts t @ [UpBody pkt] \<and> row \<noteq> [] \<and> hd row = cs_Name silo"
proof -
  from assms obtain pkt t1 crt t2 resp t3 where
    p: "packUpPacket h silo t = (Ok pkt, t1)" "getClientCert depth h t1 = (Ok crt, t2)"
      "http_do h serv crt ''rpc failed: '' (HttpPost (''https://'' @ serv @ ''/up'') (UpBody pkt)) t2 = (Ok resp, t3)"
    and r: "t' = t3 \<and> row \<noteq> [] \<and> hd row = cs_Name silo"
    by (auto simp: up_one_def io_ok lift_result_ok split: if_splits)
  from p packUpPacket_packed [OF p(1)] silentD [OF silent_packUpPacket p(1)] silentD [OF silent_getClientCert p(2)] http_do_posts [OF p(3)] r
  show ?thesis by auto
qed

lemma up_loop_posts:
  "map_io (up_one depth h serv) silos t = (Ok rows, t') \<Longrightarrow>
   \<exists>pkts. list_all2 packed silos pkts \<and> posts t' = posts t @ map UpBody pkts \<and> map hd rows = map cs_Name silos"
proof (induction silos arbitrary: t rows)
  case (Cons s silos)
  then obtain row t1 rows' where r: "up_one depth h serv s t = (Ok row, t1)" "map_io (up_one depth h serv) silos t1 = (Ok rows', t')" "rows = row # rows'"
    by (auto simp: io_ok)
  from up_one_posts [OF r(1)] obtain pkt where p: "packed s pkt" "posts t1 = posts t @ [UpBody pkt]" "hd row = cs_Name s" by blast
  from Cons.IH [OF r(2)] obtain pkts where "list_all2 packed silos pkts" "posts t' = posts t1 @ map UpBody pkts" "map hd rows' = map cs_Name silos" by blast
  with p r(3) show ?case by (intro exI [of _ "pkt # pkts"]) simp
qed (auto simp: io_ok)

lemma down_one_posts:
  assumes "down_one depth h serv silo t = (Ok (), t')"
  shows "posts t' = posts t @ [DownBody \<lparr>dn_SiloName = cs_Name silo, dn_SiloID = []\<rparr>]"
proof -
  from assms obtain crt t2 resp where p: "getClientCert depth h t = (Ok crt, t2)"
      "http_do h serv crt ''rpc failed: '' (HttpPost (''https://'' @ serv @ ''/down'') (DownBody \<lparr>dn_SiloName = cs_Name silo, dn_SiloID = []\<rparr>)) t2 = (Ok resp, t')"
    by (auto simp: down_one_def io_ok)
  from silentD [OF silent_getClientCert p(1)] http_do_posts [OF p(2)] show ?thesis by simp
qed

lemma down_loop_posts:
  "each_io (down_one depth h serv) silos t = (Ok (), t') \<Longrightarrow>
   posts t' = posts t @ map (\<lambda>s. DownBody \<lparr>dn_SiloName = cs_Name s, dn_SiloID = []\<rparr>) silos"
  by (induction silos arbitrary: t) (auto simp: io_ok dest!: down_one_posts)

lemma silent_load [silent_intros]: "silent (load_silos h parse decode args)"
  by (auto simp: load_silos_def arg_io_def LoadSiloFile_def intro!: silent_intros)

text \<open>
  C20. What up and down ask for. If the command for starting silos ends without an error, it has posted exactly
  one packet for each silo of the file, in the order of the file, whatever the daemon answered to each: the
  packet has the silo's description and its files and then its tarballs, by the paths in the file; and the table
  has one row for each, by name. The command for stopping has posted exactly the names.
\<close>

theorem commands_cover_the_silo_file:
  assumes l: "load_silos h parse decode args t = (Ok silos, t1)"
  shows "(upCommand parse decode depth h serv args t = (Ok rows, t') \<longrightarrow>
      (\<exists>pkts. posts t' = posts t @ map UpBody pkts \<and> map hd rows = map cs_Name silos \<and>
        list_all2 (\<lambda>c pkt. up_SiloConf pkt = Some c \<and>
          map (\<lambda>f. (f_Type f, f_LocalPath f, f_SiloPath f)) (up_Files pkt) =
          map (\<lambda>(_, f). ([], cf_Path f, cf_SiloPath f)) (cs_Files c) @ map (\<lambda>(_, f). (''tarball'', cf_Path f, cf_SiloPath f)) (cs_FileBalls c)) silos pkts)) \<and>
    (downCommand parse decode depth h serv args t = (Ok rows, t') \<longrightarrow>
      posts t' = posts t @ map (\<lambda>s. DownBody \<lparr>dn_SiloName = cs_Name s, dn_SiloID = []\<rparr>) silos)"
proof (intro conjI impI)
  note s = silentD [OF silent_load l]
  assume "upCommand parse decode depth h serv args t = (Ok rows, t')"
  with l have "map_io (up_one depth h serv) silos t1 = (Ok rows, t')" by (auto simp: upCommand_def io_ok)
  from up_loop_posts [OF this] s show "\<exists>pkts. posts t' = posts t @ map UpBody pkts \<and> map hd rows = map cs_Name silos \<and>
        list_all2 (\<lambda>c pkt. up_SiloConf pkt = Some c \<and>
          map (\<lambda>f. (f_Type f, f_LocalPath f, f_SiloPath f)) (up_Files pkt) =
          map (\<lambda>(_, f). ([], cf_Path f, cf_SiloPath f)) (cs_Files c) @ map (\<lambda>(_, f). (''tarball'', cf_Path f, cf_SiloPath f)) (cs_FileBalls c)) silos pkts"
    unfolding packed_def by auto
next
  note s = silentD [OF silent_load l]
  assume "downCommand parse decode depth h serv args t = (Ok rows, t')"
  with l have "each_io (down_one depth h serv) silos t1 = (Ok (), t')" by (auto simp: downCommand_def io_ok)
  from down_loop_posts [OF this] s show "posts t' = posts t @ map (\<lambda>s. DownBody \<lparr>dn_SiloName = cs_Name s, dn_SiloID = []\<rparr>) silos" by simp
qed


text \<open>
  Two arguments are asked of set-host, but the command itself counts as one. With the command in front and
  only a host, the client panics; with the command at the end, it asks the daemon to resolve the host to the
  text set-host.
\<close>

theorem set_host_counts_itself:
  assumes "serv \<noteq> []" "go_lookup (commands lib depth h serv) host = None"
  shows "cli_main lib depth h serv [''set-host'', host] t = (Crash ''index out of range'', t) \<and>
    (cli_main lib depth h serv [host, ''set-host''] t = (Ok rows, t') \<longrightarrow>
       posts t' = posts t @ [SetHostBody \<lparr>sh_Host = host, sh_IP = ''set-host''\<rparr>])"
proof -
  let ?c = "\<lparr>minArgs = 2, handler = setHostCommand (lib_url lib) depth h serv\<rparr>"
  have s: "go_lookup (commands lib depth h serv) ''set-host'' = Some ?c" by (simp add: commands_def)
  have "cli_main lib depth h serv [''set-host'', host] t = setHostCommand (lib_url lib) depth h serv [host] t"
    using assms by (simp add: cli_main_def flag_Arg_def s run_command_def nat_add_distrib)
  also have "\<dots> = (Crash ''index out of range'', t)" by (simp add: setHostCommand_def arg_io_def io_defs)
  finally have a: "cli_main lib depth h serv [''set-host'', host] t = (Crash ''index out of range'', t)" .
  have "posts t' = posts t @ [SetHostBody \<lparr>sh_Host = host, sh_IP = ''set-host''\<rparr>]"
    if "cli_main lib depth h serv [host, ''set-host''] t = (Ok rows, t')"
  proof -
    have "setHostCommand (lib_url lib) depth h serv [host, ''set-host''] t = (Ok rows, t')"
      using that assms by (simp add: cli_main_def flag_Arg_def s run_command_def)
    then obtain crt t1 u resp where c: "getClientCert depth h t = (Ok crt, t1)"
      "http_do h serv crt ''set-host failed: '' (HttpPost u (SetHostBody \<lparr>sh_Host = host, sh_IP = ''set-host''\<rparr>)) t1 = (Ok resp, t')"
      by (auto simp: setHostCommand_def arg_io_def io_ok url_io_def split: if_splits option.splits)
    from silentD [OF silent_getClientCert c(1)] http_do_posts [OF c(2)] show ?thesis by simp
  qed
  with a show ?thesis by blast
qed

section \<open>Examples\<close>

definition ex_lib :: "unit library" where
  "ex_lib = \<lparr>lib_parse = (\<lambda>_. Inr ((), True)), lib_decode = (\<lambda>_. Inr \<lparr>Silos =
     [\<lparr>cs_Name = ''web'', cs_Class = [], cs_Tags = [], cs_Base = [],
       cs_Network = \<lparr>n_InternetAccess = False, n_Nameservers = [], n_Hosts = None\<rparr>,
       cs_Binary = \<lparr>b_Path = ''/bin/sh'', b_Env = [], b_Args = []\<rparr>, cs_Resources = \<lparr>r_CPUPercent = 0, r_MaxMemoryBytes = 0\<rparr>,
       cs_Grant = [], cs_Files = [(''a'', \<lparr>cf_Path = ''a.txt'', cf_SiloPath = ''/a.txt''\<rparr>)], cs_FileBalls = [], cs_Binds = []\<rparr>]\<rparr>),
     lib_url = Some, lib_ByteSize = (\<lambda>_. [])\<rparr>"

text \<open>A user whose files all hold the text CERT, which is the certificate of the daemon.\<close>

definition ex_user :: host where
  "ex_user = calm\<lparr>h_str := (\<lambda>_ c. case c of Cli CurrentUser \<Rightarrow> ''/home/u'' | _ \<Rightarrow> ''CERT''), h_dir := (\<lambda>_ _. [(''CERT'', True)]),
     h_resp := (\<lambda>_ _. \<lparr>resp_StatusCode = 200, resp_Status = ''200 OK'', resp_Text = [],
       resp_Up = Inr \<lparr>upr_IDHex = ''01'', upr_Interfaces = []\<rparr>, resp_List = Inl ENOENT, resp_EnableEnroll = Inl ENOENT\<rparr>)\<rparr>"

theorem requests_go_to_trusted_daemons_witness:
  "\<exists>t2 x. snd (http_do ex_user ''h:1'' [] [] (HttpGet ''u'') []) = t2 @ [(Cli (HttpGet ''u''), x)] \<and>
     (Fs (ReadFile ''/home/u/.colex/known_hosts/h-1''), None) \<in> set t2"
proof -
  let ?r = "http_do ex_user ''h:1'' [] [] (HttpGet ''u'') []"
  have c: "list_all plain_comp [''home'', ''u'']" "plain_comp (sanitizeAddress ''h:1'')" by code_simp+
  have home: "h_str ex_user t (Cli CurrentUser) = abs_path [''home'', ''u'']" for t
    by (simp add: ex_user_def abs_path_def)
  have p: "pin_file (abs_path [''home'', ''u'']) ''h:1'' = ''/home/u/.colex/known_hosts/h-1''" by code_simp
  have q: "requests (snd ?r) \<noteq> requests []" by code_simp
  have n: "fst (getPinnedCert ex_user ''h:1'' [(Cli (Handshake ''h:1'' []), None)]) = Ok ''CERT''" by code_simp
  note r = requests_go_to_trusted_daemons [OF c home, of "[]" "[]" "HttpGet ''u''" "[]" "fst ?r" "snd ?r", THEN conjunct1, THEN mp, OF _ q, unfolded Let_def p]
  have "?r = (fst ?r, snd ?r)" by simp
  from r [OF this] obtain t2 x where t2: "snd ?r = t2 @ [(Cli (HttpGet ''u''), x)]"
    "t2 = ([] @ [(Cli (Handshake ''h:1'' []), None)]) @ [(Cli CurrentUser, None), (Fs (Stat ''/home/u/.colex/known_hosts/h-1''), None),
       (Fs (ReadFile ''/home/u/.colex/known_hosts/h-1''), None)] \<or>
     (\<exists>e u. getPinnedCert ex_user ''h:1'' ([] @ [(Cli (Handshake ''h:1'' []), None)]) = (Err e, u))"
    by (elim exE conjE disjE) blast+
  have "\<not> (\<exists>e u. getPinnedCert ex_user ''h:1'' ([] @ [(Cli (Handshake ''h:1'' []), None)]) = (Err e, u))" using n by auto
  with t2 show ?thesis by (intro exI [of _ t2] exI [of _ x]) simp
qed

text \<open>A new user, whose pair is there from the moment both of its files have been written.\<close>

definition ex_written :: "string \<Rightarrow> trace \<Rightarrow> bool" where
  "ex_written f t = list_ex (\<lambda>(c, e). case c of Fs (WriteFile g _ _) \<Rightarrow> g = f \<and> e = None | _ \<Rightarrow> False) t"

definition ex_new_user :: host where
  "ex_new_user = ex_user\<lparr>h_err := (\<lambda>t c. case c of
     Cli (LoadX509KeyPair cf kf) \<Rightarrow> if ex_written cf t \<and> ex_written kf t then None else Some ENOENT | _ \<Rightarrow> None)\<rparr>"

theorem client_certificate_terminates_witness:
  "getClientCert 7 ex_new_user [] = getClientCert 2 ex_new_user [] \<and> fst (getClientCert 7 ex_new_user []) = Ok ''CERT'' \<and>
     \<not> ex_written ''/home/u/.colex/key.pem'' [] \<and> ex_written ''/home/u/.colex/key.pem'' (snd (getClientCert 7 ex_new_user []))"
proof -
  have "ex_written f t" if "(Fs (WriteFile f d m), None) \<in> set t" for f d m t
    unfolding ex_written_def list_ex_iff by (rule bexI [OF _ that]) simp
  then have k: "keeps_pairs ex_new_user" unfolding keeps_pairs_def by (auto simp: ex_new_user_def)
  have h: "h_str ex_new_user t (Cli CurrentUser) = ''/home/u''" for t by (simp add: ex_new_user_def ex_user_def)
  have e: "getClientCert 7 ex_new_user [] = getClientCert 2 ex_new_user []"
    using client_certificate_terminates [OF k h, of 5 "[]"] by (simp add: eval_nat_numeral)
  have "(case getClientCert 2 ex_new_user [] of (r, t) \<Rightarrow> r = Ok ''CERT'' \<and> ex_written ''/home/u/.colex/key.pem'' t)" by code_simp
  then show ?thesis unfolding e by (simp add: case_prod_unfold ex_written_def del: getClientCert.simps)
qed

theorem commands_cover_the_silo_file_witness:
  "\<exists>pkt. posts (snd (upCommand (lib_parse ex_lib) (lib_decode ex_lib) 2 ex_user ''h:1'' [''f.hcl'', ''up''] [])) = [UpBody pkt] \<and>
     map_option cs_Name (up_SiloConf pkt) = Some ''web'' \<and> map f_SiloPath (up_Files pkt) = [''/a.txt'']"
proof -
  let ?r = "upCommand (lib_parse ex_lib) (lib_decode ex_lib) 2 ex_user ''h:1'' [''f.hcl'', ''up''] []"
  let ?l = "load_silos ex_user (lib_parse ex_lib) (lib_decode ex_lib) [''f.hcl'', ''up''] []"
  have "(case fst ?r of Ok _ \<Rightarrow> True | _ \<Rightarrow> False)" by code_simp
  then obtain rows where "fst ?r = Ok rows" by (cases "fst ?r") auto
  then have ok: "?r = (Ok rows, snd ?r)" by (metis prod.collapse)
  have "(case fst ?l of Ok [s] \<Rightarrow> cs_Name s = ''web'' \<and> map (cf_SiloPath \<circ> snd) (cs_Files s) = [''/a.txt''] \<and> cs_FileBalls s = [] | _ \<Rightarrow> False)"
    by code_simp
  then obtain s where s: "fst ?l = Ok [s]" "cs_Name s = ''web''" "map (cf_SiloPath \<circ> snd) (cs_Files s) = [''/a.txt'']" "cs_FileBalls s = []"
    by (auto split: res.splits list.splits)
  then have l: "?l = (Ok [s], snd ?l)" by (metis prod.collapse)
  from commands_cover_the_silo_file [OF l, of 2 "''h:1''" rows "snd ?r"] ok obtain pkts where p: "posts (snd ?r) = posts [] @ map UpBody pkts"
    "list_all2 (\<lambda>c pkt. up_SiloConf pkt = Some c \<and>
          map (\<lambda>f. (f_Type f, f_LocalPath f, f_SiloPath f)) (up_Files pkt) =
          map (\<lambda>(_, f). ([], cf_Path f, cf_SiloPath f)) (cs_Files c) @ map (\<lambda>(_, f). (''tarball'', cf_Path f, cf_SiloPath f)) (cs_FileBalls c)) [s] pkts"
    by blast
  then obtain pkt where k: "pkts = [pkt]" "up_SiloConf pkt = Some s"
    "map (\<lambda>f. (f_Type f, f_LocalPath f, f_SiloPath f)) (up_Files pkt) = map (\<lambda>(_, f). ([], cf_Path f, cf_SiloPath f)) (cs_Files s)"
    using s(4) by (auto simp: list_all2_Cons1)
  have "map f_SiloPath (up_Files pkt) = map (\<lambda>(a, b, c). c) (map (\<lambda>f. (f_Type f, f_LocalPath f, f_SiloPath f)) (up_Files pkt))" by simp
  also have "\<dots> = [''/a.txt'']" unfolding k(3) using s(3) by (simp add: comp_def case_prod_beta)
  finally show ?thesis using p(1) k(1,2) s(2) by auto
qed

theorem set_host_counts_itself_witness:
  "cli_main ex_lib 2 ex_user ''h:1'' [''set-host'', ''db''] [] = (Crash ''index out of range'', [])"
proof -
  have "go_lookup (commands ex_lib 2 ex_user ''h:1'') ''db'' = None" by (simp add: commands_def)
  then show ?thesis using set_host_counts_itself [of "''h:1''" ex_lib 2 ex_user "''db''" "[]"] by simp
qed


subsection \<open>No panics\<close>

lemma no_crash_lift [no_crash_intros]: "no_crash (lift_result r)"
  by (auto simp: no_crash_def lift_result_def io_defs split: sum.splits)

lemma no_crash_if: "no_crash m \<Longrightarrow> no_crash m' \<Longrightarrow> no_crash (if b then m else m')"
  by simp

lemma no_crash_pins: "no_crash (getPinnedCert h a)" "no_crash (pinCertificate h a c)" "no_crash (prompt h msg)"
  by (auto simp: getPinnedCert_def pinCertificate_def prompt_def Let_def intro!: no_crash_intros split: if_splits)

lemma no_crash_verify:
  assumes "raw \<noteq> []"
  shows "no_crash (verifyPeerCertificate h serv raw)"
proof -
  obtain c cs where raw: "raw = c # cs" using assms by (cases raw) auto
  let ?k = "bind_io (prompt h ''Would you like to proceed? [y/N]:'') (\<lambda>answer.
      if ContainsAny answer ''yY'' then (case raw of [] \<Rightarrow> crash ''index out of range'' | c # _ \<Rightarrow> pinCertificate h serv c)
      else fail (ErrNew ''no pinned certificate available''))"
  have k: "no_crash ?k" by (auto simp: raw intro!: no_crash_intros no_crash_pins)
  show ?thesis unfolding no_crash_def
  proof (intro allI)
    fix t x
    obtain r t1 where g: "getPinnedCert h serv t = (r, t1)" by fastforce
    with no_crashD [OF no_crash_pins(1)] have "r \<noteq> Crash y" for y by auto
    then show "fst (verifyPeerCertificate h serv raw t) \<noteq> Crash x"
      using g k by (cases r) (auto simp: verifyPeerCertificate_def no_crash_def ret_def fail_def)
  qed
qed

text \<open>What the client relies on: a home that stays, files that stay, and daemons that show a certificate.\<close>

definition sound_host :: "host \<Rightarrow> bool" where
  "sound_host h \<longleftrightarrow> keeps_pairs h \<and> (\<forall>t t'. h_str h t (Cli CurrentUser) = h_str h t' (Cli CurrentUser)) \<and>
     (\<forall>t serv crt. h_dir h t (Cli (Handshake serv crt)) \<noteq> [])"

lemma no_crash_getClientCert:
  assumes "sound_host h"
  shows "no_crash (getClientCert (Suc (Suc d)) h)"
  unfolding no_crash_def
proof (intro allI)
  fix t x
  have k: "keeps_pairs h" "h_str h u (Cli CurrentUser) = h_str h [] (Cli CurrentUser)" for u using assms unfolding sound_host_def by blast+
  from getClientCert_two_frames [OF k] show "fst (getClientCert (Suc (Suc d)) h t) \<noteq> Crash x" by (metis fst_conv)
qed

lemma no_crash_http_do:
  assumes "sound_host h"
  shows "no_crash (http_do h serv crt fmt c)"
proof -
  let ?m = "\<lambda>raw. then_io (verifyPeerCertificate h serv raw) (perform h (Cli c) (h_resp h))"
  have m: "no_crash (?m raw)" if "raw \<noteq> []" for raw using that by (intro no_crash_intros no_crash_verify)
  have ne: "map fst (h_dir h t (Cli (Handshake serv crt))) \<noteq> []" for t using assms by (simp add: sound_host_def)
  have "no_crash (bind_io (perform h (Cli (Handshake serv crt)) (\<lambda>t c. map fst (h_dir h t c))) ?m)"
    unfolding no_crash_def
  proof (intro allI)
    fix t x
    show "fst (bind_io (perform h (Cli (Handshake serv crt)) (\<lambda>t c. map fst (h_dir h t c))) ?m t) \<noteq> Crash x"
      using m [OF ne, of t] unfolding no_crash_def
      by (cases "h_err h t (Cli (Handshake serv crt))") (simp_all add: bind_io_def perform_def)
  qed
  then show ?thesis unfolding http_do_def by (rule no_crash_intros)
qed

text \<open>The texts that a command hands to \<open>url.Parse\<close>, after the scheme and the address.\<close>

definition url_text :: "string \<Rightarrow> string \<Rightarrow> bool" where
  "url_text cmd s \<longleftrightarrow> cmd = ''enable-enroll'' \<and> s = ''/enable-enroll'' \<or> cmd = ''set-host'' \<and> s = ''/set-host'' \<or>
     cmd = ''enroll'' \<and> (\<exists>key name. s = ''/enroll?key='' @ key @ ''&name='' @ name)"

definition parses :: "(string \<Rightarrow> string option) \<Rightarrow> string \<Rightarrow> string \<Rightarrow> bool" where
  "parses url serv cmd \<longleftrightarrow> (\<forall>s. url_text cmd s \<longrightarrow> url (''https://'' @ serv @ s) \<noteq> None)"

lemma no_crash_commands:
  assumes h: "sound_host h"
  shows "no_crash (listCommand bs (Suc (Suc d)) h serv args)"
    "parses url serv ''enroll'' \<Longrightarrow> no_crash (enrollCommand url (Suc (Suc d)) h serv args)"
    "parses url serv ''enable-enroll'' \<Longrightarrow> no_crash (enableEnrollCommand url (Suc (Suc d)) h serv args)"
    "2 \<le> length args \<Longrightarrow> parses url serv ''set-host'' \<Longrightarrow> no_crash (setHostCommand url (Suc (Suc d)) h serv args)"
    "args \<noteq> [] \<Longrightarrow> no_crash (upCommand parse decode (Suc (Suc d)) h serv args)"
    "args \<noteq> [] \<Longrightarrow> no_crash (downCommand parse decode (Suc (Suc d)) h serv args)"
proof -
  have url: "no_crash (url_io url (''https://'' @ serv @ s))" if p: "parses url serv cmd" "url_text cmd s" for cmd s
  proof -
    have "url (''https://'' @ serv @ s) \<noteq> None" using p unfolding parses_def by blast
    then obtain u where "url (''https://'' @ serv @ s) = Some u" by blast
    then show ?thesis unfolding url_io_def by (simp only: option.case no_crash_intros)
  qed
  have arg: "i < length args \<Longrightarrow> no_crash (arg_io args i)" for i by (simp add: arg_io_def no_crash_intros)
  have load: "args \<noteq> [] \<Longrightarrow> no_crash (load_silos h parse decode args)"
    unfolding load_silos_def LoadSiloFile_def using arg [of 0] by (auto intro!: no_crash_intros)
  have pack: "no_crash (packUpPacket h c)" for c
    unfolding packUpPacket_def by (auto intro!: no_crash_intros split: prod.splits)
  note rules = no_crash_intros arg no_crash_getClientCert [OF h] no_crash_http_do [OF h] no_crash_pins
  show "no_crash (listCommand bs (Suc (Suc d)) h serv args)" unfolding listCommand_def by (auto intro!: rules simp del: getClientCert.simps)
  show "no_crash (enrollCommand url (Suc (Suc d)) h serv args)" if "parses url serv ''enroll''"
    unfolding enrollCommand_def
    by (intro rules url [OF that, unfolded url_text_def] no_crash_if) auto
  show "no_crash (enableEnrollCommand url (Suc (Suc d)) h serv args)" if "parses url serv ''enable-enroll''"
    unfolding enableEnrollCommand_def by (intro rules url [OF that, unfolded url_text_def] no_crash_if) auto
  show "no_crash (setHostCommand url (Suc (Suc d)) h serv args)" if "2 \<le> length args" "parses url serv ''set-host''"
    unfolding setHostCommand_def using that(1)
    by (intro rules url [OF that(2), unfolded url_text_def] no_crash_if) auto
  show "args \<noteq> [] \<Longrightarrow> no_crash (upCommand parse decode (Suc (Suc d)) h serv args)"
    unfolding upCommand_def up_one_def by (auto intro!: rules load pack simp del: getClientCert.simps)
  show "args \<noteq> [] \<Longrightarrow> no_crash (downCommand parse decode (Suc (Suc d)) h serv args)"
    unfolding downCommand_def down_one_def by (auto intro!: rules load simp del: getClientCert.simps)
qed



end
