(* ===== verification/Programs.thy ===== *)
theory Programs
  imports Reexec Leases Client
begin

text \<open>
  The programs: the daemon (\<open>colexd/main.go\<close>), a shell in a silo (\<open>colex-main\<close>) and the small isolated
  environment (\<open>colex-test\<close>), composed of the parts of the other theories. The values of the flags are
  arguments. Leaving with \<open>log.Fatal\<close> or \<open>os.Exit(1)\<close> is an error; returning from \<open>main\<close> after a
  message is not. Log messages are left out.
\<close>

section \<open>The daemon\<close>

text \<open>The configuration without a file: everything not set is Go's zero value.\<close>

definition flag_config :: "string \<Rightarrow> string \<Rightarrow> config" where
  "flag_config addr ipPool =
     \<lparr>c_Name = [], c_Listener = addr, c_AddressPool = ipPool, c_Images = [], c_SiloDir = [], c_Binds = [],
      c_DisableUserNamespaces = False, c_KeySource = KeySourceEphemeralKeys, c_CertPEM = [], c_KeyPEM = [],
      c_Mode = AuthModeOpen, c_BlindEnrollmentWindow = 0, c_CertsFile = [], c_Hostnames = None\<rparr>"

text \<open>Until it listens; what happens until the signal comes is a history of the server.\<close>

definition colexd_start ::
  "host \<Rightarrow> (string \<Rightarrow> string \<Rightarrow> gerr option) \<Rightarrow> (string \<Rightarrow> ('ast \<times> bool) result) \<Rightarrow> ('ast \<Rightarrow> config result) \<Rightarrow>
   string \<Rightarrow> string \<Rightarrow> string list \<Rightarrow> Server io" where
  "colexd_start h keypair parse decode addr ipPool args =
     bind_io (case args of [] \<Rightarrow> ret (flag_config addr ipPool)
              | path # _ \<Rightarrow> loadConfigFile h parse decode addr ipPool path) (\<lambda>conf.
     then_io (validateConfig h keypair conf) (NewServer h keypair conf))"

text \<open>After the signal: the error of closing is only logged.\<close>

definition colexd_stop :: "host \<Rightarrow> unit srv" where
  "colexd_stop h = catch_s (sv_Close h) (\<lambda>_. ret_s ())"

section \<open>A command in a silo\<close>

definition silo_builder :: "string \<Rightarrow> string list \<Rightarrow> Options" where
  "silo_builder cmd args =
     AddFS (BusyboxBase [])
       \<lparr>o_Class = ''test'', o_Tags = [], o_Grant = [], o_Bases = [], o_Root = [], o_MakeFromFolder = [], o_accountMappers = [],
        o_DisableAcctNamespace = False, o_Hostname = [], o_Interfaces = [], o_Nameservers = [], o_HostMap = None,
        o_CPUSharePercent = 0, o_MaxMemoryBytes = 0, o_Cmd = cmd, o_Args = args, o_Env = []\<rparr>"

text \<open>
  From \<open>Init\<close> on. A failed \<open>Start\<close> is logged and the program goes on to wait; \<open>Close\<close> is deferred, so it
  runs at the end, also after a panic in \<open>Wait\<close>, and its error is dropped.
\<close>

definition run_silo :: "host \<Rightarrow> Silo \<Rightarrow> IPPool \<Rightarrow> trace \<Rightarrow> unit res \<times> Silo \<times> IPPool \<times> trace" where
  "run_silo h s0 pool t =
     (case Init h s0 t of
        (Err e, s1, t1) \<Rightarrow> (Err (ErrWrap ''silo.Init() failed: '' e), s1, pool, t1)
      | (Crash x, s1, t1) \<Rightarrow> (Crash x, s1, pool, t1)
      | (Ok _, s1, t1) \<Rightarrow>
        (case Start h s1 t1 of
           (Crash x, s2, t2) \<Rightarrow> (Crash x, s2, pool, t2)
         | (_, s2, t2) \<Rightarrow>
           (let (r3, s3, t3) = Wait h s2 t2; (r4, s4, pool', t4) = Close h s3 pool t3 in
            (case (r3, r4) of
               (Crash x, _) \<Rightarrow> Crash x
             | (_, Crash x) \<Rightarrow> Crash x
             | _ \<Rightarrow> Ok (), s4, pool', t4))))"

definition forwarding :: "host \<Rightarrow> unit io" where
  "forwarding h =
     bind_io (IPv4ForwardingEnabled h) (\<lambda>enabled. if \<not> enabled then IPv4EnableForwarding h True else ret ())"

definition colex_main :: "host \<Rightarrow> string \<Rightarrow> string \<Rightarrow> bool \<Rightarrow> string list \<Rightarrow> unit io" where
  "colex_main h cmdFlag ipNetFlag internetAccess args =
     then_io (if internetAccess then forwarding h else ret ())
    (bind_io (lift_result (NewIPPool ipNetFlag)) (\<lambda>pool0.
       case pool_IPInterface pool0 of
         (Inl e, _) \<Rightarrow> fail e
       | (Inr network0, pool) \<Rightarrow>
         (let network = network0\<lparr>InternetAccess := internetAccess\<rparr>;
              builder = (silo_builder cmdFlag args)\<lparr>o_Interfaces := [IPInterf network, LoopbackInterface]\<rparr> in
          bind_io (NewSilo h ''test'' (Finalize h builder)) (\<lambda>s t.
            let (r, _, _, t') = run_silo h s pool t in (r, t')))))"

section \<open>The isolated environment\<close>

text \<open>\<open>isolatedMain\<close> of \<open>colex-test\<close>, with its four arguments.\<close>

definition test_isolatedMain :: "host \<Rightarrow> string \<Rightarrow> string \<Rightarrow> string \<Rightarrow> string \<Rightarrow> unit io" where
  "test_isolatedMain h root cmd env hostname =
     then_io (MountProc h (path_Join [root, ''proc'']))
    (then_io (SetRootFS h root)
    (then_io (do_call h (Fs (Sethostname hostname)))
             (do_call h (Proc (RunEnv cmd [] (Split env (CHR '','')))))))"

definition makeBaselineEnv :: "host \<Rightarrow> string io" where
  "makeBaselineEnv h =
     bind_io (perform h (Fs (TempDir [] ''colex_exec_root'')) (h_str h)) (\<lambda>dir.
       catch_io (then_io (do_call h (Proc (RunCmd ''tar'' [''-C'', dir, ''-xf'', ''busybox.tar''] []))) (ret dir))
         (\<lambda>e. then_io (ignore_io (do_call h (Fs (RemoveAll dir)))) (fail e)))"

text \<open>\<open>filepath.Abs\<close>\<close>

definition path_Abs :: "host \<Rightarrow> string \<Rightarrow> string io" where
  "path_Abs h p =
     (if p \<noteq> [] \<and> hd p = slash then ret (Clean p)
      else bind_io (perform h (Fs Getwd) (h_str h)) (\<lambda>wd. ret (path_Join [wd, p])))"

record test_flags =
  cmdFlag :: string
  envListFlag :: string
  hostnameFlag :: string
  rootFSFlag :: string
  makeBaselineFlag :: bool
  enableNet :: bool
  tf_bridgeName :: string
  vethName :: string
  bridgeAddr :: string
  siloAddr :: string

text \<open>A step that prints its error and returns from \<open>main\<close>.\<close>

definition or_return :: "'a io \<Rightarrow> ('a \<Rightarrow> unit io) \<Rightarrow> unit io" where
  "or_return m f t =
     (case m t of
        (Ok x, t') \<Rightarrow> f x t'
      | (Err e, t') \<Rightarrow> (Ok (), t')
      | (Crash x, t') \<Rightarrow> (Crash x, t'))"

text \<open>
  The network of the child and what comes after it. The netlink is closed when it has been configured, and
  by its \<open>defer\<close> when that failed; the \<open>defer\<close> after a first \<open>Close\<close> does nothing. The bridge is deleted at
  the end of \<open>main\<close>.
\<close>

definition with_netlink :: "host \<Rightarrow> test_flags \<Rightarrow> string \<Rightarrow> ip \<Rightarrow> IPNet \<Rightarrow> NamespaceNetlink \<Rightarrow> unit io \<Rightarrow> unit io" where
  "with_netlink h f sveth siloIP siloSubnet n k t =
     (case then_io (LinkAddAddress h n sveth siloIP (net_Mask siloSubnet)) (LinkSetState h n sveth True) t of
        (Ok _, t1) \<Rightarrow> then_io (ignore_io (netlink_Close h n)) k t1
      | (Err e, t1) \<Rightarrow> (Ok (), snd (ignore_io (netlink_Close h n) t1))
      | (Crash x, t1) \<Rightarrow> (Crash x, snd (ignore_io (netlink_Close h n) t1)))"

definition with_network ::
  "host \<Rightarrow> test_flags \<Rightarrow> ip \<times> IPNet \<Rightarrow> ip \<times> IPNet \<Rightarrow> int \<Rightarrow> unit io \<Rightarrow> unit io" where
  "with_network h f bridge_net silo_net pid k =
     or_return (CreateNetBridge h (tf_bridgeName f) (fst bridge_net) (net_Mask (snd bridge_net))) (\<lambda>bridge.
       defer_io (DeleteNetBridge h (tf_bridgeName f))
         (or_return (CreateVethPair h (vethName f)) (\<lambda>(hveth, sveth).
          or_return (AttachNetBridge h bridge hveth) (\<lambda>_.
          or_return (MoveVethToNamespace h sveth pid) (\<lambda>_.
          or_return (NamespaceNetOpen h pid) (\<lambda>n.
            with_netlink h f sveth (fst silo_net) (snd silo_net) n k))))))"

definition test_namespaces :: "64 word" where
  "test_namespaces =
     or NamespaceUser (or NamespaceDomains (or NamespaceIPC (or NamespaceProcess (or NamespaceFS NamespaceNet))))"

text \<open>The child, with the mappings of its user and group.\<close>

definition test_cmd :: "host \<Rightarrow> string \<Rightarrow> Cmd" where
  "test_cmd h root =
     \<lparr>cmd_Root = root, Cloneflags = test_namespaces, UidMappings = [MapUser (h_int h [] (Proc Getuid)) 0],
      GidMappings = [MapGroup (h_int h [] (Proc Getgid)) 0], Process = None, ProcessState = None\<rparr>"

definition cleanup :: "host \<Rightarrow> test_flags \<Rightarrow> string \<Rightarrow> unit io" where
  "cleanup h f root = (if makeBaselineFlag f then do_call h (Fs (RemoveAll root)) else ret ())"

definition test_main :: "host \<Rightarrow> test_flags \<Rightarrow> unit io" where
  "test_main h f =
     bind_io (wrap_io ''Failed parsing bridge address: '' (lift_result (ParseCIDR (bridgeAddr f)))) (\<lambda>bridge_net.
     bind_io (wrap_io ''Failed parsing silo address: '' (lift_result (ParseCIDR (siloAddr f)))) (\<lambda>silo_net.
     bind_io (wrap_io ''pre-flight root FS setup failed: '' (if makeBaselineFlag f then makeBaselineEnv h else path_Abs h (rootFSFlag f))) (\<lambda>root.
       let cmd = test_cmd h root in
       defer_io (cleanup h f root)
         (or_return (perform h (Proc (StartChild ''isolatedMain'' [root, cmdFlag f, envListFlag f, hostnameFlag f] (unat (Cloneflags cmd)))) (h_int h))
            (\<lambda>pid.
              let wait = ignore_io (do_call h (Proc (WaitChild pid))) in
              if enableNet f then with_network h f bridge_net silo_net pid wait else wait)))))"


section \<open>Closing the daemon\<close>

lemma Close_ok_finished:
  assumes "Close h s p t = (Ok (), s', p', t')" "stored_ok n s"
  shows "s_State s' = StateFinished" "pool_free p' = pool_free p @ running_owes s"
proof -
  from assms(2) obtain cmd pid where c: "s_child s = Some cmd" "Process cmd = Some pid" "s_State s \<in> {StateRunning, StateFinished}"
    by (auto simp: stored_ok_def)
  show "s_State s' = StateFinished"
    using assms(1) c by (auto simp: Close_def Let_def split: prod.splits res.splits)
  show "pool_free p' = pool_free p @ running_owes s"
  proof (cases "s_State s = StateRunning")
    case True
    then have "s' \<noteq> s" using \<open>s_State s' = StateFinished\<close> by auto
    with Close_cases [OF assms(1)] True show ?thesis by (auto simp: running_owes_def FreeAssignment_def)
  next
    case False
    with assms(1) c show ?thesis by (auto simp: Close_def running_owes_def Let_def split: prod.splits)
  qed
qed

lemma stop_first:
  assumes inv: "sv_inv p0 k [] sv" and r: "stopSiloInternal h n sv t = (Ok (), sv', t')" and m: "sv_silos sv = (n, p) # m"
  shows "sv_silos sv' = m" "\<exists>s'. sv_heap sv' = (sv_heap sv)[p := s'] \<and> s_State s' = StateFinished" "p < length (sv_heap sv)" "p \<notin> snd ` set m"
    "pool_free (sv_ipPool sv') @ owed sv' = pool_free (sv_ipPool sv) @ owed sv"
proof -
  have t: "table_ok sv" using inv by (simp add: sv_inv_def)
  have l: "go_lookup (sv_silos sv) n = Some p" by (simp add: m)
  have d: "n \<notin> fst ` set m" "p \<notin> snd ` set m" using t by (auto simp: table_ok_def m wf_map_def)
  note len = table_lookup(2) [OF t l] and st = table_lookup(3) [OF t l]
  obtain md t1 where e: "HostEvent h \<lparr>ev_event = eventSiloStopped, ev_Name = n, ev_ID = s_IDHex (sv_heap sv ! p), ev_tags = [],
      ev_interfaces = [], ev_silo = p\<rparr> (sv_meta sv) t = (md, t1)" by fastforce
  obtain r1 s' pool t2 where c: "Close h (sv_heap sv ! p) (sv_ipPool sv) t1 = (r1, s', pool, t2)"
    by (cases "Close h (sv_heap sv ! p) (sv_ipPool sv) t1")
  from r l e c have r1: "r1 = Ok ()" and sv': "sv' = sv\<lparr>sv_meta := md, sv_heap := (sv_heap sv)[p := s'], sv_ipPool := pool, sv_silos := go_delete n (sv_silos sv)\<rparr>"
    by (cases r1; auto simp: stopSiloInternal_def)+
  note f = Close_ok_finished [OF c [unfolded r1] st]
  show m': "sv_silos sv' = m" using delete_split [of n "[]" m p] d(1) by (simp add: sv' m)
  show "\<exists>s'. sv_heap sv' = (sv_heap sv)[p := s'] \<and> s_State s' = StateFinished" using f(1) by (auto simp: sv')
  show "p < length (sv_heap sv)" "p \<notin> snd ` set m" by (rule len, rule d(2))
  have "owed sv' = entries_owe (sv_heap sv) m" unfolding owed_entries m' using entries_owe_update [OF d(2)] by (simp add: sv')
  then show "pool_free (sv_ipPool sv') @ owed sv' = pool_free (sv_ipPool sv) @ owed sv"
    by (simp add: owed_entries m sv' f(2))
qed

lemma stop_all_ok:
  assumes "stop_all h (map fst m) sv t = (Ok (), sv', t')" "sv_inv p0 k [] sv" "sv_silos sv = m"
  shows "sv_silos sv' = [] \<and> pool_free (sv_ipPool sv') = pool_free (sv_ipPool sv) @ owed sv \<and>
    (\<forall>q. q \<notin> snd ` set m \<longrightarrow> sv_heap sv' ! q = sv_heap sv ! q) \<and> (\<forall>q \<in> snd ` set m. s_State (sv_heap sv' ! q) = StateFinished)"
  using assms
proof (induction m arbitrary: sv t)
  case Nil
  then show ?case by (auto simp: ret_s_def owed_def)
next
  case (Cons e m)
  obtain n p where e: "e = (n, p)" by fastforce
  from Cons.prems(1) obtain sv1 t1 where s: "stopSiloInternal h n sv t = (Ok (), sv1, t1)" "stop_all h (map fst m) sv1 t1 = (Ok (), sv', t')"
    by (auto simp: e bind_s_def split: prod.splits res.splits)
  note f = stop_first [OF Cons.prems(2) s(1) Cons.prems(3) [unfolded e]]
  have "sv_inv p0 k [] sv1" using stop_inv [OF Cons.prems(2) s(1)] by blast
  from Cons.IH [OF s(2) this f(1)] f(2-5) show ?case by (fastforce simp: e)
qed

lemma stop_all_meta: "stop_all h ns sv t = (r, sv', t') \<Longrightarrow> md_isClosing (sv_meta sv) \<Longrightarrow> sv_meta sv' = sv_meta sv"
proof (induction ns arbitrary: sv t)
  case (Cons n ns)
  obtain r1 sv1 t1 where s: "stopSiloInternal h n sv t = (r1, sv1, t1)" by (cases "stopSiloInternal h n sv t")
  have "sv_meta sv1 = sv_meta sv" using stop_cases [OF s] Cons.prems(2) by auto
  with Cons s show ?case by (cases r1) (auto simp: bind_s_def)
qed (simp add: ret_s_def)

text \<open>
  C7. A daemon that has been closed leaves nothing behind. If \<open>Close\<close> of a reachable server returns without
  an error, the table is empty; every silo that was in it has ended; and the addresses of exactly the silos that
  were running are back in the pool, after those that were free before, in the order of the table.
\<close>

theorem close_stops_everything:
  assumes "length q = 4" "n \<le> 32" "c_AddressPool c = cidr_string q n" "NewServer h keypair c t0 = (Ok sv0, t1)"
    and "sv_run h sv0 t1 k sv t" "4 * k \<le> 2 ^ 127" and r: "sv_Close h sv t = (Ok (), sv', t')"
  shows "sv_silos sv' = [] \<and> md_isClosing (sv_meta sv') \<and> pool_free (sv_ipPool sv') = pool_free (sv_ipPool sv) @ owed sv \<and>
    (\<forall>name p. go_lookup (sv_silos sv) name = Some p \<longrightarrow> s_State (sv_heap sv' ! p) = StateFinished)"
proof -
  note ok = history_ok(2) [OF assms(1-6)]
  obtain r1 md u where md: "md_Close h (sv_meta sv) t = (r1, md, u)" by (cases "md_Close h (sv_meta sv) t")
  let ?sv = "sv\<lparr>sv_meta := md, sv_closing := True, sv_collecting := False\<rparr>"
  from keeps_okD [OF keeps_ok_md_Close ok, of h t r1 "sv\<lparr>sv_meta := md\<rparr>" u] md
  have "sv_ok (sv_ipPool sv0) (4 * k) (sv\<lparr>sv_meta := md\<rparr>)" by simp
  then have "sv_ok (sv_ipPool sv0) (4 * k) ?sv" by (rule sv_ok_other) simp_all
  then obtain j where inv: "sv_inv (sv_ipPool sv0) j [] ?sv" by (auto simp: sv_ok_def)
  from r md obtain sv2 t2 where s: "stop_all h (map fst (sv_silos sv)) ?sv u = (Ok (), sv2, t2)" "sv' = sv2"
    by (auto simp: sv_Close_def srv_ok split: if_splits)
  have owed: "owed ?sv = owed sv" by (simp add: owed_def)
  have "md_isClosing (sv_meta sv')"
    using stop_all_meta [OF s(1)] md by (auto simp: s(2) md_Close_def split: if_splits)
  from stop_all_ok [OF s(1) inv] s(2) owed this show ?thesis by (auto dest!: map_of_SomeD)
qed

text \<open>The example of a daemon with one silo, closed.\<close>

definition ex_closed :: "unit res \<times> Server \<times> trace" where
  "ex_closed = sv_Close ex_sv_host ex_sv (snd (snd ex_upped))"

theorem close_stops_everything_witness:
  "fst ex_closed = Ok () \<and> sv_silos (fst (snd ex_closed)) = [] \<and> s_State (sv_heap (fst (snd ex_closed)) ! 0) = StateFinished"
proof -
  have "(case ex_upped of (_, sv, t) \<Rightarrow> fst (sv_Close ex_sv_host sv t)) = Ok ()" by code_simp
  then have ok: "fst ex_closed = Ok ()" by (simp add: ex_closed_def case_prod_unfold)
  then have "sv_Close ex_sv_host ex_sv (snd (snd ex_upped)) = (Ok (), fst (snd ex_closed), snd (snd ex_closed))"
    by (metis ex_closed_def prod.collapse)
  from close_stops_everything [OF ex_cidr ex_new_ok ex_run _ this] have
    "sv_silos (fst (snd ex_closed)) = []" "go_lookup (sv_silos ex_sv) ''web'' = Some 0 \<Longrightarrow> s_State (sv_heap (fst (snd ex_closed)) ! 0) = StateFinished"
    by auto
  with ok show ?thesis by (simp add: ex_facts)
qed


section \<open>From the client to the silo\<close>

lemma resolveFiles_bases:
  "o_Bases (resolveFiles fs b) = o_Bases b @ map (\<lambda>f. if f_Type f = ''tarball'' then FileLoaderTarballBase (f_SiloPath f) (f_Data f)
     else FileLoaderBase (f_SiloPath f) (f_Data f)) fs"
  by (induction fs b rule: resolveFiles.induct) (simp_all add: AddFS_def)

text \<open>
  C19. The files of a silo get where the silo file says. From the packet that the client packs, the daemon
  builds, after the bases it has, one file loader for each file and then one tarball loader for each
  tarball, in the order of the silo file: each writes to the path in the silo that the file asks for, and what
  the client read from the path on its side.
\<close>

theorem packed_files_reach_the_silo:
  assumes "packUpPacket h c t = (Ok pkt, t')"
  shows "\<exists>fs bs. o_Bases (resolveFiles (up_Files pkt) b) = o_Bases b @ fs @ bs \<and>
    list_all2 (\<lambda>(_, f) l. \<exists>u. l = FileLoaderBase (cf_SiloPath f) (h_str h u (Fs (ReadFile (cf_Path f)))) \<and>
      h_err h u (Fs (ReadFile (cf_Path f))) = None) (cs_Files c) fs \<and>
    list_all2 (\<lambda>(_, f) l. \<exists>u. l = FileLoaderTarballBase (cf_SiloPath f) (h_str h u (Cli (CmdOutput ''tar'' [''-c'', cf_Path f]))) \<and>
      h_err h u (Cli (CmdOutput ''tar'' [''-c'', cf_Path f])) = None) (cs_FileBalls c) bs"
proof -
  let ?load = "\<lambda>f. if f_Type f = ''tarball'' then FileLoaderTarballBase (f_SiloPath f) (f_Data f) else FileLoaderBase (f_SiloPath f) (f_Data f)"
  from assms obtain files balls t1 where m:
    "map_io (\<lambda>(_, f). bind_io (wrap_io ''could not read file resource: '' (perform h (Fs (ReadFile (cf_Path f))) (h_str h))) (\<lambda>d.
          ret \<lparr>f_Type = [], f_LocalPath = cf_Path f, f_SiloPath = cf_SiloPath f, f_Data = d\<rparr>)) (cs_Files c) t = (Ok files, t1)"
    "map_io (\<lambda>(_, f). bind_io (wrap_io ''failed to build tarball: '' (perform h (Cli (CmdOutput ''tar'' [''-c'', cf_Path f])) (h_str h))) (\<lambda>d.
          ret \<lparr>f_Type = ''tarball'', f_LocalPath = cf_Path f, f_SiloPath = cf_SiloPath f, f_Data = d\<rparr>)) (cs_FileBalls c) t1 = (Ok balls, t')"
    "pkt = \<lparr>up_SiloConf = Some c, up_Files = files @ balls\<rparr>"
    by (auto simp: packUpPacket_def io_ok)
  have "list_all2 (\<lambda>(_, f) w. \<exists>u. ?load w = FileLoaderBase (cf_SiloPath f) (h_str h u (Fs (ReadFile (cf_Path f)))) \<and>
      h_err h u (Fs (ReadFile (cf_Path f))) = None) (cs_Files c) files"
    by (rule map_io_ok [OF m(1)]) (auto simp: io_ok split: prod.splits)
  moreover have "list_all2 (\<lambda>(_, f) w. \<exists>u. ?load w = FileLoaderTarballBase (cf_SiloPath f) (h_str h u (Cli (CmdOutput ''tar'' [''-c'', cf_Path f]))) \<and>
      h_err h u (Cli (CmdOutput ''tar'' [''-c'', cf_Path f])) = None) (cs_FileBalls c) balls"
    by (rule map_io_ok [OF m(2)]) (auto simp: io_ok split: prod.splits)
  ultimately show ?thesis
    by (intro exI [of _ "map ?load files"] exI [of _ "map ?load balls"])
       (simp add: resolveFiles_bases m(3) list_all2_map2 case_prod_unfold)
qed

theorem packed_files_reach_the_silo_witness:
  "\<exists>fs bs pkt. fst (packUpPacket ex_user ((ex_spec ''web'')\<lparr>cs_Files := [(''a'', \<lparr>cf_Path = ''a.txt'', cf_SiloPath = ''/a''\<rparr>)]\<rparr>) []) = Ok pkt \<and>
     o_Bases (resolveFiles (up_Files pkt) (silo_builder [] [])) = BusyboxBase [] # fs @ bs \<and> length fs = 1 \<and> bs = []"
proof -
  let ?c = "(ex_spec ''web'')\<lparr>cs_Files := [(''a'', \<lparr>cf_Path = ''a.txt'', cf_SiloPath = ''/a''\<rparr>)]\<rparr>"
  let ?r = "packUpPacket ex_user ?c []"
  have "(case fst ?r of Ok _ \<Rightarrow> True | _ \<Rightarrow> False)" by code_simp
  then obtain pkt where p: "fst ?r = Ok pkt" by (cases "fst ?r") auto
  then have r: "?r = (Ok pkt, snd ?r)" by (metis prod.collapse)
  have c: "cs_Files ?c = [(''a'', \<lparr>cf_Path = ''a.txt'', cf_SiloPath = ''/a''\<rparr>)]" "cs_FileBalls ?c = []" by (simp_all add: ex_spec_def)
  from packed_files_reach_the_silo [OF r, of "silo_builder [] []", unfolded c] obtain fs bs where
    "o_Bases (resolveFiles (up_Files pkt) (silo_builder [] [])) = o_Bases (silo_builder [] []) @ fs @ bs" "length fs = 1" "bs = []"
    by (auto dest: list_all2_lengthD)
  with p show ?thesis by (intro exI [of _ fs] exI [of _ bs] exI [of _ pkt]) (simp add: silo_builder_def AddFS_def)
qed

section \<open>The isolated environment\<close>

text \<open>
  C36. The small program isolates as well. In every run of its child the command is run only after the process has
  pivoted to the root it was given, has made it its working directory and has unmounted the old root.
\<close>

theorem test_command_confined: "runs_confined root (snd (test_isolatedMain h root cmd env hostname []))"
proof -
  have "keeps (safe_in root) (then_io (do_call h (Fs (Sethostname hostname))) (do_call h (Proc (RunEnv cmd [] (Split env (CHR '',''))))))"
    by (intro keeps_then keeps_do_call safe_in_snoc) auto
  then have "keeps (runs_confined root) (test_isolatedMain h root cmd env hostname)"
    unfolding test_isolatedMain_def by (intro keeps_then [OF MountProc_keeps] SetRootFS_then)
  moreover have "runs_confined root []" by (simp add: runs_confined_def)
  ultimately show ?thesis unfolding keeps_def by blast
qed


lemma defer_last:
  assumes "defer_io (do_call h c) m t = (r, t')"
  shows "\<exists>t1 e. m t = (r, t1) \<and> t' = t1 @ [(c, e)]"
proof -
  obtain r1 t1 where m: "m t = (r1, t1)" by fastforce
  have "ignore_io (do_call h c) t1 = (Ok (), t1 @ [(c, h_err h t1 c)])" by (rule ignore_call)
  with assms m show ?thesis by (auto simp: defer_io_def)
qed

text \<open>
  The small program cleans up. However its main function returns, once a temporary root has been
  made, removing that root is the last thing done; and once the bridge has been made the function that uses it
  ends by deleting it, whether the steps in between failed or not.
\<close>

theorem test_program_cleans_up:
  "(makeBaselineFlag f \<longrightarrow> ParseCIDR (bridgeAddr f) = Inr bn \<longrightarrow> ParseCIDR (siloAddr f) = Inr sn \<longrightarrow>
      makeBaselineEnv h t = (Ok root, t1) \<longrightarrow> test_main h f t = (r, t') \<longrightarrow> (\<exists>u e. t' = u @ [(Fs (RemoveAll root), e)])) \<and>
    (CreateNetBridge h (tf_bridgeName f) (fst bn) (net_Mask (snd bn)) t2 = (Ok b, t3) \<longrightarrow>
      with_network h f bn sn pid k t2 = (r2, t4) \<longrightarrow> (\<exists>u e. t4 = u @ [(Net (LinkDel (tf_bridgeName f)), e)]))"
proof (intro conjI impI)
  assume a: "makeBaselineFlag f" "ParseCIDR (bridgeAddr f) = Inr bn" "ParseCIDR (siloAddr f) = Inr sn"
    "makeBaselineEnv h t = (Ok root, t1)" "test_main h f t = (r, t')"
  have l: "lift_result (Inr x) u = (Ok x, u)" for x :: "ip \<times> IPNet" and u by (simp add: lift_result_def ret_def)
  let ?body = "\<lambda>u. or_return (perform h (Proc (StartChild ''isolatedMain'' [root, cmdFlag f, envListFlag f, hostnameFlag f] (unat (Cloneflags (test_cmd h root))))) (h_int h))
      (\<lambda>pid. if enableNet f then with_network h f bn sn pid (ignore_io (do_call h (Proc (WaitChild pid)))) else ignore_io (do_call h (Proc (WaitChild pid)))) u"
  from a have "defer_io (do_call h (Fs (RemoveAll root))) ?body t1 = (r, t')"
    by (simp add: test_main_def bind_io_def wrap_io_def catch_io_def l cleanup_def Let_def)
  from defer_last [OF this] show "\<exists>u e. t' = u @ [(Fs (RemoveAll root), e)]" by blast
next
  assume "CreateNetBridge h (tf_bridgeName f) (fst bn) (net_Mask (snd bn)) t2 = (Ok b, t3)" "with_network h f bn sn pid k t2 = (r2, t4)"
  then show "\<exists>u e. t4 = u @ [(Net (LinkDel (tf_bridgeName f)), e)]"
    unfolding with_network_def or_return_def [of "CreateNetBridge h (tf_bridgeName f) (fst bn) (net_Mask (snd bn))"] DeleteNetBridge_def
    by (auto dest!: defer_last)
qed

end
