(* ===== verification/Spec2Isabelle.thy ===== *)
theory Spec2Isabelle
  imports Programs
begin

text \<open>
  colex: isolated environments (silos) on one machine, a daemon that runs them on request, and a client.

  \<^bold>\<open>The program.\<close> The library in \<open>src/*.go\<close> wraps what the kernel offers: namespaces, mounts, network
  devices, control groups. The package \<open>controller\<close> builds silos from it. A \<open>Silo\<close> is made from options,
  gets a root directory filled by its filesystem providers, is started as a child process in namespaces of
  its own, connected by a pair of virtual devices to a bridge, limited by control groups, and closed again.
  The child runs the same binary: \<open>isolatedMain\<close> reads the invocation file the parent wrote, changes its
  root, and runs the command. Addresses of bridges and silos come from an \<open>IPPool\<close>. The daemon
  \<open>colexd\<close> keeps a table of silos, starts and stops them at the request of clients it authorises by their
  certificates, awaits them in goroutines and collects those that ended; it also serves the silos themselves
  with names (DNS) and metadata (HTTP). \<open>colex-cli\<close> reads a silo file, checks the daemon's certificate
  against the one pinned for it, and sends packets. \<open>colex-main\<close> and \<open>colex-test\<close> are small programs that
  run one command in isolation.

  \<^bold>\<open>How it is modelled.\<close> A method is a function of its receiver, its arguments and the trace of host calls
  made so far, and returns a result, the new receiver and the extended trace. A result is \<open>Ok\<close>, \<open>Err\<close> with
  Go's error, or \<open>Crash\<close> for a panic or an exit. The host (\<open>Host\<close>) is an arbitrary function of the trace:
  every call may fail, and answers may change from one call to the next. So a theorem about a program holds
  for every behaviour of the kernel, of the files and of the clock. Where the program shares objects by
  pointers (the daemon, its goroutines and the metadata service share silos) there is a store, \<open>sv_heap\<close>,
  and a pointer is an index into it. A handler of the daemon holds the server's lock, so it is one step;
  the goroutines step between handlers, in any order (\<open>sv_run\<close>, \<open>turn\<close>). Machine integers have their
  width (64-bit words for statistics and flags) or are integers with the range written out. Go strings are
  byte strings. Go maps are association lists in the order a \<open>range\<close> loop visits them; theorems hold for
  every such order.

  \<^bold>\<open>Theories\<close>, each after the ones it uses, with the code it models:

  \<^item> \<open>Prelude\<close>: errors and results, \<open>strings\<close>, \<open>strconv\<close>, Go maps with the locale \<open>go_map\<close>, the lemma
    collections. \<open>GoNet\<close>, \<open>GoPath\<close>, \<open>Json\<close>: what colex uses of \<open>net\<close>, \<open>path/filepath\<close>,
    \<open>encoding/json\<close> and \<open>encoding/base64\<close>. \<open>Host\<close>: the calls, traces, and Go's control flow over them.
  \<^item> \<open>IPPool\<close>: \<open>controller/ipPool.go\<close> (\<open>NewIPPool\<close>, \<open>Assignment\<close>, \<open>FreeAssignment\<close>, \<open>getNextFromPool\<close>,
    \<open>pool_IPInterface\<close>). The byte-wise increment is addition; the pool refines a counter with a free list;
    through the locale \<open>address_allocator\<close>, no address is in use twice; the bridge and the silo of an interface share a /30 network with no other.
  \<^item> \<open>Namespaces\<close> (\<open>fs.go\<close>, \<open>process.go\<close>, \<open>user.go\<close>, \<open>ipc.go\<close>, \<open>uts.go\<close>, \<open>net.go\<close>, \<open>net_namespace.go\<close> and the
    \<open>netns\<close> execer it calls), \<open>CGroups\<close> (\<open>cgroups.go\<close>), \<open>Util\<close> (\<open>util\<close>), \<open>Bases\<close> (\<open>controller/bases.go\<close>),
    \<open>Interfaces\<close> (\<open>controller/interfaces.go\<close>, locale \<open>interface_contract\<close>). The exact calls of each
    operation and their order; the thread returns to the host's network namespace or panics; nothing is written
    outside the root of the silo if no path asked for has a \<open>..\<close>; limits are in place before the process is
    confined by them; names of devices differ for different silo identifiers.
  \<^item> \<open>Silo\<close>: \<open>controller/controller.go\<close>, \<open>controller/options.go\<close>. The life cycle as a step relation
    (\<open>silo_reach\<close>); addresses go back to the pool at most once; what \<open>Init\<close> leaves for the child; quotas and
    memory statistics.
  \<^item> \<open>Reexec\<close>: \<open>controller/reexec.go\<close>. The invocation file reads back as written; the child runs exactly what
    the silo asked for; no command runs before the host's filesystem is out of reach.
  \<^item> \<open>Wire\<close> (\<open>colexd/wire\<close>, \<open>siloconf/silo.go\<close>), \<open>SiloConf\<close> (\<open>siloconf\<close>), \<open>Config\<close> (\<open>colexd/config.go\<close>),
    \<open>Cert\<close> (\<open>colexd/cert\<close>), \<open>Auth\<close> (\<open>colexd/auth.go\<close>): what a configuration file becomes and when it validates,
    who is let through (by a specification of the file of keys), and what one enrolment adds.
  \<^item> \<open>Metadata\<close>: \<open>colexd/metadata_service.go\<close>, locale \<open>directory\<close>. DNS answers agree with a specification;
    who may read what over HTTP.
  \<^item> \<open>Server\<close>: \<open>colexd/serv.go\<close>, operations only. \<open>Daemon\<close>: the invariant of its state, by a small logic of
    specifications for programs over a server, and its histories \<open>sv_run\<close>. \<open>Requests\<close>: what one request
    does and what it leaves alone, and enrolment. \<open>Collector\<close>: silos that end are collected. \<open>Leases\<close>: every
    step of the daemon is one of an abstract registry of leases, by a simulation.
  \<^item> \<open>Client\<close>: \<open>colexd/colex-cli\<close>. Requests go only to daemons whose certificate is trusted; each command
    covers the silo file; minting the user's certificate terminates; when the client panics.
  \<^item> \<open>Programs\<close>: \<open>colexd/main.go\<close>, \<open>colex-main\<close>, \<open>colex-test\<close>, and the composition of the components:
    closing the daemon stops everything, and the files a client packs are the ones its silo gets.

  \<^bold>\<open>How the parts meet.\<close> The daemon's invariant rests on the contracts of its parts: the pool's
  (\<open>address_allocator\<close>), of which every interface is a client; that of interfaces (\<open>interface_contract\<close>), which
  gives the silo's account of the addresses it owes; the map's (\<open>go_map\<close>) and that of the metadata
  directory (\<open>directory\<close>). Each is a locale interpreted on the model's own operations (\<open>ipp\<close>, \<open>si\<close>, \<open>gm\<close>,
  \<open>dir\<close>). The locale \<open>trace_order\<close> has what programs do to the trace; it is interpreted for growth (\<open>gr\<close>),
  the namespace of the thread (\<open>nn\<close>), properties that are kept (\<open>kp\<close>) and the absence of requests (\<open>sl\<close>).
  The silo side meets the child in \<open>child_runs_silo_command\<close>, the client meets the daemon in
  \<open>packed_files_reach_the_silo\<close>.

  \<^bold>\<open>Bounds.\<close> All recursion is structural or has a measure, except \<open>getClientCert\<close>, whose argument is the
  number of stack frames left: two are enough where what was written stays (\<open>client_certificate_terminates\<close>). The wait for a device
  in the child has the 1000 rounds of the source. Histories of a daemon have at most \<open>2 ^ 127 div 4\<close>
  requests: each takes at most four steps of the pool, and its 128-bit counter wraps only after more than
  \<open>2 ^ 127\<close> steps; a run of goroutine turns is bounded by \<open>work\<close>.

  \<^bold>\<open>Parameters.\<close> Third-party and cryptographic code is an argument of the definitions that use it: the HCL
  parser and decoder, the check of a TLS key pair, the decoders of PEM and X.509, \<open>url.Parse\<close>, \<open>bytefmt.ByteSize\<close>.
  A certificate is its raw bytes with its public key in PKIX form or the error of encoding it. Drawing keys and
  signing are calls to the host.

  \<^bold>\<open>Not modelled.\<close> The packages under \<open>vendor\<close> (apart from the \<open>netns\<close> execer); the encoding of gob, TLS, HTTP
  and DNS on the network (a request carries the packet its body decodes to, a response the values written); log
  and terminal output other than tables; the registration of the child with \<open>reexec\<close>; data races on the
  map of host names, which the metadata service reads without the server's lock; unit tests, documents and
  images. Of \<open>cgroups.go\<close> three helpers that no code calls are left out (\<open>readInt64Value\<close>, \<open>parsePairValue\<close>, \<open>GetEnabledSubsystems\<close>): they change nothing, and
  what they compute rests on \<open>fmt.Sscanf\<close> and on Unicode's white space.
\<close>

end
